(* ===== verification/Prelude.thy ===== *)
theory Prelude imports Main "HOL-Library.Word" begin

text \<open>
  Shared vocabulary of the development: the machine types of the C code, early return as a
  sum type, and generic facts about lists and words used by several components.
\<close>

unbundle bit_operations_syntax

named_theorems ret_simps \<open>unfolding early returns\<close>

subsection \<open>Machine types\<close>

text \<open>C's \<open>char\<close> / \<open>unsigned char\<close> buffers are lists of bytes; \<open>uint32_t\<close> and
  \<open>size_t\<close> (on the 64-bit targets the project builds for) are words of that width.\<close>

type_synonym byte = "8 word"
type_synonym u32 = "32 word"
type_synonym u64 = "64 word"

subsection \<open>Early return\<close>

text \<open>
  A statement that may \<open>return\<close> from the middle of its function yields \<open>Inl\<close> with the
  value the function leaves with, or \<open>Inr\<close> with the state in which the next statement runs.
\<close>

fun bind_ret :: "'r + 's \<Rightarrow> ('s \<Rightarrow> 'r + 't) \<Rightarrow> 'r + 't" where
  "bind_ret (Inl r) f = Inl r"
| "bind_ret (Inr s) f = f s"

lemma bind_ret_Inr_iff [ret_simps]:
  "bind_ret m f = Inr t \<longleftrightarrow> (\<exists>s. m = Inr s \<and> f s = Inr t)"
  by (cases m) auto

lemma bind_ret_assoc [ret_simps]:
  "bind_ret (bind_ret m f) g = bind_ret m (\<lambda>s. bind_ret (f s) g)"
  by (cases m) auto

text \<open>An operation that may fail, run over a list of inputs.\<close>

fun feed_all :: "('c \<Rightarrow> 'x \<Rightarrow> 'c option) \<Rightarrow> 'c \<Rightarrow> 'x list \<Rightarrow> 'c option" where
  "feed_all f c [] = Some c"
| "feed_all f c (x # xs) = Option.bind (f c x) (\<lambda>c. feed_all f c xs)"

lemma feed_all_append: "feed_all f c (xs @ ys) = Option.bind (feed_all f c xs) (\<lambda>c. feed_all f c ys)"
  by (induction xs arbitrary: c) (auto split: Option.bind_splits)

subsection \<open>Callbacks\<close>

text \<open>A callback returns its \<open>int\<close> or leaves by a C++ exception.\<close>

datatype cb_result = CbReturn int | CbThrow

subsection \<open>Lists\<close>

lemma drop_nth_Cons: "i < length xs \<Longrightarrow> drop i xs = xs ! i # drop (Suc i) xs"
  by (rule Cons_nth_drop_Suc [symmetric])

lemma nth_of_drop: "drop i xs = ys \<Longrightarrow> j < length ys \<Longrightarrow> xs ! (i + j) = ys ! j"
  by auto

lemma drop_nat_Cons:
  "p + 1 \<le> r \<Longrightarrow> drop (nat (r - p)) (x # xs) = drop (nat (r - (p + 1))) xs"
proof -
  assume "p + 1 \<le> r"
  then have "nat (r - p) = Suc (nat (r - (p + 1)))" by simp
  then show ?thesis by simp
qed

lemma fold_inv:
  assumes "\<And>x s. I s \<Longrightarrow> I (f x s)" and "I s"
  shows "I (fold f xs s)"
  using assms(2) by (induction xs arbitrary: s) (auto intro: assms(1))

subsection \<open>Bits of literal masks\<close>

text \<open>The simplifier reads \<open>bit\<close> of a word numeral as \<open>bit\<close> of the integer; these give the
  bits of the masks the C code uses, so that \<open>bit_word_eqI\<close> with \<open>bit_simps bit_lits\<close>
  proves an identity of shifts and masks.\<close>

named_theorems bit_lits \<open>bits of the masks of the code\<close>

lemma bit_lit_mask [bit_lits]:
  "bit (0x7F :: int) n \<longleftrightarrow> n < 7" "bit (0xFF :: int) n \<longleftrightarrow> n < 8" "bit (0xF :: int) n \<longleftrightarrow> n < 4"
  "bit (0x3F :: int) n \<longleftrightarrow> n < 6" "bit (0x3 :: int) n \<longleftrightarrow> n < 2"
  using bit_mask_iff [of 7 n, where 'a = int] bit_mask_iff [of 8 n, where 'a = int]
    bit_mask_iff [of 4 n, where 'a = int] bit_mask_iff [of 6 n, where 'a = int]
    bit_mask_iff [of 2 n, where 'a = int]
  by (auto simp: mask_eq_exp_minus_1)

lemma bit_lit_pow [bit_lits]:
  "bit (0x80 :: int) n \<longleftrightarrow> n = 7" "bit (0x10 :: int) n \<longleftrightarrow> n = 4" "bit (0x20 :: int) n \<longleftrightarrow> n = 5"
  using bit_exp_iff [of 7 n, where 'a = int] bit_exp_iff [of 4 n, where 'a = int]
    bit_exp_iff [of 5 n, where 'a = int] by auto

lemma and_pow_iff [bit_lits]:
  fixes w :: "'a::len word"
  shows "w AND 0x80 = 0 \<longleftrightarrow> \<not> bit w 7" "w AND 0x10 = 0 \<longleftrightarrow> \<not> bit w 4" "w AND 0x20 = 0 \<longleftrightarrow> \<not> bit w 5"
  using and_exp_eq_0_iff_not_bit [of w 7] and_exp_eq_0_iff_not_bit [of w 4]
    and_exp_eq_0_iff_not_bit [of w 5] by simp_all

subsection \<open>Small words\<close>

lemma take_bit_small:
  fixes w :: "'a::len word"
  assumes "unat w < 2 ^ k" shows "take_bit k w = w"
  using assms by (simp add: word_unat_eq_iff unsigned_take_bit_eq take_bit_nat_eq_self)

lemma bit_small:
  fixes w :: "'a::len word"
  assumes "unat w < 2 ^ k" and "k \<le> n" shows "\<not> bit w n"
  using assms by (metis take_bit_small bit_take_bit_iff not_less)

subsection \<open>Words as numbers\<close>

lemma unat_take_bit:
  fixes w :: "'a::len word" shows "unat (take_bit n w) = unat w mod 2 ^ n"
  unfolding unsigned_take_bit_eq by (simp only: take_bit_eq_mod)

lemma unat_drop_bit:
  fixes w :: "'a::len word" shows "unat (drop_bit n w) = unat w div 2 ^ n"
  unfolding drop_bit_eq_div [symmetric, where 'a = nat]
  by (rule bit_eqI) (auto simp: bit_simps dest: bit_imp_le_length)

lemma unat_push_bit:
  fixes w :: "'a::len word"
  assumes "unat w * 2 ^ n < 2 ^ LENGTH('a)" shows "unat (push_bit n w) = unat w * 2 ^ n"
  using assms unfolding unsigned_push_bit_eq by (simp add: push_bit_eq_mult take_bit_nat_eq_self)

lemma unat_add_small:
  fixes v w :: "'a::len word"
  assumes "unat v + unat w < 2 ^ LENGTH('a)" shows "unat (v + w) = unat v + unat w"
  using assms by (simp add: unat_word_ariths)

lemma nibbles:
  "push_bit 4 (drop_bit 4 c) OR (c AND 0xF) = c" for c :: byte
proof -
  have "push_bit 4 (drop_bit 4 c) OR (c AND mask 4) = c"
    by (rule bit_word_eqI) (auto simp: bit_simps)
  then show ?thesis by (simp add: mask_eq_exp_minus_1)
qed

lemma nibble_bounds: "unat (drop_bit 4 c) < 16" "unat (c AND 0xF) < 16" for c :: byte
proof -
  have "unat c < 2 ^ 8" using unsigned_less [of c, where 'a = nat] by simp
  then show "unat (drop_bit 4 c) < 16" by (simp add: unat_drop_bit)
  have "c AND 0xF = take_bit 4 c" by (simp add: take_bit_eq_mask mask_eq_exp_minus_1)
  then show "unat (c AND 0xF) < 16" by (simp add: unat_take_bit)
qed

subsection \<open>Copying between buffers\<close>

text \<open>\<open>memcpy\<close> into a buffer at a position, and reading a range of one; \<open>None\<close> is an access outside
  of the buffer.\<close>

definition copy_into :: "'a list \<Rightarrow> nat \<Rightarrow> 'a list \<Rightarrow> 'a list option" where
  "copy_into dst pos src = (if pos + length src \<le> length dst
     then Some (take pos dst @ src @ drop (pos + length src) dst) else None)"

definition read_range :: "'a list \<Rightarrow> nat \<Rightarrow> nat \<Rightarrow> 'a list option" where
  "read_range src pos n = (if pos + n \<le> length src then Some (take n (drop pos src)) else None)"

end
