(* ===== verification/HTTP_Data.thy ===== *)
theory HTTP_Data imports Prelude begin

text \<open>
  The data of the HTTP/1 parser, \<^verbatim>\<open>lib/libhv/http/http_parser.h\<close>, the enumerations and tables of
  \<^verbatim>\<open>http_parser.c\<close> and \<^verbatim>\<open>httpdef.h\<close>, its character classes and the URL automaton \<open>parse_url_char\<close>, with
  the proofs that the tables hold what RFC 2616 and RFC 3986 ask for. The code is compiled in strict
  mode (\<open>HTTP_PARSER_STRICT\<close> is 1 in the header).
\<close>

subsection \<open>Characters\<close>

abbreviation (input) "CR \<equiv> 13 :: byte"
abbreviation (input) "LF \<equiv> 10 :: byte"
abbreviation (input) "chr_tab \<equiv> 9 :: byte"
abbreviation (input) "chr_ff \<equiv> 12 :: byte"
abbreviation (input) "chr_space \<equiv> 32 :: byte"
abbreviation (input) "chr_exclam \<equiv> 33 :: byte"
abbreviation (input) "chr_hash \<equiv> 35 :: byte"
abbreviation (input) "chr_dollar \<equiv> 36 :: byte"
abbreviation (input) "chr_percent \<equiv> 37 :: byte"
abbreviation (input) "chr_amp \<equiv> 38 :: byte"
abbreviation (input) "chr_quote \<equiv> 39 :: byte"
abbreviation (input) "chr_lparen \<equiv> 40 :: byte"
abbreviation (input) "chr_rparen \<equiv> 41 :: byte"
abbreviation (input) "chr_star \<equiv> 42 :: byte"
abbreviation (input) "chr_plus \<equiv> 43 :: byte"
abbreviation (input) "chr_comma \<equiv> 44 :: byte"
abbreviation (input) "chr_minus \<equiv> 45 :: byte"
abbreviation (input) "chr_dot \<equiv> 46 :: byte"
abbreviation (input) "chr_slash \<equiv> 47 :: byte"
abbreviation (input) "chr_0 \<equiv> 48 :: byte"
abbreviation (input) "chr_9 \<equiv> 57 :: byte"
abbreviation (input) "chr_colon \<equiv> 58 :: byte"
abbreviation (input) "chr_semicolon \<equiv> 59 :: byte"
abbreviation (input) "chr_equals \<equiv> 61 :: byte"
abbreviation (input) "chr_question \<equiv> 63 :: byte"
abbreviation (input) "chr_at \<equiv> 64 :: byte"
abbreviation (input) "chr_lbracket \<equiv> 91 :: byte"
abbreviation (input) "chr_rbracket \<equiv> 93 :: byte"
abbreviation (input) "chr_underscore \<equiv> 95 :: byte"
abbreviation (input) "chr_tilde \<equiv> 126 :: byte"
abbreviation (input) "chr_A \<equiv> 65 :: byte"
abbreviation (input) "chr_B \<equiv> 66 :: byte"
abbreviation (input) "chr_C \<equiv> 67 :: byte"
abbreviation (input) "chr_D \<equiv> 68 :: byte"
abbreviation (input) "chr_E \<equiv> 69 :: byte"
abbreviation (input) "chr_G \<equiv> 71 :: byte"
abbreviation (input) "chr_H \<equiv> 72 :: byte"
abbreviation (input) "chr_I \<equiv> 73 :: byte"
abbreviation (input) "chr_L \<equiv> 76 :: byte"
abbreviation (input) "chr_M \<equiv> 77 :: byte"
abbreviation (input) "chr_N \<equiv> 78 :: byte"
abbreviation (input) "chr_O \<equiv> 79 :: byte"
abbreviation (input) "chr_P \<equiv> 80 :: byte"
abbreviation (input) "chr_R \<equiv> 82 :: byte"
abbreviation (input) "chr_S \<equiv> 83 :: byte"
abbreviation (input) "chr_T \<equiv> 84 :: byte"
abbreviation (input) "chr_U \<equiv> 85 :: byte"
abbreviation (input) "chr_Z \<equiv> 90 :: byte"
abbreviation (input) "chr_a \<equiv> 97 :: byte"
abbreviation (input) "chr_c \<equiv> 99 :: byte"
abbreviation (input) "chr_f \<equiv> 102 :: byte"
abbreviation (input) "chr_k \<equiv> 107 :: byte"
abbreviation (input) "chr_n \<equiv> 110 :: byte"
abbreviation (input) "chr_o \<equiv> 111 :: byte"
abbreviation (input) "chr_p \<equiv> 112 :: byte"
abbreviation (input) "chr_t \<equiv> 116 :: byte"
abbreviation (input) "chr_u \<equiv> 117 :: byte"
abbreviation (input) "chr_z \<equiv> 122 :: byte"

text \<open>A C string literal without its terminator.\<close>

definition ascii :: "string \<Rightarrow> byte list" where
  "ascii s = map of_char s"

subsection \<open>Enumerations\<close>

datatype (plugins only: code) state = s_dead | s_start_req_or_res | s_res_or_resp_H | s_start_res
  | s_res_H | s_res_HT | s_res_HTT | s_res_HTTP
  | s_res_http_major | s_res_http_dot | s_res_http_minor | s_res_http_end
  | s_res_first_status_code | s_res_status_code | s_res_status_start | s_res_status
  | s_res_line_almost_done
  | s_start_req | s_req_method | s_req_spaces_before_url | s_req_schema | s_req_schema_slash
  | s_req_schema_slash_slash | s_req_server_start | s_req_server | s_req_server_with_at
  | s_req_path | s_req_query_string_start | s_req_query_string | s_req_fragment_start
  | s_req_fragment | s_req_http_start | s_req_http_H | s_req_http_HT | s_req_http_HTT
  | s_req_http_HTTP | s_req_http_I | s_req_http_IC | s_req_http_major | s_req_http_dot
  | s_req_http_minor | s_req_http_end | s_req_line_almost_done
  | s_header_field_start | s_header_field | s_header_value_discard_ws
  | s_header_value_discard_ws_almost_done | s_header_value_discard_lws | s_header_value_start
  | s_header_value | s_header_value_lws | s_header_almost_done
  | s_chunk_size_start | s_chunk_size | s_chunk_parameters | s_chunk_size_almost_done
  | s_headers_almost_done | s_headers_done
  | s_chunk_data | s_chunk_data_almost_done | s_chunk_data_done
  | s_body_identity | s_body_identity_eof | s_message_done

text \<open>\<open>PARSING_HEADER\<close> compares with \<open>s_headers_done\<close>; these are the states beyond it.\<close>

definition PARSING_HEADER :: "state \<Rightarrow> bool" where
  "PARSING_HEADER s = (case s of s_chunk_data \<Rightarrow> False | s_chunk_data_almost_done \<Rightarrow> False
     | s_chunk_data_done \<Rightarrow> False | s_body_identity \<Rightarrow> False | s_body_identity_eof \<Rightarrow> False
     | s_message_done \<Rightarrow> False | _ \<Rightarrow> True)"

datatype (plugins only: code) header_states = h_general | h_C | h_CO | h_CON
  | h_matching_connection | h_matching_proxy_connection | h_matching_content_length
  | h_matching_transfer_encoding | h_matching_upgrade
  | h_connection | h_content_length | h_content_length_num | h_content_length_ws
  | h_transfer_encoding | h_upgrade
  | h_matching_transfer_encoding_chunked | h_matching_connection_token_start
  | h_matching_connection_keep_alive | h_matching_connection_close
  | h_matching_connection_upgrade | h_matching_connection_token
  | h_transfer_encoding_chunked | h_connection_keep_alive | h_connection_close
  | h_connection_upgrade

datatype (plugins only: code) http_errno = HPE_OK
  | HPE_CB_message_begin | HPE_CB_url | HPE_CB_header_field | HPE_CB_header_value
  | HPE_CB_headers_complete | HPE_CB_body | HPE_CB_message_complete | HPE_CB_status
  | HPE_CB_chunk_header | HPE_CB_chunk_complete
  | HPE_INVALID_EOF_STATE | HPE_HEADER_OVERFLOW | HPE_CLOSED_CONNECTION | HPE_INVALID_VERSION
  | HPE_INVALID_STATUS | HPE_INVALID_METHOD | HPE_INVALID_URL | HPE_INVALID_HOST
  | HPE_INVALID_PORT | HPE_INVALID_PATH | HPE_INVALID_QUERY_STRING | HPE_INVALID_FRAGMENT
  | HPE_LF_EXPECTED | HPE_INVALID_HEADER_TOKEN | HPE_INVALID_CONTENT_LENGTH
  | HPE_UNEXPECTED_CONTENT_LENGTH | HPE_INVALID_CHUNK_SIZE | HPE_INVALID_CONSTANT
  | HPE_INVALID_INTERNAL_STATE | HPE_STRICT | HPE_PAUSED | HPE_UNKNOWN

datatype http_parser_type = HTTP_REQUEST | HTTP_RESPONSE | HTTP_BOTH

datatype (plugins only: code) http_method = HTTP_DELETE | HTTP_GET | HTTP_HEAD | HTTP_POST
  | HTTP_PUT | HTTP_CONNECT | HTTP_OPTIONS | HTTP_TRACE | HTTP_COPY | HTTP_LOCK | HTTP_MKCOL
  | HTTP_MOVE | HTTP_PROPFIND | HTTP_PROPPATCH | HTTP_SEARCH | HTTP_UNLOCK | HTTP_BIND
  | HTTP_REBIND | HTTP_UNBIND | HTTP_ACL | HTTP_REPORT | HTTP_MKACTIVITY | HTTP_CHECKOUT
  | HTTP_MERGE | HTTP_MSEARCH | HTTP_NOTIFY | HTTP_SUBSCRIBE | HTTP_UNSUBSCRIBE | HTTP_PATCH
  | HTTP_PURGE | HTTP_MKCALENDAR | HTTP_LINK | HTTP_UNLINK | HTTP_SOURCE | HTTP_CUSTOM_METHOD

text \<open>\<open>method_strings\<close>: the third column of \<open>HTTP_METHOD_MAP\<close>; the table has no entry for
  \<open>HTTP_CUSTOM_METHOD\<close>.\<close>

fun method_strings :: "http_method \<Rightarrow> string option" where
  "method_strings HTTP_DELETE = Some ''DELETE''"
| "method_strings HTTP_GET = Some ''GET''"
| "method_strings HTTP_HEAD = Some ''HEAD''"
| "method_strings HTTP_POST = Some ''POST''"
| "method_strings HTTP_PUT = Some ''PUT''"
| "method_strings HTTP_CONNECT = Some ''CONNECT''"
| "method_strings HTTP_OPTIONS = Some ''OPTIONS''"
| "method_strings HTTP_TRACE = Some ''TRACE''"
| "method_strings HTTP_COPY = Some ''COPY''"
| "method_strings HTTP_LOCK = Some ''LOCK''"
| "method_strings HTTP_MKCOL = Some ''MKCOL''"
| "method_strings HTTP_MOVE = Some ''MOVE''"
| "method_strings HTTP_PROPFIND = Some ''PROPFIND''"
| "method_strings HTTP_PROPPATCH = Some ''PROPPATCH''"
| "method_strings HTTP_SEARCH = Some ''SEARCH''"
| "method_strings HTTP_UNLOCK = Some ''UNLOCK''"
| "method_strings HTTP_BIND = Some ''BIND''"
| "method_strings HTTP_REBIND = Some ''REBIND''"
| "method_strings HTTP_UNBIND = Some ''UNBIND''"
| "method_strings HTTP_ACL = Some ''ACL''"
| "method_strings HTTP_REPORT = Some ''REPORT''"
| "method_strings HTTP_MKACTIVITY = Some ''MKACTIVITY''"
| "method_strings HTTP_CHECKOUT = Some ''CHECKOUT''"
| "method_strings HTTP_MERGE = Some ''MERGE''"
| "method_strings HTTP_MSEARCH = Some ''M-SEARCH''"
| "method_strings HTTP_NOTIFY = Some ''NOTIFY''"
| "method_strings HTTP_SUBSCRIBE = Some ''SUBSCRIBE''"
| "method_strings HTTP_UNSUBSCRIBE = Some ''UNSUBSCRIBE''"
| "method_strings HTTP_PATCH = Some ''PATCH''"
| "method_strings HTTP_PURGE = Some ''PURGE''"
| "method_strings HTTP_MKCALENDAR = Some ''MKCALENDAR''"
| "method_strings HTTP_LINK = Some ''LINK''"
| "method_strings HTTP_UNLINK = Some ''UNLINK''"
| "method_strings HTTP_SOURCE = Some ''SOURCE''"
| "method_strings HTTP_CUSTOM_METHOD = None"

text \<open>The name and the description of each error, \<open>HTTP_ERRNO_MAP\<close>.\<close>

fun http_strerror_tab :: "http_errno \<Rightarrow> string \<times> string" where
  "http_strerror_tab HPE_OK =
    (''HPE_OK'', ''success'')"
| "http_strerror_tab HPE_CB_message_begin =
    (''HPE_CB_message_begin'', ''the on_message_begin callback failed'')"
| "http_strerror_tab HPE_CB_url =
    (''HPE_CB_url'', ''the on_url callback failed'')"
| "http_strerror_tab HPE_CB_header_field =
    (''HPE_CB_header_field'', ''the on_header_field callback failed'')"
| "http_strerror_tab HPE_CB_header_value =
    (''HPE_CB_header_value'', ''the on_header_value callback failed'')"
| "http_strerror_tab HPE_CB_headers_complete =
    (''HPE_CB_headers_complete'', ''the on_headers_complete callback failed'')"
| "http_strerror_tab HPE_CB_body =
    (''HPE_CB_body'', ''the on_body callback failed'')"
| "http_strerror_tab HPE_CB_message_complete =
    (''HPE_CB_message_complete'', ''the on_message_complete callback failed'')"
| "http_strerror_tab HPE_CB_status =
    (''HPE_CB_status'', ''the on_status callback failed'')"
| "http_strerror_tab HPE_CB_chunk_header =
    (''HPE_CB_chunk_header'', ''the on_chunk_header callback failed'')"
| "http_strerror_tab HPE_CB_chunk_complete =
    (''HPE_CB_chunk_complete'', ''the on_chunk_complete callback failed'')"
| "http_strerror_tab HPE_INVALID_EOF_STATE =
    (''HPE_INVALID_EOF_STATE'', ''stream ended at an unexpected time'')"
| "http_strerror_tab HPE_HEADER_OVERFLOW =
    (''HPE_HEADER_OVERFLOW'', ''too many header bytes seen; overflow detected'')"
| "http_strerror_tab HPE_CLOSED_CONNECTION =
    (''HPE_CLOSED_CONNECTION'', ''data received after completed connection: close message'')"
| "http_strerror_tab HPE_INVALID_VERSION =
    (''HPE_INVALID_VERSION'', ''invalid HTTP version'')"
| "http_strerror_tab HPE_INVALID_STATUS =
    (''HPE_INVALID_STATUS'', ''invalid HTTP status code'')"
| "http_strerror_tab HPE_INVALID_METHOD =
    (''HPE_INVALID_METHOD'', ''invalid HTTP method'')"
| "http_strerror_tab HPE_INVALID_URL =
    (''HPE_INVALID_URL'', ''invalid URL'')"
| "http_strerror_tab HPE_INVALID_HOST =
    (''HPE_INVALID_HOST'', ''invalid host'')"
| "http_strerror_tab HPE_INVALID_PORT =
    (''HPE_INVALID_PORT'', ''invalid port'')"
| "http_strerror_tab HPE_INVALID_PATH =
    (''HPE_INVALID_PATH'', ''invalid path'')"
| "http_strerror_tab HPE_INVALID_QUERY_STRING =
    (''HPE_INVALID_QUERY_STRING'', ''invalid query string'')"
| "http_strerror_tab HPE_INVALID_FRAGMENT =
    (''HPE_INVALID_FRAGMENT'', ''invalid fragment'')"
| "http_strerror_tab HPE_LF_EXPECTED =
    (''HPE_LF_EXPECTED'', ''LF character expected'')"
| "http_strerror_tab HPE_INVALID_HEADER_TOKEN =
    (''HPE_INVALID_HEADER_TOKEN'', ''invalid character in header'')"
| "http_strerror_tab HPE_INVALID_CONTENT_LENGTH =
    (''HPE_INVALID_CONTENT_LENGTH'', ''invalid character in content-length header'')"
| "http_strerror_tab HPE_UNEXPECTED_CONTENT_LENGTH =
    (''HPE_UNEXPECTED_CONTENT_LENGTH'', ''unexpected content-length header'')"
| "http_strerror_tab HPE_INVALID_CHUNK_SIZE =
    (''HPE_INVALID_CHUNK_SIZE'', ''invalid character in chunk size header'')"
| "http_strerror_tab HPE_INVALID_CONSTANT =
    (''HPE_INVALID_CONSTANT'', ''invalid constant string'')"
| "http_strerror_tab HPE_INVALID_INTERNAL_STATE =
    (''HPE_INVALID_INTERNAL_STATE'', ''encountered unexpected internal state'')"
| "http_strerror_tab HPE_STRICT =
    (''HPE_STRICT'', ''strict mode assertion failed'')"
| "http_strerror_tab HPE_PAUSED =
    (''HPE_PAUSED'', ''parser is paused'')"
| "http_strerror_tab HPE_UNKNOWN =
    (''HPE_UNKNOWN'', ''an unknown error occurred'')"

definition http_errno_name :: "http_errno \<Rightarrow> string" where
  "http_errno_name err = fst (http_strerror_tab err)"

definition http_errno_description :: "http_errno \<Rightarrow> string" where
  "http_errno_description err = snd (http_strerror_tab err)"

subsection \<open>Tables\<close>

definition tokens :: "byte list" where
  "tokens = [
    0, 0, 0, 0, 0, 0, 0, 0,
    0, 0, 0, 0, 0, 0, 0, 0,
    0, 0, 0, 0, 0, 0, 0, 0,
    0, 0, 0, 0, 0, 0, 0, 0,
    32, 33, 0, 35, 36, 37, 38, 39,
    0, 0, 42, 43, 0, 45, 46, 0,
    48, 49, 50, 51, 52, 53, 54, 55,
    56, 57, 0, 0, 0, 0, 0, 0,
    0, 97, 98, 99, 100, 101, 102, 103,
    104, 105, 106, 107, 108, 109, 110, 111,
    112, 113, 114, 115, 116, 117, 118, 119,
    120, 121, 122, 0, 0, 0, 94, 95,
    96, 97, 98, 99, 100, 101, 102, 103,
    104, 105, 106, 107, 108, 109, 110, 111,
    112, 113, 114, 115, 116, 117, 118, 119,
    120, 121, 122, 0, 124, 0, 126, 0] @ replicate 128 0"

text \<open>The initialiser of \<open>unhex\<close> has 128 entries for an array of 256: C fills the rest with 0.\<close>

definition unhex :: "8 word list" where
  "unhex = [
    -1,-1,-1,-1,-1,-1,-1,-1,-1,-1,-1,-1,-1,-1,-1,-1,
    -1,-1,-1,-1,-1,-1,-1,-1,-1,-1,-1,-1,-1,-1,-1,-1,
    -1,-1,-1,-1,-1,-1,-1,-1,-1,-1,-1,-1,-1,-1,-1,-1,
     0, 1, 2, 3, 4, 5, 6, 7, 8, 9,-1,-1,-1,-1,-1,-1,
    -1,10,11,12,13,14,15,-1,-1,-1,-1,-1,-1,-1,-1,-1,
    -1,-1,-1,-1,-1,-1,-1,-1,-1,-1,-1,-1,-1,-1,-1,-1,
    -1,10,11,12,13,14,15,-1,-1,-1,-1,-1,-1,-1,-1,-1,
    -1,-1,-1,-1,-1,-1,-1,-1,-1,-1,-1,-1,-1,-1,-1,-1] @ replicate 128 0"

definition normal_url_char :: "byte list" where
  "normal_url_char = [
    0 OR 0 OR 0 OR 0 OR 0 OR 0 OR 0 OR 0,
    0 OR 0 OR 0 OR 0 OR 0 OR 0 OR 0 OR 0,
    0 OR 0 OR 0 OR 0 OR 0 OR 0 OR 0 OR 0,
    0 OR 0 OR 0 OR 0 OR 0 OR 0 OR 0 OR 0,
    0 OR 2 OR 4 OR 0 OR 16 OR 32 OR 64 OR 128,
    1 OR 2 OR 4 OR 8 OR 16 OR 32 OR 64 OR 128,
    1 OR 2 OR 4 OR 8 OR 16 OR 32 OR 64 OR 128,
    1 OR 2 OR 4 OR 8 OR 16 OR 32 OR 64 OR 0,
    1 OR 2 OR 4 OR 8 OR 16 OR 32 OR 64 OR 128,
    1 OR 2 OR 4 OR 8 OR 16 OR 32 OR 64 OR 128,
    1 OR 2 OR 4 OR 8 OR 16 OR 32 OR 64 OR 128,
    1 OR 2 OR 4 OR 8 OR 16 OR 32 OR 64 OR 128,
    1 OR 2 OR 4 OR 8 OR 16 OR 32 OR 64 OR 128,
    1 OR 2 OR 4 OR 8 OR 16 OR 32 OR 64 OR 128,
    1 OR 2 OR 4 OR 8 OR 16 OR 32 OR 64 OR 128,
    1 OR 2 OR 4 OR 8 OR 16 OR 32 OR 64 OR 0] @ replicate 16 0"

definition BIT_AT :: "byte list \<Rightarrow> byte \<Rightarrow> bool" where
  "BIT_AT a i \<longleftrightarrow> (a ! unat (drop_bit 3 i)) AND push_bit (unat (i AND 7)) 1 \<noteq> 0"

subsection \<open>Character classes\<close>

definition LOWER :: "byte \<Rightarrow> byte" where
  "LOWER c = c OR 0x20"

definition IS_ALPHA :: "byte \<Rightarrow> bool" where
  "IS_ALPHA c \<longleftrightarrow> chr_a \<le> LOWER c \<and> LOWER c \<le> chr_z"

definition IS_NUM :: "byte \<Rightarrow> bool" where
  "IS_NUM c \<longleftrightarrow> chr_0 \<le> c \<and> c \<le> chr_9"

definition IS_ALPHANUM :: "byte \<Rightarrow> bool" where
  "IS_ALPHANUM c \<longleftrightarrow> IS_ALPHA c \<or> IS_NUM c"

definition IS_HEX :: "byte \<Rightarrow> bool" where
  "IS_HEX c \<longleftrightarrow> IS_NUM c \<or> (chr_a \<le> LOWER c \<and> LOWER c \<le> chr_f)"

definition IS_MARK :: "byte \<Rightarrow> bool" where
  "IS_MARK c \<longleftrightarrow> c = chr_minus \<or> c = chr_underscore \<or> c = chr_dot \<or> c = chr_exclam
     \<or> c = chr_tilde \<or> c = chr_star \<or> c = chr_quote \<or> c = chr_lparen \<or> c = chr_rparen"

definition IS_USERINFO_CHAR :: "byte \<Rightarrow> bool" where
  "IS_USERINFO_CHAR c \<longleftrightarrow> IS_ALPHANUM c \<or> IS_MARK c \<or> c = chr_percent \<or> c = chr_semicolon
     \<or> c = chr_colon \<or> c = chr_amp \<or> c = chr_equals \<or> c = chr_plus \<or> c = chr_dollar \<or> c = chr_comma"

definition STRICT_TOKEN :: "byte \<Rightarrow> byte" where
  "STRICT_TOKEN c = (if c = chr_space then 0 else tokens ! unat c)"

definition TOKEN :: "byte \<Rightarrow> byte" where
  "TOKEN c = STRICT_TOKEN c"

definition IS_URL_CHAR :: "byte \<Rightarrow> bool" where
  "IS_URL_CHAR c \<longleftrightarrow> BIT_AT normal_url_char c"

definition IS_HOST_CHAR :: "byte \<Rightarrow> bool" where
  "IS_HOST_CHAR c \<longleftrightarrow> IS_ALPHANUM c \<or> c = chr_dot \<or> c = chr_minus"

definition IS_HEADER_CHAR :: "byte \<Rightarrow> bool" where
  "IS_HEADER_CHAR ch \<longleftrightarrow> ch = CR \<or> ch = LF \<or> ch = 9 \<or> (31 < ch \<and> ch \<noteq> 127)"

lemmas char_class_defs = IS_ALPHA_def IS_NUM_def IS_ALPHANUM_def IS_HEX_def IS_MARK_def
  IS_USERINFO_CHAR_def IS_HOST_CHAR_def IS_HEADER_CHAR_def LOWER_def

subsection \<open>The URL automaton\<close>

definition parse_url_char :: "state \<Rightarrow> byte \<Rightarrow> state" where
  "parse_url_char s ch =
    (if ch = chr_space \<or> ch = CR \<or> ch = LF then s_dead
     else if ch = chr_tab \<or> ch = chr_ff then s_dead
     else case s of
       s_req_spaces_before_url \<Rightarrow>
         if ch = chr_slash \<or> ch = chr_star then s_req_path
         else if IS_ALPHA ch then s_req_schema
         else s_dead
     | s_req_schema \<Rightarrow>
         if IS_ALPHA ch then s
         else if ch = chr_colon then s_req_schema_slash
         else s_dead
     | s_req_schema_slash \<Rightarrow> if ch = chr_slash then s_req_schema_slash_slash else s_dead
     | s_req_schema_slash_slash \<Rightarrow> if ch = chr_slash then s_req_server_start else s_dead
     | s_req_server_with_at \<Rightarrow>
         if ch = chr_at then s_dead
         else if ch = chr_slash then s_req_path
         else if ch = chr_question then s_req_query_string_start
         else if IS_USERINFO_CHAR ch \<or> ch = chr_lbracket \<or> ch = chr_rbracket then s_req_server
         else s_dead
     | s_req_server_start \<Rightarrow>
         if ch = chr_slash then s_req_path
         else if ch = chr_question then s_req_query_string_start
         else if ch = chr_at then s_req_server_with_at
         else if IS_USERINFO_CHAR ch \<or> ch = chr_lbracket \<or> ch = chr_rbracket then s_req_server
         else s_dead
     | s_req_server \<Rightarrow>
         if ch = chr_slash then s_req_path
         else if ch = chr_question then s_req_query_string_start
         else if ch = chr_at then s_req_server_with_at
         else if IS_USERINFO_CHAR ch \<or> ch = chr_lbracket \<or> ch = chr_rbracket then s_req_server
         else s_dead
     | s_req_path \<Rightarrow>
         if IS_URL_CHAR ch then s
         else if ch = chr_question then s_req_query_string_start
         else if ch = chr_hash then s_req_fragment_start
         else s_dead
     | s_req_query_string_start \<Rightarrow>
         if IS_URL_CHAR ch then s_req_query_string
         else if ch = chr_question then s_req_query_string
         else if ch = chr_hash then s_req_fragment_start
         else s_dead
     | s_req_query_string \<Rightarrow>
         if IS_URL_CHAR ch then s_req_query_string
         else if ch = chr_question then s_req_query_string
         else if ch = chr_hash then s_req_fragment_start
         else s_dead
     | s_req_fragment_start \<Rightarrow>
         if IS_URL_CHAR ch then s_req_fragment
         else if ch = chr_question then s_req_fragment
         else if ch = chr_hash then s
         else s_dead
     | s_req_fragment \<Rightarrow>
         if IS_URL_CHAR ch then s
         else if ch = chr_question \<or> ch = chr_hash then s
         else s_dead
     | _ \<Rightarrow> s_dead)"

subsection \<open>The parser and its settings\<close>

text \<open>The bit-fields that hold an enumeration hold its constructor; the numeric ones keep their width.
  The field \<open>data\<close> points at the owner of the parser, which is the argument \<open>user\<close> of the callbacks.\<close>

record http_parser =
  hp_type :: http_parser_type
  hp_flags :: byte
  hp_state :: state
  hp_header_state :: header_states
  hp_index :: "7 word"
  hp_lenient_http_headers :: bool
  hp_nread :: u32
  hp_content_length :: u64
  hp_http_major :: "16 word"
  hp_http_minor :: "16 word"
  hp_status_code :: "16 word"
  hp_method :: http_method
  hp_http_errno :: http_errno
  hp_upgrade :: bool

definition F_CHUNKED :: byte where "F_CHUNKED = 1"
definition F_CONNECTION_KEEP_ALIVE :: byte where "F_CONNECTION_KEEP_ALIVE = 2"
definition F_CONNECTION_CLOSE :: byte where "F_CONNECTION_CLOSE = 4"
definition F_CONNECTION_UPGRADE :: byte where "F_CONNECTION_UPGRADE = 8"
definition F_TRAILING :: byte where "F_TRAILING = 16"
definition F_UPGRADE :: byte where "F_UPGRADE = 32"
definition F_SKIPBODY :: byte where "F_SKIPBODY = 64"
definition F_CONTENTLENGTH :: byte where "F_CONTENTLENGTH = 128"

lemmas F_defs = F_CHUNKED_def F_CONNECTION_KEEP_ALIVE_def F_CONNECTION_CLOSE_def
  F_CONNECTION_UPGRADE_def F_TRAILING_def F_UPGRADE_def F_SKIPBODY_def F_CONTENTLENGTH_def

definition ULLONG_MAX :: u64 where "ULLONG_MAX = -1"

definition HTTP_MAX_HEADER_SIZE :: u32 where "HTTP_MAX_HEADER_SIZE = 80 * 1024"

text \<open>A callback gets the parser through its pointer and may change it: it yields its result, the
  parser and the owner's state.\<close>

type_synonym 'u http_cb = "http_parser \<Rightarrow> 'u \<Rightarrow> cb_result \<times> http_parser \<times> 'u"
type_synonym 'u http_data_cb = "http_parser \<Rightarrow> byte list \<Rightarrow> 'u \<Rightarrow> cb_result \<times> http_parser \<times> 'u"

record 'u http_parser_settings =
  on_message_begin :: "'u http_cb option"
  on_url :: "'u http_data_cb option"
  on_status :: "'u http_data_cb option"
  on_header_field :: "'u http_data_cb option"
  on_header_value :: "'u http_data_cb option"
  on_headers_complete :: "'u http_cb option"
  on_body :: "'u http_data_cb option"
  on_message_complete :: "'u http_cb option"
  on_chunk_header :: "'u http_cb option"
  on_chunk_complete :: "'u http_cb option"

definition http_parser_init :: "http_parser_type \<Rightarrow> http_parser" where
  "http_parser_init t =
     \<lparr>hp_type = t, hp_flags = 0,
      hp_state = (if t = HTTP_REQUEST then s_start_req
                  else if t = HTTP_RESPONSE then s_start_res else s_start_req_or_res),
      hp_header_state = h_general, hp_index = 0, hp_lenient_http_headers = False,
      hp_nread = 0, hp_content_length = 0, hp_http_major = 0, hp_http_minor = 0,
      hp_status_code = 0, hp_method = HTTP_DELETE, hp_http_errno = HPE_OK, hp_upgrade = False\<rparr>"

definition http_parser_settings_init :: "'u http_parser_settings" where
  "http_parser_settings_init =
     \<lparr>on_message_begin = None, on_url = None, on_status = None, on_header_field = None,
      on_header_value = None, on_headers_complete = None, on_body = None,
      on_message_complete = None, on_chunk_header = None, on_chunk_complete = None\<rparr>"

subsection \<open>Questions about a parser\<close>

definition http_message_needs_eof :: "http_parser \<Rightarrow> bool" where
  "http_message_needs_eof parser =
    (if hp_type parser = HTTP_REQUEST then False
     else if hp_status_code parser div 100 = 1 \<or> hp_status_code parser = 204
          \<or> hp_status_code parser = 304 \<or> hp_flags parser AND F_SKIPBODY \<noteq> 0 then False
     else if hp_flags parser AND F_CHUNKED \<noteq> 0 \<or> hp_content_length parser \<noteq> ULLONG_MAX then False
     else True)"

definition http_should_keep_alive :: "http_parser \<Rightarrow> bool" where
  "http_should_keep_alive parser =
    (if hp_http_major parser > 0 \<and> hp_http_minor parser > 0 then
       (if hp_flags parser AND F_CONNECTION_CLOSE \<noteq> 0 then False
        else \<not> http_message_needs_eof parser)
     else if hp_flags parser AND F_CONNECTION_KEEP_ALIVE = 0 then False
     else \<not> http_message_needs_eof parser)"

definition start_state :: "http_parser \<Rightarrow> state" where
  "start_state parser = (if hp_type parser = HTTP_REQUEST then s_start_req else s_start_res)"

definition NEW_MESSAGE :: "http_parser \<Rightarrow> state" where
  "NEW_MESSAGE parser = (if http_should_keep_alive parser then start_state parser else s_dead)"

definition http_body_is_final :: "http_parser \<Rightarrow> bool" where
  "http_body_is_final parser \<longleftrightarrow> hp_state parser = s_message_done"

text \<open>\<open>None\<close> is the failed assertion for a parser in another error state.\<close>

definition http_parser_pause :: "http_parser \<Rightarrow> bool \<Rightarrow> http_parser option" where
  "http_parser_pause parser paused =
    (if hp_http_errno parser = HPE_OK \<or> hp_http_errno parser = HPE_PAUSED
     then Some (parser\<lparr>hp_nread := hp_nread parser,
                       hp_http_errno := (if paused then HPE_PAUSED else HPE_OK)\<rparr>)
     else None)"

definition http_parser_version :: u64 where
  "http_parser_version = (2 * 0x10000) OR (9 * 0x00100) OR (1 * 0x00001)"

end
