(* ===== verification/HString.thy ===== *)
theory HString imports HTTP_Data begin

text \<open>
  Strings of the C++ side, \<^verbatim>\<open>lib/libhv/cpputil/hstring.cpp\<close> and \<^verbatim>\<open>hstring.h\<close>, and \<open>std::map\<close> with
  the two orders the code uses: \<open>std::less\<close> (\<open>KeyValue\<close> of \<^verbatim>\<open>hmap.h\<close>) and \<open>StringCaseLess\<close> (the HTTP
  headers). A \<open>std::string\<close> is a list of bytes; \<open>c_str\<close> gives what a C function sees of it.
\<close>

subsection \<open>C strings\<close>

text \<open>The converse of \<open>ascii\<close>.\<close>

definition to_chars :: "byte list \<Rightarrow> string" where
  "to_chars s = map (\<lambda>c. char_of (unat c)) s"

definition c_str :: "byte list \<Rightarrow> byte list" where
  "c_str s = takeWhile (\<lambda>c. c \<noteq> 0) s"

lemma c_str_id [simp]: "0 \<notin> set s \<Longrightarrow> c_str s = s"
  by (auto simp: c_str_def takeWhile_eq_all_conv)

lemma c_str_no_zero [simp]: "0 \<notin> set (c_str s)"
  by (auto simp: c_str_def dest: set_takeWhileD)

definition to_lower :: "byte \<Rightarrow> byte" where
  "to_lower c = (if chr_A \<le> c \<and> c \<le> chr_Z then c OR 0x20 else c)"

text \<open>\<open>strcasecmp\<close>: the sign of the difference at the first place where the lower-cased strings differ.\<close>

fun strcasecmp :: "byte list \<Rightarrow> byte list \<Rightarrow> int" where
  "strcasecmp [] [] = 0"
| "strcasecmp [] (d # t) = -1"
| "strcasecmp (c # s) [] = 1"
| "strcasecmp (c # s) (d # t) =
     (if to_lower c = to_lower d then strcasecmp s t else if to_lower c < to_lower d then -1 else 1)"

definition stricmp :: "byte list \<Rightarrow> byte list \<Rightarrow> int" where
  "stricmp s t = strcasecmp (c_str s) (c_str t)"

definition StringCaseLess :: "byte list \<Rightarrow> byte list \<Rightarrow> bool" where
  "StringCaseLess lhs rhs \<longleftrightarrow> strcasecmp (c_str lhs) (c_str rhs) < 0"

text \<open>\<open>operator<\<close> of \<open>std::string\<close>: bytes as unsigned characters.\<close>

fun string_less :: "byte list \<Rightarrow> byte list \<Rightarrow> bool" where
  "string_less s [] = False"
| "string_less [] (d # t) = True"
| "string_less (c # s) (d # t) = (c < d \<or> (c = d \<and> string_less s t))"

subsection \<open>Ordered maps\<close>

text \<open>\<open>std::map\<close> as its entries in iteration order; \<open>map_find\<close> is \<open>find\<close> and \<open>map_set\<close> is
  \<open>m[k] = v\<close>, which keeps the key that is already there.\<close>

type_synonym 'v strmap = "(byte list \<times> 'v) list"

fun map_find :: "(byte list \<Rightarrow> byte list \<Rightarrow> bool) \<Rightarrow> byte list \<Rightarrow> 'v strmap \<Rightarrow> 'v option" where
  "map_find lt k [] = None"
| "map_find lt k ((k', v) # m) =
     (if lt k' k then map_find lt k m else if lt k k' then None else Some v)"

fun map_set :: "(byte list \<Rightarrow> byte list \<Rightarrow> bool) \<Rightarrow> byte list \<Rightarrow> 'v \<Rightarrow> 'v strmap \<Rightarrow> 'v strmap" where
  "map_set lt k v [] = [(k, v)]"
| "map_set lt k v ((k', v') # m) =
     (if lt k' k then (k', v') # map_set lt k v m
      else if lt k k' then (k, v) # (k', v') # m
      else (k', v) # m)"

text \<open>What \<open>std::map\<close> asks of its comparison: a strict weak order.\<close>

locale key_order =
  fixes lt :: "byte list \<Rightarrow> byte list \<Rightarrow> bool"
  assumes asym: "lt a b \<Longrightarrow> \<not> lt b a"
    and trans: "lt a b \<Longrightarrow> lt b c \<Longrightarrow> lt a c"
    and weak: "\<not> lt a b \<Longrightarrow> \<not> lt b c \<Longrightarrow> \<not> lt a c"
begin

definition map_ok :: "(byte list \<times> 'v) list \<Rightarrow> bool" where
  "map_ok m \<longleftrightarrow> sorted_wrt lt (map fst m)"

definition same :: "byte list \<Rightarrow> byte list \<Rightarrow> bool" where
  "same a b \<longleftrightarrow> \<not> lt a b \<and> \<not> lt b a"

lemma same_refl [simp]: "same a a"
  using asym [of a a] by (auto simp: same_def)

lemma same_less:
  assumes "same a b" shows "lt a c = lt b c" "lt c a = lt c b"
proof -
  have ab: "\<not> lt a b" "\<not> lt b a" using assms by (simp_all add: same_def)
  show "lt a c = lt b c" using weak [OF ab(1), of c] weak [OF ab(2), of c] by argo
  show "lt c a = lt c b" using weak [OF _ ab(1), of c] weak [OF _ ab(2), of c] by argo
qed

lemma fst_map_set: "set (map fst (map_set lt k v m)) \<subseteq> insert k (set (map fst m))"
  by (induction m) (auto simp del: set_map split: if_splits)

lemma map_set_ok: "map_ok m \<Longrightarrow> map_ok (map_set lt k v m)"
proof (induction m)
  case (Cons e m)
  obtain k' v' where e: "e = (k', v')" by (cases e)
  have above: "\<forall>b\<in>set (map fst m). lt k' b" and ok: "map_ok m"
    using Cons.prems by (auto simp: e map_ok_def)
  consider (low) "lt k' k" | (high) "lt k k'" "\<not> lt k' k" | (eq) "\<not> lt k' k" "\<not> lt k k'"
    by blast
  then show ?case
  proof cases
    case low
    then have "\<forall>b\<in>set (map fst (map_set lt k v m)). lt k' b"
      using above fst_map_set [of k v m] by blast
    then show ?thesis using low Cons.IH [OF ok] by (simp add: e map_ok_def)
  next
    case high
    then have "\<forall>b\<in>set (map fst m). lt k b" using above trans [OF high(1)] by blast
    then show ?thesis using high above ok by (simp add: e map_ok_def)
  next
    case eq
    then show ?thesis using above ok by (simp add: e map_ok_def)
  qed
qed (simp add: map_ok_def)

lemma find_above: "\<forall>b\<in>set (map fst m). lt k b \<Longrightarrow> map_find lt k m = None"
  by (induction m) (auto dest: asym)

lemma map_find_set:
  "map_ok m \<Longrightarrow> map_find lt j (map_set lt k v m) = (if same j k then Some v else map_find lt j m)"
proof (induction m)
  case Nil
  then show ?case using asym by (auto simp: same_def)
next
  case (Cons e m)
  obtain k' v' where e: "e = (k', v')" by (cases e)
  have above: "\<forall>b\<in>set (map fst m). lt k' b" and ok: "map_ok m"
    using Cons.prems by (auto simp: e map_ok_def)
  consider (low) "lt k' k" | (high) "lt k k'" "\<not> lt k' k" | (eq) "same k' k"
    by (auto simp: same_def)
  then show ?case
  proof cases
    case low
    show ?thesis
    proof (cases "same j k")
      case True
      then have "lt k' j" using low same_less(2) [of j k k'] by simp
      then show ?thesis using low Cons.IH [OF ok] True by (simp add: e)
    next
      case False
      then show ?thesis using low Cons.IH [OF ok] by (simp add: e)
    qed
  next
    case high
    show ?thesis
    proof (cases "same j k")
      case True
      then show ?thesis using high by (auto simp: e same_def)
    next
      case False
      then have "lt j k \<or> lt k j" by (auto simp: same_def)
      then show ?thesis using high trans [of j k k'] asym [of j k] asym [of j k'] False
        by (auto simp: e)
    qed
  next
    case eq
    then have eq': "\<not> lt k' k" "\<not> lt k k'" by (auto simp: same_def)
    have "same j k = (\<not> lt k' j \<and> \<not> lt j k')"
      using same_less [OF eq, of j] by (auto simp: same_def)
    then show ?thesis using eq' above trans [of j k'] by (auto simp: e find_above)
  qed
qed

end

lemma to_lower_values: "to_lower c = to_lower d \<longleftrightarrow> strcasecmp [c] [d] = 0"
  by simp

lemma strcasecmp_flip: "strcasecmp t s = - strcasecmp s t"
  by (induction s t rule: strcasecmp.induct) (auto simp: not_less_iff_gr_or_eq)

lemma strcasecmp_trans:
  "strcasecmp a b \<le> 0 \<Longrightarrow> strcasecmp b c \<le> 0 \<Longrightarrow>
     strcasecmp a c \<le> 0 \<and> (strcasecmp a b < 0 \<or> strcasecmp b c < 0 \<longrightarrow> strcasecmp a c < 0)"
proof (induction a b arbitrary: c rule: strcasecmp.induct)
  case 1 then show ?case by (cases c) auto
next
  case 2 then show ?case by (cases c) auto
next
  case (3 a s) then show ?case by simp
next
  case (4 a s b t)
  show ?case
  proof (cases c)
    case (Cons d u)
    consider (eq) "to_lower a = to_lower b" "to_lower b = to_lower d"
      | (low) "to_lower a \<le> to_lower b" "to_lower b \<le> to_lower d" "to_lower a < to_lower d"
      | (high) "to_lower a > to_lower b \<or> to_lower b > to_lower d"
      by fastforce
    then show ?thesis
    proof cases
      case eq
      then show ?thesis using 4 by (simp add: Cons)
    next
      case low
      from low(3) have "to_lower a \<noteq> to_lower d" by simp
      then show ?thesis using low by (simp add: Cons)
    next
      case high
      then have "strcasecmp (a # s) (b # t) > 0 \<or> strcasecmp (b # t) (d # u) > 0" by auto
      then show ?thesis using 4(2,3) by (simp add: Cons)
    qed
  qed (use 4 in simp)
qed

interpretation header_order: key_order StringCaseLess
proof
  show "StringCaseLess a b \<Longrightarrow> \<not> StringCaseLess b a" for a b
    using strcasecmp_flip [of "c_str b" "c_str a"] by (simp add: StringCaseLess_def)
  show "StringCaseLess a b \<Longrightarrow> StringCaseLess b c \<Longrightarrow> StringCaseLess a c" for a b c
    using strcasecmp_trans [of "c_str a" "c_str b" "c_str c"] by (simp add: StringCaseLess_def)
  show "\<not> StringCaseLess a c" if "\<not> StringCaseLess a b" "\<not> StringCaseLess b c" for a b c
  proof -
    have "strcasecmp (c_str b) (c_str a) \<le> 0" "strcasecmp (c_str c) (c_str b) \<le> 0"
      using that strcasecmp_flip [of "c_str b" "c_str a"] strcasecmp_flip [of "c_str c" "c_str b"]
      unfolding StringCaseLess_def by linarith+
    then show ?thesis
      using strcasecmp_trans [of "c_str c" "c_str b" "c_str a"] strcasecmp_flip [of "c_str c" "c_str a"]
      unfolding StringCaseLess_def by linarith
  qed
qed

lemma string_less_linear: "\<not> string_less s t \<Longrightarrow> s = t \<or> string_less t s"
proof (induction s t rule: string_less.induct)
  case (1 s)
  then show ?case by (cases s) auto
qed auto

lemma string_less_asym: "string_less s t \<Longrightarrow> \<not> string_less t s"
  by (induction s t rule: string_less.induct) auto

lemma string_less_trans: "string_less s t \<Longrightarrow> string_less t u \<Longrightarrow> string_less s u"
proof (induction s t arbitrary: u rule: string_less.induct)
  case (2 d t) then show ?case by (cases u) auto
next
  case (3 c s d t)
  then show ?case by (cases u) auto
qed simp

interpretation string_order: key_order string_less
proof
  show "\<not> string_less a b \<Longrightarrow> \<not> string_less b c \<Longrightarrow> \<not> string_less a c" for a b c
    using string_less_linear [of a b] string_less_linear [of b c] string_less_asym [of c a]
      string_less_trans [of c b a] by auto
qed (auto dest: string_less_asym intro: string_less_trans)


subsection \<open>The functions of hstring.cpp\<close>

text \<open>\<open>toupper\<close> and \<open>tolower\<close> change the string in place up to its first zero byte.\<close>

fun toupper :: "byte list \<Rightarrow> byte list" where
  "toupper [] = []"
| "toupper (c # s) =
     (if c = 0 then c # s else (if chr_a \<le> c \<and> c \<le> chr_z then c AND 0xDF else c) # toupper s)"

fun tolower :: "byte list \<Rightarrow> byte list" where
  "tolower [] = []"
| "tolower (c # s) =
     (if c = 0 then c # s else (if chr_A \<le> c \<and> c \<le> chr_Z then c OR 0x20 else c) # tolower s)"

text \<open>The pointers \<open>b\<close> and \<open>e\<close> of \<open>reverse\<close> as offsets; \<open>e\<close> is -1 for the empty string.\<close>

function reverse_loop :: "byte list \<Rightarrow> int \<Rightarrow> int \<Rightarrow> byte list" where
  "reverse_loop s b e =
     (if e > b then reverse_loop (s[nat e := s ! nat b, nat b := s ! nat e]) (b + 1) (e - 1) else s)"
  by auto
termination by (relation "measure (\<lambda>(s, b, e). nat (e - b))") auto

declare reverse_loop.simps [simp del]

definition reverse :: "byte list \<Rightarrow> byte list" where
  "reverse s = reverse_loop s 0 (int (length s) - 1)"

definition startswith :: "byte list \<Rightarrow> byte list \<Rightarrow> bool" where
  "startswith str start = (if length str < length start then False else take (length start) str = start)"

definition endswith :: "byte list \<Rightarrow> byte list \<Rightarrow> bool" where
  "endswith str ed = (if length str < length ed then False
     else take (length ed) (drop (length str - length ed) str) = ed)"

text \<open>\<open>std::string::find\<close> from a position; \<open>None\<close> is \<open>npos\<close>.\<close>

definition find_from :: "byte list \<Rightarrow> byte list \<Rightarrow> nat \<Rightarrow> nat option" where
  "find_from str sub pos =
     List.find (\<lambda>i. take (length sub) (drop i str) = sub) [pos..<length str + 1 - length sub]"

definition contains :: "byte list \<Rightarrow> byte list \<Rightarrow> bool" where
  "contains str sub = (if length str < length sub then False else find_from str sub 0 \<noteq> None)"

fun split_loop :: "byte \<Rightarrow> byte list \<Rightarrow> byte list \<Rightarrow> byte list list" where
  "split_loop delim value [] = [value]"
| "split_loop delim value (c # p) =
     (if c = delim then value # split_loop delim [] p else split_loop delim (value @ [c]) p)"

definition split :: "byte list \<Rightarrow> byte \<Rightarrow> byte list list" where
  "split str delim = split_loop delim [] (c_str str)"

text \<open>The scanner of \<open>splitKV\<close>: \<open>key\<close> and \<open>value\<close> point into the string (null at first for
  \<open>value\<close>), and the lengths count the characters seen in each of the two states.\<close>

record kv_scan =
  kv_in_value :: bool
  kv_key :: nat
  kv_value :: "nat option"
  kv_key_len :: nat
  kv_value_len :: nat
  kv_kvs :: "byte list strmap"

definition kv_start :: "byte list strmap \<Rightarrow> kv_scan" where
  "kv_start kvs = \<lparr>kv_in_value = False, kv_key = 0, kv_value = None, kv_key_len = 0, kv_value_len = 0, kv_kvs = kvs\<rparr>"

text \<open>\<open>std::string(value, value_len)\<close>: a null pointer is only read if the length is not zero. The buffer is the
  string with its terminator; \<open>None\<close> is a read behind it.\<close>

definition kv_read :: "byte list \<Rightarrow> nat option \<Rightarrow> nat \<Rightarrow> byte list option" where
  "kv_read buf p n = (case p of None \<Rightarrow> if n = 0 then Some [] else None | Some p \<Rightarrow> read_range buf p n)"

definition splitKV_emit :: "byte list \<Rightarrow> kv_scan \<Rightarrow> kv_scan option" where
  "splitKV_emit buf st =
     (if kv_key_len st \<noteq> 0 \<and> kv_value_len st \<noteq> 0 then
        Option.bind (read_range buf (kv_key st) (kv_key_len st)) (\<lambda>key.
        Option.bind (kv_read buf (kv_value st) (kv_value_len st)) (\<lambda>value.
          Some (st\<lparr>kv_kvs := map_set string_less key value (kv_kvs st), kv_key_len := 0, kv_value_len := 0\<rparr>)))
      else Some st)"

definition kv_count :: "kv_scan \<Rightarrow> kv_scan" where
  "kv_count st = (if kv_in_value st then st\<lparr>kv_value_len := kv_value_len st + 1\<rparr>
     else st\<lparr>kv_key_len := kv_key_len st + 1\<rparr>)"

fun splitKV_loop :: "byte \<Rightarrow> byte \<Rightarrow> byte list \<Rightarrow> nat \<Rightarrow> byte list \<Rightarrow> kv_scan \<Rightarrow> kv_scan option" where
  "splitKV_loop kv_kv k_v buf p [] st = Some st"
| "splitKV_loop kv_kv k_v buf p (c # cs) st =
     (if c = kv_kv then Option.bind (splitKV_emit buf st) (\<lambda>st.
        splitKV_loop kv_kv k_v buf (p + 1) cs (st\<lparr>kv_in_value := False, kv_key := p + 1\<rparr>))
      else if c = k_v then
        splitKV_loop kv_kv k_v buf (p + 1) cs (st\<lparr>kv_in_value := True, kv_value := Some (p + 1)\<rparr>)
      else splitKV_loop kv_kv k_v buf (p + 1) cs (kv_count st))"

definition splitKV :: "byte list \<Rightarrow> byte \<Rightarrow> byte \<Rightarrow> byte list strmap option" where
  "splitKV str kv_kv k_v =
     (let buf = c_str str @ [0] in
      Option.bind (splitKV_loop kv_kv k_v buf 0 (c_str str) (kv_start [])) (\<lambda>st.
      map_option kv_kvs (splitKV_emit buf st)))"

text \<open>The trimming functions; positions as in \<open>std::string\<close>, \<open>None\<close> for \<open>npos\<close>.\<close>

definition SPACE_CHARS :: "byte list" where "SPACE_CHARS = [32, 9, 13, 10]"
definition PAIR_CHARS :: "byte list" where
  "PAIR_CHARS = [123, 125, 91, 93, 40, 41, 60, 62, 34, 34, 39, 39, 96, 96]"

definition find_first_not_of :: "byte list \<Rightarrow> byte list \<Rightarrow> nat option" where
  "find_first_not_of str chars = List.find (\<lambda>i. str ! i \<notin> set chars) [0..<length str]"

definition find_last_not_of :: "byte list \<Rightarrow> byte list \<Rightarrow> nat option" where
  "find_last_not_of str chars = List.find (\<lambda>i. str ! i \<notin> set chars) (rev [0..<length str])"

definition trim :: "byte list \<Rightarrow> byte list \<Rightarrow> byte list" where
  "trim str chars = (case find_first_not_of str chars of None \<Rightarrow> []
     | Some pos1 \<Rightarrow> (case find_last_not_of str chars of
         Some pos2 \<Rightarrow> take (pos2 - pos1 + 1) (drop pos1 str)
       | None \<Rightarrow> drop pos1 str))"

definition ltrim :: "byte list \<Rightarrow> byte list \<Rightarrow> byte list" where
  "ltrim str chars = (case find_first_not_of str chars of None \<Rightarrow> [] | Some pos \<Rightarrow> drop pos str)"

definition rtrim :: "byte list \<Rightarrow> byte list \<Rightarrow> byte list" where
  "rtrim str chars = (case find_last_not_of str chars of None \<Rightarrow> take 0 str | Some pos \<Rightarrow> take (pos + 1) str)"

text \<open>\<open>trim_pairs\<close> compares the last character only after the first one, so never for the empty string; for one
  character \<open>size() - 2\<close> is \<open>npos\<close>.\<close>

fun is_pair :: "byte \<Rightarrow> byte \<Rightarrow> byte list \<Rightarrow> bool" where
  "is_pair s e (p # q # pairs) = (if s = p \<and> e = q then True else is_pair s e pairs)"
| "is_pair s e pairs = False"

definition trim_pairs :: "byte list \<Rightarrow> byte list \<Rightarrow> byte list" where
  "trim_pairs str pairs =
     (if str \<noteq> [] \<and> is_pair (hd str) (last str) (c_str pairs)
      then (if length str < 2 then drop 1 str else take (length str - 2) (drop 1 str)) else str)"

definition str_replace :: "byte list \<Rightarrow> nat \<Rightarrow> nat \<Rightarrow> byte list \<Rightarrow> byte list" where
  "str_replace res pos n rep = take pos res @ rep @ drop (pos + n) res"

definition replace :: "byte list \<Rightarrow> byte list \<Rightarrow> byte list \<Rightarrow> byte list" where
  "replace str sub rep = (case find_from str sub 0 of
     Some pos \<Rightarrow> str_replace str pos (length sub) rep | None \<Rightarrow> str)"

text \<open>The loop of \<open>replaceAll\<close>; \<open>None\<close> when it does not end.\<close>

partial_function (option) replaceAll_loop ::
  "byte list \<Rightarrow> byte list \<Rightarrow> byte list \<Rightarrow> nat \<Rightarrow> byte list option" where
  "replaceAll_loop sub rep res pos = (case find_from res sub pos of
     None \<Rightarrow> Some res
   | Some pos \<Rightarrow> replaceAll_loop sub rep (str_replace res pos (length sub) rep) (pos + length rep))"

definition replaceAll :: "byte list \<Rightarrow> byte list \<Rightarrow> byte list \<Rightarrow> byte list option" where
  "replaceAll str sub rep = replaceAll_loop sub rep str 0"

end
