(* ===== verification/HBase.thy ===== *)
theory HBase imports HString begin

text \<open>
  The string functions of \<^verbatim>\<open>lib/libhv/base/hbase.c\<close> and its URL parser \<open>hv_parse_url\<close>. A C string is the
  list of its bytes before the terminator, a buffer that is written a list of its size, and \<open>None\<close> an
  access outside of it; pointers into a string are offsets.
\<close>

subsection \<open>In place\<close>

definition hv_strupper :: "byte list \<Rightarrow> byte list" where
  "hv_strupper str = map (\<lambda>c. if chr_a \<le> c \<and> c \<le> chr_z then c AND 0xDF else c) str"

definition hv_strlower :: "byte list \<Rightarrow> byte list" where
  "hv_strlower str = map (\<lambda>c. if chr_A \<le> c \<and> c \<le> chr_Z then c OR 0x20 else c) str"

definition hv_strreverse :: "byte list option \<Rightarrow> byte list option" where
  "hv_strreverse str = (case str of None \<Rightarrow> None | Some s \<Rightarrow> Some (reverse_loop s 0 (int (length s) - 1)))"

subsection \<open>Bounded copies\<close>

definition put :: "byte list \<Rightarrow> nat \<Rightarrow> byte \<Rightarrow> byte list option" where
  "put buf i c = (if i < length buf then Some (buf[i := c]) else None)"

text \<open>The loop \<open>while (*src != '\0' && --n > 0)\<close> and the terminator after it; \<open>n\<close> is a \<open>size_t\<close>.\<close>

fun strncpy_loop :: "byte list \<Rightarrow> nat \<Rightarrow> byte list \<Rightarrow> u64 \<Rightarrow> byte list option" where
  "strncpy_loop buf dest [] n = put buf dest 0"
| "strncpy_loop buf dest (c # src) n =
     (let n = n - 1 in
      if n > 0 then Option.bind (put buf dest c) (\<lambda>buf. strncpy_loop buf (dest + 1) src n)
      else put buf dest 0)"

definition hv_strncpy :: "byte list \<Rightarrow> byte list \<Rightarrow> u64 \<Rightarrow> byte list option" where
  "hv_strncpy dest src n = strncpy_loop dest 0 src n"

text \<open>\<open>hv_strncat\<close> first runs to the end of the string in \<open>dest\<close>, taking its length off \<open>n\<close>; a buffer without a zero
  byte is read behind its end.\<close>

definition hv_strncat :: "byte list \<Rightarrow> byte list \<Rightarrow> u64 \<Rightarrow> byte list option" where
  "hv_strncat dest src n =
     (if 0 \<in> set dest
      then (let k = length (c_str dest) in strncpy_loop dest k src (n - of_nat k)) else None)"

subsection \<open>Looking into strings\<close>

fun hv_strstartswith :: "byte list \<Rightarrow> byte list \<Rightarrow> bool" where
  "hv_strstartswith (c # str) (d # start) = (if c = d then hv_strstartswith str start else False)"
| "hv_strstartswith str start = (start = [])"

fun endswith_loop :: "byte list \<Rightarrow> byte list \<Rightarrow> bool" where
  "endswith_loop (c # str) (d # ed) = (if c \<noteq> d then False else endswith_loop str ed)"
| "endswith_loop str ed = True"

text \<open>Both pointers walk back from the ends.\<close>

definition hv_strendswith :: "byte list \<Rightarrow> byte list \<Rightarrow> bool" where
  "hv_strendswith str ed = (if length str < length ed then False else endswith_loop (rev str) (rev ed))"

definition hv_strcontains :: "byte list \<Rightarrow> byte list \<Rightarrow> bool" where
  "hv_strcontains str sub = (find_from str sub 0 \<noteq> None)"

text \<open>\<open>strchr\<close> from a position, and \<open>hv_strnchr\<close>, which looks at \<open>n\<close> characters at most.\<close>

definition strchr_from :: "byte list \<Rightarrow> byte \<Rightarrow> nat \<Rightarrow> nat option" where
  "strchr_from s c from = List.find (\<lambda>i. s ! i = c) [from..<length s]"

definition hv_strnchr :: "byte list \<Rightarrow> byte \<Rightarrow> nat \<Rightarrow> nat \<Rightarrow> nat option" where
  "hv_strnchr s c from n = List.find (\<lambda>i. s ! i = c) [from..<min (length s) (from + n)]"

definition hv_strrchr_dir :: "byte list \<Rightarrow> nat option" where
  "hv_strrchr_dir filepath = List.find (\<lambda>i. filepath ! i = chr_slash) (rev [0..<length filepath])"

definition hv_basename :: "byte list \<Rightarrow> byte list" where
  "hv_basename filepath = (case hv_strrchr_dir filepath of Some pos \<Rightarrow> drop (pos + 1) filepath | None \<Rightarrow> filepath)"

definition hv_strrchr_dot :: "byte list \<Rightarrow> nat option" where
  "hv_strrchr_dot str = List.find (\<lambda>i. str ! i = chr_dot) (rev [0..<length str])"

definition hv_suffixname :: "byte list \<Rightarrow> byte list" where
  "hv_suffixname filename = (case hv_strrchr_dot filename of Some pos \<Rightarrow> drop (pos + 1) filename | None \<Rightarrow> [])"

subsection \<open>Parsing values\<close>

definition hv_getboolean :: "byte list option \<Rightarrow> bool" where
  "hv_getboolean str = (case str of None \<Rightarrow> False | Some str \<Rightarrow>
     let len = length str in
     if len = 0 then False
     else if len = 1 then hd str = 0x31 \<or> hd str = 0x79 \<or> hd str = 0x59
     else if len = 2 then stricmp str (ascii ''on'') = 0
     else if len = 3 then stricmp str (ascii ''yes'') = 0
     else if len = 4 then stricmp str (ascii ''true'') = 0
     else if len = 6 then stricmp str (ascii ''enable'') = 0
     else False)"

text \<open>\<open>hv_parse_size\<close> and \<open>hv_parse_time\<close>: \<open>n\<close> is the number read so far, \<open>acc\<close> and \<open>time\<close> the sum.\<close>

fun parse_size_loop :: "byte list \<Rightarrow> u64 \<Rightarrow> u64 \<Rightarrow> u64" where
  "parse_size_loop [] acc n = acc + n"
| "parse_size_loop (c # p) acc n =
     (if chr_0 \<le> c \<and> c \<le> chr_9 then parse_size_loop p acc (n * 10 + ucast c - 48)
      else let n = (if c = 0x4B \<or> c = 0x6B then push_bit 10 n
                    else if c = 0x4D \<or> c = 0x6D then push_bit 20 n
                    else if c = 0x47 \<or> c = 0x67 then push_bit 30 n
                    else if c = 0x54 \<or> c = 0x74 then push_bit 40 n
                    else n)
           in parse_size_loop p (acc + n) 0)"

definition hv_parse_size :: "byte list \<Rightarrow> u64" where
  "hv_parse_size str = parse_size_loop str 0 0"

fun parse_time_loop :: "byte list \<Rightarrow> u64 \<Rightarrow> u64 \<Rightarrow> u64" where
  "parse_time_loop [] time n = time + n"
| "parse_time_loop (c # p) time n =
     (if chr_0 \<le> c \<and> c \<le> chr_9 then parse_time_loop p time (n * 10 + ucast c - 48)
      else let n = (if c = 0x73 then n
                    else if c = 0x6D then n * 60
                    else if c = 0x68 then n * (60 * 60)
                    else if c = 0x64 then n * (24 * 60 * 60)
                    else if c = 0x77 then n * (7 * 24 * 60 * 60)
                    else n)
           in parse_time_loop p (time + n) 0)"

definition hv_parse_time :: "byte list \<Rightarrow> u64" where
  "hv_parse_time str = parse_time_loop str 0 0"

subsection \<open>URLs\<close>

datatype (plugins only: code size) hurl_field_e = HV_URL_SCHEME | HV_URL_USERNAME | HV_URL_PASSWORD | HV_URL_HOST
  | HV_URL_PORT | HV_URL_PATH | HV_URL_QUERY | HV_URL_FRAGMENT

record hurl_field =
  uf_off :: "16 word"
  uf_len :: "16 word"

record hurl_t =
  url_fields :: "hurl_field_e \<Rightarrow> hurl_field"
  url_port :: "16 word"

definition hurl_zero :: hurl_t where
  "hurl_zero = \<lparr>url_fields = (\<lambda>f. \<lparr>uf_off = 0, uf_len = 0\<rparr>), url_port = 0\<rparr>"

text \<open>\<open>fields[f].off = off; fields[f].len = len\<close>: both are stored into an \<open>unsigned short\<close>.\<close>

definition set_field :: "hurl_field_e \<Rightarrow> nat \<Rightarrow> nat \<Rightarrow> hurl_t \<Rightarrow> hurl_t" where
  "set_field f off len u = u\<lparr>url_fields := (url_fields u)(f := \<lparr>uf_off = of_nat off, uf_len = of_nat len\<rparr>)\<rparr>"

text \<open>\<open>user:pswd@\<close> between \<open>sp\<close> and \<open>ep\<close>; the second result is where the host begins.\<close>

definition parse_userinfo :: "byte list \<Rightarrow> nat \<Rightarrow> nat \<Rightarrow> hurl_t \<Rightarrow> hurl_t \<times> nat" where
  "parse_userinfo s sp ep u = (case hv_strnchr s chr_at sp (ep - sp) of
     None \<Rightarrow> (u, sp)
   | Some pos \<Rightarrow>
       (case hv_strnchr s chr_colon sp (pos - sp) of
          Some pswd \<Rightarrow> (set_field HV_URL_USERNAME sp (pswd - sp)
             (set_field HV_URL_PASSWORD (pswd + 1) (pos - pswd - 1) u), pos + 1)
        | None \<Rightarrow> (set_field HV_URL_USERNAME sp (pos - sp) u, pos + 1)))"

text \<open>The digits are added up in an \<open>unsigned short\<close> without a check that they are digits; a \<open>char\<close> is signed.\<close>

definition port_digits :: "byte list \<Rightarrow> 16 word \<Rightarrow> 16 word" where
  "port_digits ds n = fold (\<lambda>c n. n * 10 + (scast c - 48)) ds n"

definition parse_port :: "byte list \<Rightarrow> nat \<Rightarrow> nat \<Rightarrow> hurl_t \<Rightarrow> hurl_t \<times> nat" where
  "parse_port s host ep u = (case hv_strnchr s chr_colon host (ep - host) of
     Some port \<Rightarrow>
       (let u = set_field HV_URL_PORT (port + 1) (ep - port - 1) u
        in (u\<lparr>url_port := port_digits (take (ep - port - 1) (drop (port + 1) s)) (url_port u)\<rparr>, port))
   | None \<Rightarrow>
       (u\<lparr>url_port := (if uf_len (url_fields u HV_URL_SCHEME) > 0 \<and> take 8 s = ascii ''https://'' then 443 else 80)\<rparr>, ep))"

text \<open>Everything from the first slash on, at \<open>sp\<close>.\<close>

definition parse_path :: "byte list \<Rightarrow> nat \<Rightarrow> hurl_t \<Rightarrow> hurl_t" where
  "parse_path s sp u = (case strchr_from s chr_question sp of
     None \<Rightarrow> set_field HV_URL_PATH sp (length s - sp) u
   | Some ep \<Rightarrow>
       (let u = set_field HV_URL_PATH sp (ep - sp) u; sp = ep + 1 in
        case strchr_from s chr_hash sp of
          None \<Rightarrow> set_field HV_URL_QUERY sp (length s - sp) u
        | Some ep \<Rightarrow>
            (let u = set_field HV_URL_QUERY sp (ep - sp) u; sp = ep + 1
             in set_field HV_URL_FRAGMENT sp (length s - sp) u)))"

definition hv_parse_url :: "byte list \<Rightarrow> int \<times> hurl_t" where
  "hv_parse_url s =
     (if length s > 65535 then (-2, hurl_zero)
      else
        let (u, sp) = (case find_from s (ascii ''://'') 0 of
              Some ep \<Rightarrow> (set_field HV_URL_SCHEME 0 ep hurl_zero, ep + 3) | None \<Rightarrow> (hurl_zero, 0));
            ep = (case strchr_from s chr_slash sp of Some ep \<Rightarrow> ep | None \<Rightarrow> length s);
            (u, host) = parse_userinfo s sp ep u;
            (u, port) = parse_port s host ep u;
            u = set_field HV_URL_HOST host (port - host) u
        in if ep = length s then (0, u) else (0, parse_path s ep u))"

text \<open>What the callers cut out of the URL with \<open>substr(off, len)\<close>.\<close>

definition url_part :: "byte list \<Rightarrow> hurl_t \<Rightarrow> hurl_field_e \<Rightarrow> byte list" where
  "url_part s u f = take (unat (uf_len (url_fields u f))) (drop (unat (uf_off (url_fields u f))) s)"

end
