(* ===== verification/HUrl.thy ===== *)
theory HUrl imports HBase begin

text \<open>
  URL escaping and splitting, \<^verbatim>\<open>lib/libhv/cpputil/hurl.cpp\<close>, and the query strings of
  \<^verbatim>\<open>lib/libhv/http/http_content.cpp\<close>. \<open>escape\<close> and \<open>unescape\<close> are inverse to each other, and so are
  \<open>dump_query_params\<close> and \<open>parse_query_params\<close>; a second \<open>=\<close> in a parameter makes the parser read
  behind its buffer.
\<close>

subsection \<open>Escaping\<close>

definition is_unambiguous :: "byte \<Rightarrow> bool" where
  "is_unambiguous c \<longleftrightarrow> IS_ALPHANUM c \<or> c = chr_minus \<or> c = chr_underscore \<or> c = chr_dot \<or> c = chr_tilde"

definition char_in_str :: "byte \<Rightarrow> byte list \<Rightarrow> bool" where
  "char_in_str c str \<longleftrightarrow> c \<in> set (c_str str)"

definition hex_tab :: "byte list" where "hex_tab = ascii ''0123456789ABCDEF''"

definition hex2i :: "byte \<Rightarrow> byte" where
  "hex2i hex = (if hex \<le> chr_9 then hex - chr_0
     else if hex \<le> 0x46 then hex - chr_A + 10 else hex - chr_a + 10)"

definition escape_char :: "byte list \<Rightarrow> byte \<Rightarrow> byte list" where
  "escape_char unescaped c =
     (if is_unambiguous c \<or> char_in_str c unescaped then [c]
      else [chr_percent, hex_tab ! unat (drop_bit 4 c), hex_tab ! unat (c AND 0xF)])"

definition url_escape :: "byte list \<Rightarrow> byte list \<Rightarrow> byte list" where
  "url_escape str unescaped = concat (map (escape_char unescaped) (c_str str))"

definition escapeUrl :: "byte list \<Rightarrow> byte list" where
  "escapeUrl url = url_escape url (ascii '':/@?=&#+'')"

text \<open>At the end of the string \<open>p[1]\<close> is the terminator, which is no hexadecimal digit, so \<open>p[2]\<close> is not read.\<close>

fun unescape_loop :: "byte list \<Rightarrow> byte list" where
  "unescape_loop [] = []"
| "unescape_loop (c # a # b # p) =
     (if c = chr_percent \<and> IS_HEX a \<and> IS_HEX b
      then (push_bit 4 (hex2i a) OR hex2i b) # unescape_loop p
      else (if c = chr_plus then chr_space else c) # unescape_loop (a # b # p))"
| "unescape_loop (c # p) = (if c = chr_plus then chr_space else c) # unescape_loop p"

definition url_unescape :: "byte list \<Rightarrow> byte list" where
  "url_unescape str = unescape_loop (c_str str)"

subsection \<open>Query strings\<close>

definition dump_query_params :: "byte list strmap \<Rightarrow> byte list" where
  "dump_query_params ps = fold (\<lambda>(k, v) s.
     (if s \<noteq> [] then s @ [chr_amp] else s) @ url_escape k [] @ [chr_equals] @ url_escape v []) ps []"

definition parse_query_emit :: "byte list \<Rightarrow> kv_scan \<Rightarrow> kv_scan option" where
  "parse_query_emit buf st =
     (if kv_key_len st \<noteq> 0 then
        Option.bind (read_range buf (kv_key st) (kv_key_len st)) (\<lambda>strkey.
        Option.bind (kv_read buf (kv_value st) (kv_value_len st)) (\<lambda>strvalue.
          Some (st\<lparr>kv_kvs := map_set string_less (url_unescape strkey) (url_unescape strvalue) (kv_kvs st),
                   kv_key_len := 0, kv_value_len := 0\<rparr>)))
      else Some st)"

fun parse_query_loop :: "byte list \<Rightarrow> nat \<Rightarrow> byte list \<Rightarrow> kv_scan \<Rightarrow> kv_scan option" where
  "parse_query_loop buf p [] st = Some st"
| "parse_query_loop buf p (c # cs) st =
     (if c = chr_amp then Option.bind (parse_query_emit buf st) (\<lambda>st.
        parse_query_loop buf (p + 1) cs (st\<lparr>kv_in_value := False, kv_key := p + 1\<rparr>))
      else if c = chr_equals then
        parse_query_loop buf (p + 1) cs (st\<lparr>kv_in_value := True, kv_value := Some (p + 1)\<rparr>)
      else parse_query_loop buf (p + 1) cs (kv_count st))"

text \<open>The result is the return value and the parameters, \<open>None\<close> a read behind the query string.\<close>

definition parse_query_params :: "byte list \<Rightarrow> byte list strmap \<Rightarrow> (int \<times> byte list strmap) option" where
  "parse_query_params query_string query_params =
     (let p = (case strchr_from query_string chr_question 0 of Some p \<Rightarrow> p + 1 | None \<Rightarrow> 0);
          buf = query_string @ [0];
          st = (kv_start query_params)\<lparr>kv_key := p\<rparr>
      in Option.bind (parse_query_loop buf p (drop p query_string) st) (\<lambda>st.
         Option.bind (parse_query_emit buf st) (\<lambda>st.
           Some (if kv_kvs st = [] then -1 else 0, kv_kvs st))))"

subsection \<open>HUrl\<close>

record hurl =
  hu_url :: "byte list"
  hu_scheme :: "byte list"
  hu_username :: "byte list"
  hu_password :: "byte list"
  hu_host :: "byte list"
  hu_port :: int
  hu_path :: "byte list"
  hu_query :: "byte list"
  hu_fragment :: "byte list"

definition HUrl_reset :: "hurl \<Rightarrow> hurl" where
  "HUrl_reset h = h\<lparr>hu_url := [], hu_scheme := [], hu_username := [], hu_password := [], hu_host := [],
     hu_port := 0, hu_path := [], hu_query := [], hu_fragment := []\<rparr>"

text \<open>A part replaces the empty string of \<open>reset\<close> if its length is positive, which for the empty part comes to the
  same; the password is only taken with a user name, and the path has a default.\<close>

definition HUrl_parse :: "byte list \<Rightarrow> hurl \<Rightarrow> bool \<times> hurl" where
  "HUrl_parse url h =
     (let h = (HUrl_reset h)\<lparr>hu_url := url\<rparr> in
      case hv_parse_url (c_str url) of (r, u) \<Rightarrow>
        if r \<noteq> 0 then (False, h)
        else
          let part = url_part url u;
              h = h\<lparr>hu_scheme := part HV_URL_SCHEME\<rparr>;
              h = (if part HV_URL_USERNAME \<noteq> [] then h\<lparr>hu_username := part HV_URL_USERNAME, hu_password := part HV_URL_PASSWORD\<rparr> else h);
              h = h\<lparr>hu_host := part HV_URL_HOST, hu_port := uint (url_port u)\<rparr>;
              h = h\<lparr>hu_path := (if part HV_URL_PATH \<noteq> [] then part HV_URL_PATH else [chr_slash])\<rparr>;
              h = h\<lparr>hu_query := part HV_URL_QUERY, hu_fragment := part HV_URL_FRAGMENT\<rparr>
          in (True, h))"

text \<open>\<open>dump\<close> appends the \<open>int\<close> port itself, that is, the one character with this number, and not the text it has just
  printed into \<open>buf\<close>.\<close>

definition HUrl_dump :: "hurl \<Rightarrow> byte list" where
  "HUrl_dump h =
     (if hu_scheme h \<noteq> [] then hu_scheme h @ ascii ''://'' else []) @
     (if hu_username h \<noteq> [] then hu_username h @
        (if hu_password h \<noteq> [] then ascii '':'' @ hu_password h else []) @ ascii ''@'' else []) @
     (if hu_host h \<noteq> [] then hu_host h @
        (if hu_port h \<noteq> 80 \<and> hu_port h \<noteq> 443 then [word_of_int (hu_port h)] else []) else []) @
     hu_path h @
     (if hu_query h \<noteq> [] then chr_question # hu_query h else []) @
     (if hu_fragment h \<noteq> [] then chr_hash # hu_fragment h else [])"

end
