(* ===== verification/HTTP_Def.thy ===== *)
theory HTTP_Def imports HTTP_Data "HOL-Library.Sublist" begin

text \<open>
  \<^verbatim>\<open>lib/libhv/http/httpdef.h\<close> and \<^verbatim>\<open>httpdef.c\<close>: the tables of status codes and content types (the methods are
  in the theory of the parser's data) and the functions between enumerators and their strings.
  An enumerator of these two enumerations is its number.
\<close>

text \<open>\<open>HTTP_STATUS_MAP\<close>: number and string.\<close>

definition status_map :: "(nat \<times> string) list" where
  "status_map = [
     (100, ''Continue''),
     (101, ''Switching Protocols''),
     (102, ''Processing''),
     (200, ''OK''),
     (201, ''Created''),
     (202, ''Accepted''),
     (203, ''Non-Authoritative Information''),
     (204, ''No Content''),
     (205, ''Reset Content''),
     (206, ''Partial Content''),
     (207, ''Multi-Status''),
     (208, ''Already Reported''),
     (226, ''IM Used''),
     (300, ''Multiple Choices''),
     (301, ''Moved Permanently''),
     (302, ''Found''),
     (303, ''See Other''),
     (304, ''Not Modified''),
     (305, ''Use Proxy''),
     (307, ''Temporary Redirect''),
     (308, ''Permanent Redirect''),
     (400, ''Bad Request''),
     (401, ''Unauthorized''),
     (402, ''Payment Required''),
     (403, ''Forbidden''),
     (404, ''Not Found''),
     (405, ''Method Not Allowed''),
     (406, ''Not Acceptable''),
     (407, ''Proxy Authentication Required''),
     (408, ''Request Timeout''),
     (409, ''Conflict''),
     (410, ''Gone''),
     (411, ''Length Required''),
     (412, ''Precondition Failed''),
     (413, ''Payload Too Large''),
     (414, ''URI Too Long''),
     (415, ''Unsupported Media Type''),
     (416, ''Range Not Satisfiable''),
     (417, ''Expectation Failed''),
     (421, ''Misdirected Request''),
     (422, ''Unprocessable Entity''),
     (423, ''Locked''),
     (424, ''Failed Dependency''),
     (426, ''Upgrade Required''),
     (428, ''Precondition Required''),
     (429, ''Too Many Requests''),
     (431, ''Request Header Fields Too Large''),
     (451, ''Unavailable For Legal Reasons''),
     (500, ''Internal Server Error''),
     (501, ''Not Implemented''),
     (502, ''Bad Gateway''),
     (503, ''Service Unavailable''),
     (504, ''Gateway Timeout''),
     (505, ''HTTP Version Not Supported''),
     (506, ''Variant Also Negotiates''),
     (507, ''Insufficient Storage''),
     (508, ''Loop Detected''),
     (510, ''Not Extended''),
     (511, ''Network Authentication Required'')]"

definition HTTP_CUSTOM_STATUS :: nat where "HTTP_CUSTOM_STATUS = 512"

text \<open>The MIME maps: string and suffix, in the order of the enumerators, which count on from the number of
  their group.\<close>

definition MIME_TYPE_TEXT_MAP :: "(string \<times> string) list" where
  "MIME_TYPE_TEXT_MAP = [
     (''text/plain'', ''txt''),
     (''text/html'', ''html''),
     (''text/css'', ''css''),
     (''text/csv'', ''csv''),
     (''text/markdown'', ''md''),
     (''text/event-stream'', ''sse'')]"

definition MIME_TYPE_APPLICATION_MAP :: "(string \<times> string) list" where
  "MIME_TYPE_APPLICATION_MAP = [
     (''application/javascript'', ''js''),
     (''application/json'', ''json''),
     (''application/xml'', ''xml''),
     (''application/x-www-form-urlencoded'', ''kv''),
     (''application/octet-stream'', ''bin''),
     (''application/zip'', ''zip''),
     (''application/gzip'', ''gzip''),
     (''application/x-7z-compressed'', ''7z''),
     (''application/x-rar-compressed'', ''rar''),
     (''application/pdf'', ''pdf''),
     (''application/rtf'', ''rtf''),
     (''application/grpc'', ''grpc''),
     (''application/wasm'', ''wasm''),
     (''application/java-archive'', ''jar''),
     (''application/xhtml+xml'', ''xhtml''),
     (''application/atom+xml'', ''atom''),
     (''application/rss+xml'', ''rss''),
     (''application/msword'', ''doc''),
     (''application/vnd.ms-excel'', ''xls''),
     (''application/vnd.ms-powerpoint'', ''ppt''),
     (''application/vnd.ms-fontobject'', ''eot''),
     (''application/vnd.apple.mpegurl'', ''m3u8''),
     (''application/vnd.openxmlformats-officedocument.wordprocessingml.document'', ''docx''),
     (''application/vnd.openxmlformats-officedocument.spreadsheetml.sheet'', ''xlsx''),
     (''application/vnd.openxmlformats-officedocument.presentationml.presentation'', ''pptx'')]"

definition MIME_TYPE_MULTIPART_MAP :: "(string \<times> string) list" where
  "MIME_TYPE_MULTIPART_MAP = [
     (''multipart/form-data'', ''mp'')]"

definition MIME_TYPE_IMAGE_MAP :: "(string \<times> string) list" where
  "MIME_TYPE_IMAGE_MAP = [
     (''image/jpeg'', ''jpg''),
     (''image/png'', ''png''),
     (''image/gif'', ''gif''),
     (''image/x-icon'', ''ico''),
     (''image/x-ms-bmp'', ''bmp''),
     (''image/svg+xml'', ''svg''),
     (''image/tiff'', ''tiff''),
     (''image/webp'', ''webp'')]"

definition MIME_TYPE_VIDEO_MAP :: "(string \<times> string) list" where
  "MIME_TYPE_VIDEO_MAP = [
     (''video/mp4'', ''mp4''),
     (''video/x-flv'', ''flv''),
     (''video/x-m4v'', ''m4v''),
     (''video/x-mng'', ''mng''),
     (''video/mp2t'', ''ts''),
     (''video/mpeg'', ''mpeg''),
     (''video/webm'', ''webm''),
     (''video/quicktime'', ''mov''),
     (''video/3gpp'', ''3gpp''),
     (''video/x-msvideo'', ''avi''),
     (''video/x-ms-wmv'', ''wmv''),
     (''video/x-ms-asf'', ''asf'')]"

definition MIME_TYPE_AUDIO_MAP :: "(string \<times> string) list" where
  "MIME_TYPE_AUDIO_MAP = [
     (''audio/mpeg'', ''mp3''),
     (''audio/ogg'', ''ogg''),
     (''audio/x-m4a'', ''m4a''),
     (''audio/aac'', ''aac''),
     (''audio/PCMA'', ''pcma''),
     (''audio/opus'', ''opus'')]"

definition MIME_TYPE_FONT_MAP :: "(string \<times> string) list" where
  "MIME_TYPE_FONT_MAP = [
     (''font/ttf'', ''ttf''),
     (''font/otf'', ''otf''),
     (''font/woff'', ''woff''),
     (''font/woff2'', ''woff2'')]"

definition number_from :: "nat \<Rightarrow> (string \<times> string) list \<Rightarrow> (nat \<times> string \<times> string) list" where
  "number_from base entries = zip [base + 1..<base + 1 + length entries] entries"

text \<open>\<open>HTTP_CONTENT_TYPE_MAP\<close> with the enumerators of \<open>http_content_type\<close>: the first of a group follows
  \<open>CONTENT_TYPE_TEXT = 100\<close> and so on.\<close>

definition content_type_map :: "(nat \<times> string \<times> string) list" where
  "content_type_map =
     number_from 100 MIME_TYPE_TEXT_MAP @
     number_from 200 MIME_TYPE_APPLICATION_MAP @
     number_from 300 MIME_TYPE_MULTIPART_MAP @
     number_from 400 MIME_TYPE_IMAGE_MAP @
     number_from 500 MIME_TYPE_VIDEO_MAP @
     number_from 600 MIME_TYPE_AUDIO_MAP @
     number_from 700 MIME_TYPE_FONT_MAP"

definition CONTENT_TYPE_NONE :: nat where "CONTENT_TYPE_NONE = 0"
definition CONTENT_TYPE_UNDEFINED :: nat where "CONTENT_TYPE_UNDEFINED = 1000"

subsection \<open>From enumerators to strings\<close>

definition unknown_str :: string where "unknown_str = ''<unknown>''"

definition http_status_str :: "nat \<Rightarrow> string" where
  "http_status_str status = (case map_of status_map status of Some s \<Rightarrow> s | None \<Rightarrow> unknown_str)"

definition http_method_str :: "http_method \<Rightarrow> string" where
  "http_method_str m = (case method_strings m of Some s \<Rightarrow> s | None \<Rightarrow> unknown_str)"

definition http_content_type_str :: "nat \<Rightarrow> string" where
  "http_content_type_str t = (case map_of content_type_map t of Some (s, x) \<Rightarrow> s | None \<Rightarrow> unknown_str)"

definition http_content_type_suffix :: "nat \<Rightarrow> string" where
  "http_content_type_suffix t = (case map_of content_type_map t of Some (s, x) \<Rightarrow> x | None \<Rightarrow> unknown_str)"

subsection \<open>From strings to enumerators\<close>

text \<open>The loop of \<open>strstartswith\<close>; the end of a list is the terminator of the C string.\<close>

fun strstartswith :: "string \<Rightarrow> string \<Rightarrow> bool" where
  "strstartswith (c # str) (d # start) = (if c = d then strstartswith str start else False)"
| "strstartswith str start = (start = [])"

definition http_status_enum :: "string \<Rightarrow> nat" where
  "http_status_enum str = (case List.find (\<lambda>(n, s). str = s) status_map of Some (n, s) \<Rightarrow> n | None \<Rightarrow> HTTP_CUSTOM_STATUS)"

definition method_list :: "http_method list" where
  "method_list = [HTTP_DELETE, HTTP_GET, HTTP_HEAD, HTTP_POST, HTTP_PUT, HTTP_CONNECT, HTTP_OPTIONS, HTTP_TRACE,
     HTTP_COPY, HTTP_LOCK, HTTP_MKCOL, HTTP_MOVE, HTTP_PROPFIND, HTTP_PROPPATCH, HTTP_SEARCH, HTTP_UNLOCK,
     HTTP_BIND, HTTP_REBIND, HTTP_UNBIND, HTTP_ACL, HTTP_REPORT, HTTP_MKACTIVITY, HTTP_CHECKOUT, HTTP_MERGE,
     HTTP_MSEARCH, HTTP_NOTIFY, HTTP_SUBSCRIBE, HTTP_UNSUBSCRIBE, HTTP_PATCH, HTTP_PURGE, HTTP_MKCALENDAR,
     HTTP_LINK, HTTP_UNLINK, HTTP_SOURCE]"

definition http_method_enum :: "string \<Rightarrow> http_method" where
  "http_method_enum str = (case List.find (\<lambda>m. method_strings m = Some str) method_list of
     Some m \<Rightarrow> m | None \<Rightarrow> HTTP_CUSTOM_METHOD)"

text \<open>The functions that take a content type string also take a null pointer.\<close>

definition http_content_type_enum :: "string option \<Rightarrow> nat" where
  "http_content_type_enum str = (case str of None \<Rightarrow> CONTENT_TYPE_NONE | Some str \<Rightarrow>
     if str = [] then CONTENT_TYPE_NONE
     else case List.find (\<lambda>(t, s, x). strstartswith str s) content_type_map of
       Some (t, s, x) \<Rightarrow> t | None \<Rightarrow> CONTENT_TYPE_UNDEFINED)"

definition http_content_type_str_by_suffix :: "string option \<Rightarrow> string" where
  "http_content_type_str_by_suffix str = (case str of None \<Rightarrow> [] | Some str \<Rightarrow>
     if str = [] then []
     else case List.find (\<lambda>(t, s, x). str = x) content_type_map of Some (t, s, x) \<Rightarrow> s | None \<Rightarrow> [])"

definition http_content_type_enum_by_suffix :: "string option \<Rightarrow> nat" where
  "http_content_type_enum_by_suffix str = (case str of None \<Rightarrow> CONTENT_TYPE_NONE | Some str \<Rightarrow>
     if str = [] then CONTENT_TYPE_NONE
     else case List.find (\<lambda>(t, s, x). str = x) content_type_map of
       Some (t, s, x) \<Rightarrow> t | None \<Rightarrow> CONTENT_TYPE_UNDEFINED)"

subsection \<open>Properties\<close>

text \<open>The entries of a list that an earlier one hides or shares a beginning with.\<close>

fun comparable :: "string \<Rightarrow> string \<Rightarrow> bool" where
  "comparable (c # str) (d # start) = (if c = d then comparable str start else False)"
| "comparable str start = True"

lemma comparable_prefix: "comparable s s' = (prefix s s' \<or> prefix s' s)"
  by (induction s s' rule: comparable.induct) auto

fun hidden :: "('n \<times> string \<times> 'x) list \<Rightarrow> ('n \<times> string \<times> 'x) list" where
  "hidden [] = []"
| "hidden ((t, s, x) # es) =
     filter (\<lambda>(t', s', x'). comparable s s') es @ hidden es"

lemma strstartswith_prefix: "strstartswith str start = prefix start str"
  by (induction str start rule: strstartswith.induct) auto

lemma find_first:
  assumes "(t, s, x) \<in> set es" "(t, s, x) \<notin> set (hidden es)"
  shows "List.find (\<lambda>(t, s', x). strstartswith (s @ rest) s') es = Some (t, s, x)"
  using assms
proof (induction es)
  case (Cons e es)
  obtain t' s' x' where e: "e = (t', s', x')" by (cases e)
  show ?case
  proof (cases "(t, s, x) \<in> set es")
    case True
    then have "\<not> prefix s s'" "\<not> prefix s' s"
      using Cons.prems(2) by (auto simp: e comparable_prefix)
    then have "\<not> strstartswith (s @ rest) s'"
      by (auto simp: strstartswith_prefix prefix_append)
    then show ?thesis using Cons.IH True Cons.prems(2) by (simp add: e)
  next
    case False
    then show ?thesis using Cons.prems(1) by (simp add: e strstartswith_prefix)
  qed
qed simp

lemmas content_type_map_entries = content_type_map_def number_from_def upt_rec_numeral MIME_TYPE_TEXT_MAP_def
  MIME_TYPE_APPLICATION_MAP_def MIME_TYPE_MULTIPART_MAP_def MIME_TYPE_IMAGE_MAP_def
  MIME_TYPE_VIDEO_MAP_def MIME_TYPE_AUDIO_MAP_def MIME_TYPE_FONT_MAP_def

lemma hidden_content_type: "hidden content_type_map = [(704, ''font/woff2'', ''woff2'')]"
  by code_simp

lemma content_type_nonempty: "filter (\<lambda>(t, s, x). s = []) content_type_map = []"
  by code_simp

lemma http_content_type_enum_prefix:
  assumes "(t, s, x) \<in> set content_type_map" "(t, s, x) \<notin> set (hidden content_type_map)"
  shows "http_content_type_enum (Some (s @ rest)) = t"
proof -
  have "s \<noteq> []"
    using assms(1) content_type_nonempty by (auto simp: filter_empty_conv)
  then show ?thesis
    using find_first [OF assms, of rest] by (simp add: http_content_type_enum_def)
qed

text \<open>C20: A content type of the table is recognised whatever follows it, so with any parameters
  (\<open>; charset=utf-8\<close>), except for \<open>font/woff2\<close>: the entry \<open>font/woff\<close> stands before it in the
  table and is a beginning of it.\<close>

theorem http_content_type_enum_exact:
  assumes "(t, s, x) \<in> set content_type_map" "t \<noteq> 704"
  shows "http_content_type_enum (Some (s @ rest)) = t"
  by (rule http_content_type_enum_prefix [OF assms(1)]) (use assms(2) in \<open>simp add: hidden_content_type\<close>)

theorem http_content_type_enum_exact_witness:
  "http_content_type_enum (Some (''text/html'' @ ''; charset=utf-8'')) = 102"
  by (rule http_content_type_enum_exact [of _ _ "''html''"])
    (simp_all add: content_type_map_def number_from_def MIME_TYPE_TEXT_MAP_def upt_rec_numeral)

text \<open>The tables have no number and no string twice; the lookups then find the entry they are asked for.\<close>

lemma distinct_status: "distinct (map fst status_map)" "distinct (map snd status_map)"
  by (simp_all add: status_map_def)

lemma distinct_content_type:
  "distinct (map fst content_type_map)"
  "distinct (map (\<lambda>(t, s, x). s) content_type_map)"
  "distinct (map (\<lambda>(t, s, x). x) content_type_map)"
  by (simp_all add: content_type_map_entries)

lemma find_key:
  "distinct (map f es) \<Longrightarrow> e \<in> set es \<Longrightarrow> List.find (\<lambda>e'. f e = f e') es = Some e"
  by (induction es) (auto simp: image_iff)

lemma status_lookup:
  assumes "(n, s) \<in> set status_map"
  shows "http_status_str n = s" "http_status_enum s = n"
proof -
  show "http_status_str n = s"
    using assms map_of_is_SomeI [OF distinct_status(1) assms] by (simp add: http_status_str_def)
  show "http_status_enum s = n"
    using find_key [OF distinct_status(2) assms] by (simp add: http_status_enum_def case_prod_unfold)
qed

lemma content_type_nonempty_suffix: "list_all (\<lambda>(t, s, x). s \<noteq> [] \<and> x \<noteq> []) content_type_map"
  by code_simp

lemma content_type_lookup:
  assumes "(t, s, x) \<in> set content_type_map"
  shows "http_content_type_str t = s" "http_content_type_suffix t = x"
    "http_content_type_enum_by_suffix (Some x) = t" "http_content_type_str_by_suffix (Some x) = s"
proof -
  have t: "map_of content_type_map t = Some (s, x)"
    by (rule map_of_is_SomeI [OF distinct_content_type(1) assms])
  have x: "List.find (\<lambda>(t, s', x'). x = x') content_type_map = Some (t, s, x)"
    using find_key [OF distinct_content_type(3) assms] by (simp add: case_prod_unfold)
  have "x \<noteq> []"
    using assms content_type_nonempty_suffix by (auto simp: list_all_iff)
  with t x show "http_content_type_str t = s" "http_content_type_suffix t = x"
    "http_content_type_enum_by_suffix (Some x) = t" "http_content_type_str_by_suffix (Some x) = s"
    by (simp_all add: http_content_type_str_def http_content_type_suffix_def
        http_content_type_enum_by_suffix_def http_content_type_str_by_suffix_def)
qed

text \<open>The tables read back: the string of every status and the suffix of every content type lead back to the
  enumerator, and so does the method name; a status string that is not in the table gives 512, which is no status of it;
  \<open>font/woff2\<close> reads as \<open>font/woff\<close>.\<close>

theorem http_def_roundtrip:
  "map (\<lambda>(n, s). http_status_enum (http_status_str n)) status_map = map fst status_map \<and>
   map (\<lambda>m. http_method_enum (http_method_str m)) method_list = method_list \<and>
   map (\<lambda>(t, s, x). http_content_type_enum_by_suffix (Some (http_content_type_suffix t))) content_type_map =
     map fst content_type_map \<and>
   map (\<lambda>(t, s, x). http_content_type_str_by_suffix (Some (http_content_type_suffix t))) content_type_map =
     map (\<lambda>(t, s, x). http_content_type_str t) content_type_map \<and>
   http_content_type_enum (Some (http_content_type_str 704)) = 703 \<and>
   http_status_str HTTP_CUSTOM_STATUS = unknown_str \<and> http_status_enum unknown_str = HTTP_CUSTOM_STATUS"
proof (intro conjI)
  show "map (\<lambda>m. http_method_enum (http_method_str m)) method_list = method_list"
    by code_simp
  have w: "(704, ''font/woff2'', ''woff2'') \<in> set content_type_map"
    and v: "(703, ''font/woff'', ''woff'') \<in> set content_type_map"
    by (simp_all add: content_type_map_def number_from_def MIME_TYPE_FONT_MAP_def upt_rec_numeral)
  have "http_content_type_enum (Some (''font/woff'' @ ''2'')) = 703"
    using http_content_type_enum_prefix [OF v] by (simp add: hidden_content_type)
  then show "http_content_type_enum (Some (http_content_type_str 704)) = 703"
    by (simp add: content_type_lookup(1) [OF w])
  show "http_status_str HTTP_CUSTOM_STATUS = unknown_str" "http_status_enum unknown_str = HTTP_CUSTOM_STATUS"
    by (simp_all add: http_status_str_def http_status_enum_def HTTP_CUSTOM_STATUS_def status_map_def unknown_str_def)
qed (auto simp: status_lookup content_type_lookup)

end
