(* ===== verification/HTTP_Message.thy ===== *)
theory HTTP_Message imports HUrl HTTP_Def begin

text \<open>
  Messages and cookies, \<^verbatim>\<open>lib/libhv/http/HttpMessage.h\<close> and \<^verbatim>\<open>HttpMessage.cpp\<close>: parsing and printing
  a cookie, the headers and bodies that are filled in, and the text of a request or response. JSON is a
  type parameter with the functions \<open>content_lib\<close> (its code is a vendored library); reading a file for
  a form is one of them.
\<close>

subsection \<open>Numbers in strings\<close>

definition isspace :: "byte \<Rightarrow> bool" where
  "isspace c \<longleftrightarrow> c = 32 \<or> (9 \<le> c \<and> c \<le> 13)"

fun digits_value :: "int \<Rightarrow> byte list \<Rightarrow> int" where
  "digits_value v [] = v"
| "digits_value v (c # s) = (if IS_NUM c then digits_value (v * 10 + (uint c - 48)) s else v)"

text \<open>\<open>strtoll\<close> in base ten, which stops at the ends of its range; \<open>atoi\<close> keeps the low 32 bits of it.\<close>

definition atoll :: "byte list \<Rightarrow> int" where
  "atoll str =
     (let s = dropWhile isspace (c_str str);
          v = (case s of c # t \<Rightarrow> if c = chr_minus then - digits_value 0 t
                 else if c = chr_plus then digits_value 0 t else digits_value 0 s
               | [] \<Rightarrow> 0)
      in max (- (2 ^ 63)) (min (2 ^ 63 - 1) v))"

definition atoi :: "byte list \<Rightarrow> int" where
  "atoi str = sint (word_of_int (atoll str) :: u32)"

fun decimal :: "nat \<Rightarrow> byte list" where
  "decimal n = (if n < 10 then [chr_0 + of_nat n] else decimal (n div 10) @ [chr_0 + of_nat (n mod 10)])"

declare decimal.simps [simp del]

definition decimal_int :: "int \<Rightarrow> byte list" where
  "decimal_int i = (if i < 0 then chr_minus # decimal (nat (- i)) else decimal (nat i))"

subsection \<open>Cookies\<close>

datatype SameSite = SS_Default | SS_Strict | SS_Lax | SS_None
datatype Priority = PR_NotSet | PR_Low | PR_Medium | PR_High

record HttpCookie =
  ck_name :: "byte list"
  ck_value :: "byte list"
  ck_domain :: "byte list"
  ck_path :: "byte list"
  ck_expires :: "byte list"
  ck_max_age :: int
  ck_secure :: bool
  ck_httponly :: bool
  ck_samesite :: SameSite
  ck_priority :: Priority
  ck_kv :: "byte list strmap"

definition cookie_reset :: HttpCookie where
  "cookie_reset = \<lparr>ck_name = [], ck_value = [], ck_domain = [], ck_path = [], ck_expires = [], ck_max_age = 0,
     ck_secure = False, ck_httponly = False, ck_samesite = SS_Default, ck_priority = PR_NotSet, ck_kv = []\<rparr>"

text \<open>The lines that \<open>std::getline\<close> with a delimiter yields: no empty one after a last delimiter.\<close>

function getlines :: "byte \<Rightarrow> byte list \<Rightarrow> byte list list" where
  "getlines delim [] = []"
| "getlines delim (c # s) = takeWhile (\<lambda>d. d \<noteq> delim) (c # s)
     # getlines delim (drop 1 (dropWhile (\<lambda>d. d \<noteq> delim) (c # s)))"
  by pat_completeness auto
termination
proof (relation "measure (length \<circ> snd)")
  fix delim c :: byte and s
  have "length (dropWhile (\<lambda>d. d \<noteq> delim) (c # s)) \<le> length (c # s)" by (rule length_dropWhile_le)
  then show "((delim, drop 1 (dropWhile (\<lambda>d. d \<noteq> delim) (c # s))), delim, c # s) \<in> measure (length \<circ> snd)"
    by (auto simp: less_Suc_eq_le simp del: dropWhile.simps)
qed simp

definition parse_samesite :: "byte list \<Rightarrow> SameSite" where
  "parse_samesite val = (if stricmp val (ascii ''Strict'') = 0 then SS_Strict
     else if stricmp val (ascii ''Lax'') = 0 then SS_Lax
     else if stricmp val (ascii ''None'') = 0 then SS_None else SS_Default)"

definition parse_priority :: "byte list \<Rightarrow> Priority" where
  "parse_priority val = (if stricmp val (ascii ''Low'') = 0 then PR_Low
     else if stricmp val (ascii ''Medium'') = 0 then PR_Medium
     else if stricmp val (ascii ''High'') = 0 then PR_High else PR_NotSet)"

definition cookie_pair :: "byte list \<Rightarrow> byte list \<Rightarrow> HttpCookie \<Rightarrow> HttpCookie" where
  "cookie_pair key val ck =
     (if stricmp key (ascii ''Domain'') = 0 then ck\<lparr>ck_domain := val\<rparr>
      else if stricmp key (ascii ''Path'') = 0 then ck\<lparr>ck_path := val\<rparr>
      else if stricmp key (ascii ''Expires'') = 0 then ck\<lparr>ck_expires := val\<rparr>
      else if stricmp key (ascii ''Max-Age'') = 0 then ck\<lparr>ck_max_age := atoi val\<rparr>
      else if stricmp key (ascii ''SameSite'') = 0 then ck\<lparr>ck_samesite := parse_samesite val\<rparr>
      else if stricmp key (ascii ''Priority'') = 0 then ck\<lparr>ck_priority := parse_priority val\<rparr>
      else
        let ck = (if ck_name ck = [] then ck\<lparr>ck_name := key, ck_value := val\<rparr> else ck)
        in ck\<lparr>ck_kv := map_set string_less key val (ck_kv ck)\<rparr>)"

definition cookie_flag :: "byte list \<Rightarrow> HttpCookie \<Rightarrow> HttpCookie" where
  "cookie_flag key ck =
     (if stricmp key (ascii ''Secure'') = 0 then ck\<lparr>ck_secure := True\<rparr>
      else if stricmp key (ascii ''HttpOnly'') = 0 then ck\<lparr>ck_httponly := True\<rparr>
      else ck)"

definition cookie_line :: "byte list \<Rightarrow> HttpCookie \<Rightarrow> HttpCookie" where
  "cookie_line line ck = (case find_from line [chr_equals] 0 of
     Some pos \<Rightarrow> cookie_pair (trim (take pos line) SPACE_CHARS) (trim (drop (pos + 1) line) SPACE_CHARS) ck
   | None \<Rightarrow> cookie_flag (trim line SPACE_CHARS) ck)"

definition cookie_parse :: "byte list \<Rightarrow> bool \<times> HttpCookie" where
  "cookie_parse str = (let ck = fold cookie_line (getlines chr_semicolon str) cookie_reset in (ck_name ck \<noteq> [], ck))"

definition samesite_str :: "SameSite \<Rightarrow> byte list" where
  "samesite_str s = (if s = SS_Strict then ascii ''Strict'' else if s = SS_Lax then ascii ''Lax'' else ascii ''None'')"

definition priority_str :: "Priority \<Rightarrow> byte list" where
  "priority_str p = (if p = PR_Low then ascii ''Low'' else if p = PR_Medium then ascii ''Medium'' else ascii ''High'')"

text \<open>\<open>None\<close> is the failed assertion.\<close>

definition cookie_dump :: "HttpCookie \<Rightarrow> byte list option" where
  "cookie_dump ck =
     (if ck_name ck = [] \<and> ck_kv ck = [] then None
      else
        let res = (if ck_name ck \<noteq> [] then ck_name ck @ [chr_equals] @ ck_value ck else []);
            res = fold (\<lambda>(k, v) res. if k = ck_name ck then res
                    else (if res \<noteq> [] then res @ ascii ''; '' else res) @ k @ [chr_equals] @ v) (ck_kv ck) res;
            res = (if ck_domain ck \<noteq> [] then res @ ascii ''; Domain='' @ ck_domain ck else res);
            res = (if ck_path ck \<noteq> [] then res @ ascii ''; Path='' @ ck_path ck else res);
            res = (if ck_max_age ck > 0 then res @ ascii ''; Max-Age='' @ decimal_int (ck_max_age ck)
                   else if ck_expires ck \<noteq> [] then res @ ascii ''; Expires='' @ ck_expires ck else res);
            res = (if ck_samesite ck \<noteq> SS_Default then res @ ascii ''; SameSite='' @ samesite_str (ck_samesite ck) else res);
            res = (if ck_priority ck \<noteq> PR_NotSet then res @ ascii ''; Priority='' @ priority_str (ck_priority ck) else res);
            res = (if ck_secure ck then res @ ascii ''; Secure'' else res);
            res = (if ck_httponly ck then res @ ascii ''; HttpOnly'' else res)
        in Some res)"

subsection \<open>Messages\<close>

record FormData =
  fd_filename :: "byte list"
  fd_content :: "byte list"

text \<open>The fields of \<open>HttpMessage\<close> and of its two subclasses, of which \<open>type\<close> tells one; \<open>content\<close> is the
  data the pointer of that name points at. \<open>http_cb\<close> is an argument of the functions that call it.\<close>

record 'j http_message =
  msg_type :: http_parser_type
  msg_http_major :: "16 word"
  msg_http_minor :: "16 word"
  msg_headers :: "byte list strmap"
  msg_cookies :: "HttpCookie list"
  msg_body :: "byte list"
  msg_content :: "byte list option"
  msg_content_length :: u64
  msg_content_type :: nat
  msg_json :: 'j
  msg_form :: "FormData strmap"
  msg_kv :: "byte list strmap"
  req_method :: http_method
  req_url :: "byte list"
  req_scheme :: "byte list"
  req_host :: "byte list"
  req_port :: int
  req_path :: "byte list"
  req_query_params :: "byte list strmap"
  req_redirect :: bool
  req_proxy :: bool
  res_status_code :: nat

record 'j content_lib =
  cl_json_empty :: 'j
  cl_json_size :: "'j \<Rightarrow> nat"
  cl_dump_json :: "'j \<Rightarrow> byte list"
  cl_read_file :: "byte list \<Rightarrow> byte list option"

definition message_Init :: "'j http_message \<Rightarrow> 'j http_message" where
  "message_Init m = m\<lparr>msg_http_major := 1, msg_http_minor := 1, msg_content := None, msg_content_length := 0,
     msg_content_type := CONTENT_TYPE_NONE\<rparr>"

definition message_Reset :: "'j content_lib \<Rightarrow> 'j http_message \<Rightarrow> 'j http_message" where
  "message_Reset lib m = (message_Init m)\<lparr>msg_headers := [], msg_cookies := [], msg_body := [],
     msg_json := cl_json_empty lib, msg_form := [], msg_kv := []\<rparr>"

abbreviation find_header :: "byte list \<Rightarrow> 'j http_message \<Rightarrow> byte list option" where
  "find_header key m \<equiv> map_find StringCaseLess key (msg_headers m)"

definition SetHeader :: "byte list \<Rightarrow> byte list \<Rightarrow> 'j http_message \<Rightarrow> 'j http_message" where
  "SetHeader key v m = m\<lparr>msg_headers := map_set StringCaseLess key v (msg_headers m)\<rparr>"

definition GetHeader :: "byte list \<Rightarrow> 'j http_message \<Rightarrow> byte list" where
  "GetHeader key m = (case find_header key m of None \<Rightarrow> [] | Some v \<Rightarrow> v)"

definition DEFAULT_HTTP_USER_AGENT :: "byte list" where
  "DEFAULT_HTTP_USER_AGENT = ascii ''Mozilla/5.0 (Windows NT 10.0; WOW64) AppleWebKit/537.36 (KHTML, like Gecko) Chrome/63.0.3239.132 Safari/537.36''"

definition request_Init :: "'j http_message \<Rightarrow> 'j http_message" where
  "request_Init m =
     (let m = SetHeader (ascii ''User-Agent'') DEFAULT_HTTP_USER_AGENT m;
          m = SetHeader (ascii ''Accept'') (ascii ''*/*'') m
      in m\<lparr>req_method := HTTP_GET, req_scheme := ascii ''http'', req_host := ascii ''127.0.0.1'', req_port := 80,
           req_path := [chr_slash], req_redirect := True, req_proxy := False\<rparr>)"

definition blank_message :: "'j content_lib \<Rightarrow> http_parser_type \<Rightarrow> 'j http_message" where
  "blank_message lib t = message_Init \<lparr>msg_type = t, msg_http_major = 0, msg_http_minor = 0, msg_headers = [], msg_cookies = [],
     msg_body = [], msg_content = None, msg_content_length = 0, msg_content_type = 0, msg_json = cl_json_empty lib,
     msg_form = [], msg_kv = [], req_method = HTTP_DELETE, req_url = [], req_scheme = [], req_host = [], req_port = 0,
     req_path = [], req_query_params = [], req_redirect = False, req_proxy = False, res_status_code = 0\<rparr>"

definition HttpRequest_new :: "'j content_lib \<Rightarrow> 'j http_message" where
  "HttpRequest_new lib = request_Init (blank_message lib HTTP_REQUEST)"

definition request_Reset :: "'j content_lib \<Rightarrow> 'j http_message \<Rightarrow> 'j http_message" where
  "request_Reset lib m = (request_Init (message_Reset lib m))\<lparr>req_url := [], req_query_params := []\<rparr>"

definition HttpResponse_new :: "'j content_lib \<Rightarrow> 'j http_message" where
  "HttpResponse_new lib = (blank_message lib HTTP_RESPONSE)\<lparr>res_status_code := 200\<rparr>"

definition response_Reset :: "'j content_lib \<Rightarrow> 'j http_message \<Rightarrow> 'j http_message" where
  "response_Reset lib m = (message_Reset lib m)\<lparr>res_status_code := 200\<rparr>"

definition IsChunked :: "'j http_message \<Rightarrow> bool" where
  "IsChunked m = (case find_header (ascii ''Transfer-Encoding'') m of None \<Rightarrow> False
     | Some v \<Rightarrow> stricmp v (ascii ''chunked'') = 0)"

definition IsKeepAlive :: "'j http_message \<Rightarrow> bool" where
  "IsKeepAlive m = (case find_header (ascii ''connection'') m of
     Some v \<Rightarrow> if stricmp v (ascii ''keep-alive'') = 0 then True
       else if stricmp v (ascii ''close'') = 0 then False
       else if stricmp v (ascii ''upgrade'') = 0 then True else True
   | None \<Rightarrow> \<not> (msg_http_major m = 1 \<and> msg_http_minor m = 0))"

end
