(* ===== verification/HTTP_Dump.thy ===== *)
theory HTTP_Dump imports HTTP_Message begin

text \<open>
  The text of a message, \<^verbatim>\<open>lib/libhv/http/HttpMessage.cpp\<close> and \<open>dump_multipart\<close> of
  \<^verbatim>\<open>http_content.cpp\<close>: filling in the content headers, building the body, the URL of a request, and
  the \<open>Dump\<close> functions. \<open>None\<close> is a read outside of a buffer or a failed assertion.
\<close>

subsection \<open>Content headers and body\<close>

definition DEFAULT_MULTIPART_BOUNDARY :: "byte list" where
  "DEFAULT_MULTIPART_BOUNDARY = ascii ''----WebKitFormBoundary7MA4YWxkTrZu0gW''"

definition APPLICATION_JSON :: nat where "APPLICATION_JSON = 202"
definition X_WWW_FORM_URLENCODED :: nat where "X_WWW_FORM_URLENCODED = 204"
definition MULTIPART_FORM_DATA :: nat where "MULTIPART_FORM_DATA = 301"
definition TEXT_PLAIN :: nat where "TEXT_PLAIN = 101"
definition TEXT_EVENT_STREAM :: nat where "TEXT_EVENT_STREAM = 106"

text \<open>The code after the label \<open>append\<close>.\<close>

definition append_boundary :: "'j http_message \<Rightarrow> 'j http_message" where
  "append_boundary m =
     (if msg_content_type m = MULTIPART_FORM_DATA then
        (case find_header (ascii ''Content-Type'') m of None \<Rightarrow> m
         | Some v \<Rightarrow> (case find_from (c_str v) (ascii ''boundary='') 0 of
             Some i \<Rightarrow> m
           | None \<Rightarrow> SetHeader (ascii ''Content-Type'') (v @ ascii ''; boundary='' @ DEFAULT_MULTIPART_BOUNDARY) m))
      else m)"

definition guess_content_type :: "'j content_lib \<Rightarrow> 'j http_message \<Rightarrow> nat" where
  "guess_content_type lib m =
     (if msg_content_type m = CONTENT_TYPE_NONE then
        (if cl_json_size lib (msg_json m) \<noteq> 0 then APPLICATION_JSON
         else if msg_form m \<noteq> [] then MULTIPART_FORM_DATA
         else if msg_kv m \<noteq> [] then X_WWW_FORM_URLENCODED
         else if msg_body m \<noteq> [] then TEXT_PLAIN
         else msg_content_type m)
      else msg_content_type m)"

definition FillContentType :: "'j content_lib \<Rightarrow> 'j http_message \<Rightarrow> 'j http_message" where
  "FillContentType lib m = (case find_header (ascii ''Content-Type'') m of
     Some v \<Rightarrow> append_boundary (m\<lparr>msg_content_type := http_content_type_enum (Some (to_chars (c_str v)))\<rparr>)
   | None \<Rightarrow>
       (let m = m\<lparr>msg_content_type := guess_content_type lib m\<rparr>;
            m = (if msg_content_type m \<noteq> CONTENT_TYPE_NONE
                 then SetHeader (ascii ''Content-Type'') (ascii (http_content_type_str (msg_content_type m))) m else m)
        in append_boundary m))"

text \<open>One part of \<open>dump_multipart\<close>; \<open>snprintf\<close> writes at most 255 characters into \<open>c_str\<close>. The content of a file
  replaces an empty one.\<close>

definition dump_part :: "'j content_lib \<Rightarrow> byte list \<Rightarrow> byte list \<times> FormData \<Rightarrow> byte list \<times> FormData" where
  "dump_part lib boundary p =
     (case p of (name, form) \<Rightarrow>
        let str = ascii ''--'' @ boundary @ [CR, LF] @ ascii ''Content-Disposition: form-data''
              @ take 255 (ascii ''; name='' @ [34] @ c_str name @ [34]);
            form = (if fd_filename form \<noteq> [] \<and> fd_content form = []
                    then (case cl_read_file lib (c_str (fd_filename form)) of
                            Some dat \<Rightarrow> form\<lparr>fd_content := dat\<rparr> | None \<Rightarrow> form) else form);
            str = (if fd_filename form \<noteq> [] then
                     str @ take 255 (ascii ''; filename='' @ [34] @ hv_basename (c_str (fd_filename form)) @ [34]) @
                     (case hv_strrchr_dot (c_str (fd_filename form)) of
                        Some i \<Rightarrow>
                          (let stype = ascii (http_content_type_str_by_suffix
                             (Some (to_chars (drop (i + 1) (c_str (fd_filename form))))))
                           in if stype \<noteq> [] then [CR, LF] @ ascii ''Content-Type: '' @ stype else [])
                      | None \<Rightarrow> [])
                   else str)
        in (str @ [CR, LF, CR, LF] @ fd_content form @ [CR, LF], form))"

definition dump_multipart :: "'j content_lib \<Rightarrow> FormData strmap \<Rightarrow> byte list \<Rightarrow> byte list \<times> FormData strmap" where
  "dump_multipart lib mp boundary =
     (concat (map (\<lambda>p. fst (dump_part lib boundary p)) mp) @ ascii ''--'' @ boundary @ ascii ''--'',
      map (\<lambda>p. (fst p, snd (dump_part lib boundary p))) mp)"

definition DumpBody_fill :: "'j content_lib \<Rightarrow> 'j http_message \<Rightarrow> 'j http_message" where
  "DumpBody_fill lib m =
     (if msg_body m \<noteq> [] then m
      else
        let m = FillContentType lib m in
        if msg_content_type m = APPLICATION_JSON then m\<lparr>msg_body := cl_dump_json lib (msg_json m)\<rparr>
        else if msg_content_type m = MULTIPART_FORM_DATA then
          (case find_header (ascii ''Content-Type'') m of None \<Rightarrow> m
           | Some v \<Rightarrow> (case find_from (c_str v) (ascii ''boundary='') 0 of None \<Rightarrow> m
             | Some i \<Rightarrow> (case dump_multipart lib (msg_form m) (drop (i + 9) (c_str v)) of
                 (str, form) \<Rightarrow> m\<lparr>msg_body := str, msg_form := form\<rparr>)))
        else if msg_content_type m = X_WWW_FORM_URLENCODED then m\<lparr>msg_body := dump_query_params (msg_kv m)\<rparr>
        else m)"

text \<open>\<open>iter\<close> is looked up once, before \<open>DumpBody\<close>.\<close>

definition FillContentLength :: "'j content_lib \<Rightarrow> 'j http_message \<Rightarrow> 'j http_message" where
  "FillContentLength lib m =
     (let iter = find_header (ascii ''Content-Length'') m;
          m = (case iter of Some v \<Rightarrow> m\<lparr>msg_content_length := word_of_int (atoll v)\<rparr> | None \<Rightarrow> m);
          m = (if msg_content_length m = 0
               then (let m = DumpBody_fill lib m in m\<lparr>msg_content_length := of_nat (length (msg_body m))\<rparr>) else m)
      in if iter = None \<and> \<not> IsChunked m \<and> msg_content_type m \<noteq> TEXT_EVENT_STREAM
            \<and> (msg_content_length m \<noteq> 0 \<or> msg_type m = HTTP_RESPONSE)
         then SetHeader (ascii ''Content-Length'') (decimal (unat (msg_content_length m))) m else m)"

text \<open>The test for a leading colon looks at the string that is being built, not at the name of the header.\<close>

definition dump_header :: "byte list \<times> byte list \<Rightarrow> byte list \<Rightarrow> byte list" where
  "dump_header h str = (if str = [] \<or> hd str \<noteq> chr_colon
     then str @ fst h @ ascii '': '' @ snd h @ [CR, LF] else str)"

fun dump_cookies :: "byte list \<Rightarrow> HttpCookie list \<Rightarrow> byte list \<Rightarrow> byte list option" where
  "dump_cookies field [] str = Some str"
| "dump_cookies field (ck # cks) str = Option.bind (cookie_dump ck) (\<lambda>s.
     dump_cookies field cks (str @ field @ ascii '': '' @ s @ [CR, LF]))"

definition DumpHeaders :: "'j content_lib \<Rightarrow> byte list \<Rightarrow> 'j http_message \<Rightarrow> (byte list \<times> 'j http_message) option" where
  "DumpHeaders lib str m =
     (let m = FillContentLength lib (FillContentType lib m);
          str = fold dump_header (msg_headers m) str;
          field = (if msg_type m = HTTP_RESPONSE then ascii ''Set-Cookie'' else ascii ''Cookie'')
      in map_option (\<lambda>str. (str, m)) (dump_cookies field (msg_cookies m) str))"

text \<open>\<open>Content()\<close> points at the body unless there is content already; \<open>content_length\<close> bytes are taken from there,
  whatever their number. The terminator of the string can still be read.\<close>

definition Content :: "'j http_message \<Rightarrow> 'j http_message" where
  "Content m = (if msg_content m = None \<and> msg_body m \<noteq> [] then m\<lparr>msg_content := Some (msg_body m)\<rparr> else m)"

definition ContentLength :: "'j content_lib \<Rightarrow> 'j http_message \<Rightarrow> 'j http_message" where
  "ContentLength lib m = (if msg_content_length m = 0 then FillContentLength lib m else m)"

definition DumpBody :: "'j content_lib \<Rightarrow> byte list \<Rightarrow> 'j http_message \<Rightarrow> (byte list \<times> 'j http_message) option" where
  "DumpBody lib str m =
     (let m = ContentLength lib (Content (DumpBody_fill lib m)) in
      case msg_content m of None \<Rightarrow> Some (str, m)
      | Some dat \<Rightarrow>
          if msg_content_length m \<noteq> 0
          then map_option (\<lambda>s. (str @ s, m)) (read_range (dat @ [0]) 0 (unat (msg_content_length m)))
          else Some (str, m))"

definition dump_rest :: "'j content_lib \<Rightarrow> bool \<Rightarrow> bool \<Rightarrow> byte list \<Rightarrow> 'j http_message \<Rightarrow>
    (byte list \<times> 'j http_message) option" where
  "dump_rest lib is_dump_headers is_dump_body str m =
     Option.bind (if is_dump_headers then DumpHeaders lib str m else Some (str, m)) (\<lambda>(str, m).
       let str = str @ [CR, LF] in if is_dump_body then DumpBody lib str m else Some (str, m))"

definition message_Dump :: "'j content_lib \<Rightarrow> bool \<Rightarrow> bool \<Rightarrow> 'j http_message \<Rightarrow> (byte list \<times> 'j http_message) option" where
  "message_Dump lib is_dump_headers is_dump_body m = dump_rest lib is_dump_headers is_dump_body [] m"

subsection \<open>The URL of a request\<close>

definition default_port :: "int \<Rightarrow> bool" where
  "default_port port \<longleftrightarrow> port = 0 \<or> port = 80 \<or> port = 443"

definition Host :: "'j http_message \<Rightarrow> byte list" where
  "Host m = (case find_header (ascii ''Host'') m of None \<Rightarrow> req_host m | Some v \<Rightarrow> v)"

definition host_port :: "byte list \<Rightarrow> int \<Rightarrow> byte list" where
  "host_port host port = c_str host @ [chr_colon] @ decimal_int port"

definition append_query :: "'j http_message \<Rightarrow> 'j http_message" where
  "append_query m =
     (if chr_question \<notin> set (c_str (req_url m)) \<and> req_query_params m \<noteq> []
      then m\<lparr>req_url := req_url m @ [chr_question] @ dump_query_params (req_query_params m)\<rparr> else m)"

definition DumpUrl :: "'j http_message \<Rightarrow> 'j http_message" where
  "DumpUrl m =
     (let url = req_url m; first = (case c_str url of [] \<Rightarrow> 0 | c # s \<Rightarrow> c) in
      if url \<noteq> [] \<and> first \<noteq> chr_slash \<and> find_from (c_str url) (ascii ''://'') 0 \<noteq> None then append_query m
      else
        let str = req_scheme m @ ascii ''://'';
            str = (if url \<noteq> [] \<and> first \<noteq> chr_slash then str @ url
                   else if default_port (req_port m) then str @ Host m
                   else str @ host_port (req_host m) (req_port m));
            str = (if url \<noteq> [] \<and> first = chr_slash then str @ url
                   else if length (req_path m) > 1 \<and> hd (req_path m) = chr_slash then str @ req_path m
                   else if url = [] then str @ [chr_slash]
                   else str)
        in append_query (m\<lparr>req_url := str\<rparr>))"

definition FillHost :: "byte list \<Rightarrow> int \<Rightarrow> 'j http_message \<Rightarrow> 'j http_message" where
  "FillHost host port m =
     (if find_header (ascii ''Host'') m = None
      then SetHeader (ascii ''Host'') (if default_port port then host else host_port host port) m else m)"

definition SetHost :: "byte list \<Rightarrow> int \<Rightarrow> 'j http_message \<Rightarrow> 'j http_message" where
  "SetHost host port m = FillHost host port (m\<lparr>req_host := host, req_port := port\<rparr>)"

definition SetProxy :: "byte list \<Rightarrow> int \<Rightarrow> 'j http_message \<Rightarrow> 'j http_message" where
  "SetProxy host port m = m\<lparr>req_scheme := ascii ''http'', req_host := host, req_port := port, req_proxy := True\<rparr>"

definition request_path :: "'j http_message \<Rightarrow> byte list" where
  "request_path m = url_unescape (takeWhile (\<lambda>c. c \<noteq> chr_question \<and> c \<noteq> chr_hash) (c_str (req_path m)))"

text \<open>The return value of \<open>hv_parse_url\<close> is not looked at. \<open>None\<close> comes from the query parser.\<close>

definition ParseUrl :: "'j http_message \<Rightarrow> 'j http_message option" where
  "ParseUrl m =
     (let m = DumpUrl m; url = req_url m; u = snd (hv_parse_url (c_str url));
          scheme = url_part url u HV_URL_SCHEME;
          host = (if uf_len (url_fields u HV_URL_HOST) > 0 then url_part url u HV_URL_HOST else req_host m);
          port = (if url_port u \<noteq> 0 then uint (url_port u)
                  else if c_str scheme \<noteq> ascii ''https'' then 80 else 443);
          m = (if \<not> req_proxy m then m\<lparr>req_scheme := scheme, req_host := host, req_port := port\<rparr> else m);
          m = FillHost (c_str host) port m;
          m = (if uf_len (url_fields u HV_URL_PATH) > 0
               then m\<lparr>req_path := drop (unat (uf_off (url_fields u HV_URL_PATH))) url\<rparr> else m)
      in if uf_len (url_fields u HV_URL_QUERY) > 0
         then map_option (\<lambda>(r, ps). m\<lparr>req_query_params := ps\<rparr>)
           (parse_query_params (drop (unat (uf_off (url_fields u HV_URL_QUERY))) (c_str url)) (req_query_params m))
         else Some m)"

subsection \<open>Requests and responses\<close>

definition request_line :: "'j http_message \<Rightarrow> byte list" where
  "request_line m = ascii (http_method_str (req_method m)) @ [chr_space]
     @ c_str (if req_proxy m then req_url m else req_path m) @ ascii '' HTTP/''
     @ decimal (unat (msg_http_major m)) @ [chr_dot] @ decimal (unat (msg_http_minor m)) @ [CR, LF]"

definition request_Dump :: "'j content_lib \<Rightarrow> bool \<Rightarrow> bool \<Rightarrow> 'j http_message \<Rightarrow> (byte list \<times> 'j http_message) option" where
  "request_Dump lib is_dump_headers is_dump_body m =
     Option.bind (ParseUrl m) (\<lambda>m. dump_rest lib is_dump_headers is_dump_body (request_line m) m)"

text \<open>\<open>date\<close> is \<open>s_date\<close>, or the formatted time if that is empty.\<close>

definition status_line :: "'j http_message \<Rightarrow> byte list" where
  "status_line m = take 255 (ascii ''HTTP/'' @ decimal (unat (msg_http_major m)) @ [chr_dot]
     @ decimal (unat (msg_http_minor m)) @ [chr_space] @ decimal (res_status_code m) @ [chr_space]
     @ ascii (http_status_str (res_status_code m)) @ [CR, LF])"

definition response_Dump :: "'j content_lib \<Rightarrow> byte list \<Rightarrow> bool \<Rightarrow> bool \<Rightarrow> 'j http_message \<Rightarrow>
    (byte list \<times> 'j http_message) option" where
  "response_Dump lib date is_dump_headers is_dump_body m =
     dump_rest lib is_dump_headers is_dump_body (status_line m)
       (if is_dump_headers then SetHeader (ascii ''Date'') date m else m)"

end
