(* ===== verification/HTTP_Parser.thy ===== *)
theory HTTP_Parser imports HTTP_Data begin

text \<open>
  \<open>http_parser_execute\<close> of \<^verbatim>\<open>lib/libhv/http/http_parser.c\<close>: the local state of the function, its
  macros, one definition per case (or group of equal cases) of its switch, the inner loops over header
  fields and values, the \<open>reexecute\<close> jumps and the main loop.
\<close>

subsection \<open>Local state and control flow\<close>

text \<open>The \<open>FOR\<close> parameter of the data macros; each has a mark, a pointer into \<open>data\<close> or null.\<close>

datatype data_for = For_header_field | For_header_value | For_url | For_body | For_status

text \<open>The parameters of a call, which do not change during it; \<open>en_max_header_size\<close> is the static
  variable \<open>max_header_size\<close>.\<close>

record 'u http_env =
  en_settings :: "'u http_parser_settings"
  en_data :: "byte list"
  en_max_header_size :: u32
  en_lenient :: bool

text \<open>The variables of the function: pointers are offsets from \<open>data\<close>.\<close>

record 'u http_exec =
  hx_parser :: http_parser
  hx_user :: 'u
  hx_p :: nat
  hx_ch :: byte
  hx_state :: state
  hx_nread :: u32
  hx_mark :: "data_for \<Rightarrow> nat option"

text \<open>How a piece of the loop body ends: with the next statement (for a whole case: its \<open>break\<close>),
  with \<open>goto reexecute\<close>, with a return, with a C++ exception out of a callback, or not at all, with a
  failed assertion or a read outside of a buffer.\<close>

datatype 'u http_flow = Next "'u http_exec" | Reexecute "'u http_exec"
  | Return nat "'u http_exec" | Throw "'u http_exec" | Fault

fun andthen :: "'u http_flow \<Rightarrow> ('u http_exec \<Rightarrow> 'u http_flow) \<Rightarrow> 'u http_flow" where
  "andthen (Next s) f = f s"
| "andthen (Reexecute s) f = Reexecute s"
| "andthen (Return n s) f = Return n s"
| "andthen (Throw s) f = Throw s"
| "andthen Fault f = Fault"

definition http_assert :: "bool \<Rightarrow> 'u http_flow \<Rightarrow> 'u http_flow" where
  "http_assert b f = (if b then f else Fault)"

definition set_parser :: "(http_parser \<Rightarrow> http_parser) \<Rightarrow> 'u http_exec \<Rightarrow> 'u http_exec" where
  "set_parser f s = s\<lparr>hx_parser := f (hx_parser s)\<rparr>"

definition UPDATE_STATE :: "state \<Rightarrow> 'u http_exec \<Rightarrow> 'u http_exec" where
  "UPDATE_STATE v s = s\<lparr>hx_state := v\<rparr>"

definition HTTP_PARSER_ERRNO :: "'u http_exec \<Rightarrow> http_errno" where
  "HTTP_PARSER_ERRNO s = hp_http_errno (hx_parser s)"

definition SET_ERRNO :: "http_errno \<Rightarrow> 'u http_exec \<Rightarrow> 'u http_exec" where
  "SET_ERRNO e s = set_parser (\<lambda>parser. parser\<lparr>hp_nread := hx_nread s, hp_http_errno := e\<rparr>) s"

definition RETURN :: "nat \<Rightarrow> 'u http_exec \<Rightarrow> 'u http_flow" where
  "RETURN v s = Return v (set_parser (\<lambda>parser. parser\<lparr>hp_state := hx_state s, hp_nread := hx_nread s\<rparr>) s)"

text \<open>The code after the label \<open>error\<close>, and \<open>SET_ERRNO\<close> followed by the jump to it.\<close>

definition goto_error :: "'u http_exec \<Rightarrow> 'u http_flow" where
  "goto_error s =
     (let s = (if HTTP_PARSER_ERRNO s = HPE_OK then SET_ERRNO HPE_UNKNOWN s else s)
      in RETURN (hx_p s) s)"

definition fail :: "http_errno \<Rightarrow> 'u http_exec \<Rightarrow> 'u http_flow" where
  "fail e s = goto_error (SET_ERRNO e s)"

definition STRICT_CHECK :: "bool \<Rightarrow> 'u http_exec \<Rightarrow> 'u http_flow" where
  "STRICT_CHECK cond s = (if cond then fail HPE_STRICT s else Next s)"

definition COUNT_HEADER_SIZE :: "'u http_env \<Rightarrow> nat \<Rightarrow> 'u http_exec \<Rightarrow> 'u http_flow" where
  "COUNT_HEADER_SIZE env v s =
     (let s = s\<lparr>hx_nread := hx_nread s + of_nat v\<rparr>
      in if hx_nread s > en_max_header_size env then fail HPE_HEADER_OVERFLOW s else Next s)"

definition MARK :: "data_for \<Rightarrow> 'u http_exec \<Rightarrow> 'u http_exec" where
  "MARK for s = (case hx_mark s for of None \<Rightarrow> s\<lparr>hx_mark := (hx_mark s)(for := Some (hx_p s))\<rparr>
     | Some m \<Rightarrow> s)"

subsection \<open>Calling back\<close>

text \<open>What the macros \<^verbatim>\<open>CALLBACK_NOTIFY_\<close> and \<^verbatim>\<open>CALLBACK_DATA_\<close> do with the result of a callback.\<close>

definition callback_result ::
  "http_errno \<Rightarrow> nat \<Rightarrow> cb_result \<times> http_parser \<times> 'u \<Rightarrow> 'u http_exec \<Rightarrow> 'u http_flow" where
  "callback_result err er res s =
     (case res of (r, parser, u) \<Rightarrow>
        let s = s\<lparr>hx_parser := parser, hx_user := u\<rparr> in
        case r of CbThrow \<Rightarrow> Throw s
        | CbReturn n \<Rightarrow>
            let s = (if n \<noteq> 0 then SET_ERRNO err s else s);
                s = UPDATE_STATE (hp_state (hx_parser s)) s
            in if HTTP_PARSER_ERRNO s \<noteq> HPE_OK then Return er s else Next s)"

definition save_state :: "'u http_exec \<Rightarrow> 'u http_exec" where
  "save_state s = set_parser (\<lambda>parser. parser\<lparr>hp_state := hx_state s\<rparr>) s"

definition CALLBACK_NOTIFY_ER ::
  "'u http_cb option \<Rightarrow> http_errno \<Rightarrow> nat \<Rightarrow> 'u http_exec \<Rightarrow> 'u http_flow" where
  "CALLBACK_NOTIFY_ER cb err er s =
     http_assert (HTTP_PARSER_ERRNO s = HPE_OK)
      (case cb of None \<Rightarrow> Next s
       | Some on \<Rightarrow> let s = save_state s
                    in callback_result err er (on (hx_parser s) (hx_user s)) s)"

definition CALLBACK_NOTIFY :: "'u http_cb option \<Rightarrow> http_errno \<Rightarrow> 'u http_exec \<Rightarrow> 'u http_flow" where
  "CALLBACK_NOTIFY cb err s = CALLBACK_NOTIFY_ER cb err (hx_p s + 1) s"

definition CALLBACK_NOTIFY_NOADVANCE ::
  "'u http_cb option \<Rightarrow> http_errno \<Rightarrow> 'u http_exec \<Rightarrow> 'u http_flow" where
  "CALLBACK_NOTIFY_NOADVANCE cb err s = CALLBACK_NOTIFY_ER cb err (hx_p s) s"

fun data_cb :: "'u http_parser_settings \<Rightarrow> data_for \<Rightarrow> 'u http_data_cb option" where
  "data_cb settings For_header_field = on_header_field settings"
| "data_cb settings For_header_value = on_header_value settings"
| "data_cb settings For_url = on_url settings"
| "data_cb settings For_body = on_body settings"
| "data_cb settings For_status = on_status settings"

fun data_errno :: "data_for \<Rightarrow> http_errno" where
  "data_errno For_header_field = HPE_CB_header_field"
| "data_errno For_header_value = HPE_CB_header_value"
| "data_errno For_url = HPE_CB_url"
| "data_errno For_body = HPE_CB_body"
| "data_errno For_status = HPE_CB_status"

text \<open>\<open>stop\<close> is the position up to which data are passed: the macro's \<open>LEN\<close> is \<open>stop - mark\<close>.\<close>

definition CALLBACK_DATA_ER ::
  "'u http_env \<Rightarrow> data_for \<Rightarrow> nat \<Rightarrow> nat \<Rightarrow> 'u http_exec \<Rightarrow> 'u http_flow" where
  "CALLBACK_DATA_ER env for stop er s =
     http_assert (HTTP_PARSER_ERRNO s = HPE_OK)
      (case hx_mark s for of None \<Rightarrow> Next s
       | Some m \<Rightarrow>
          andthen
           (case data_cb (en_settings env) for of None \<Rightarrow> Next s
            | Some on \<Rightarrow>
                http_assert (m \<le> stop \<and> stop \<le> length (en_data env))
                 (let s = save_state s in
                  callback_result (data_errno for) er
                    (on (hx_parser s) (take (stop - m) (drop m (en_data env))) (hx_user s)) s))
           (\<lambda>s. Next (s\<lparr>hx_mark := (hx_mark s)(for := None)\<rparr>)))"

definition CALLBACK_DATA :: "'u http_env \<Rightarrow> data_for \<Rightarrow> 'u http_exec \<Rightarrow> 'u http_flow" where
  "CALLBACK_DATA env for s = CALLBACK_DATA_ER env for (hx_p s) (hx_p s + 1) s"

definition CALLBACK_DATA_NOADVANCE :: "'u http_env \<Rightarrow> data_for \<Rightarrow> 'u http_exec \<Rightarrow> 'u http_flow" where
  "CALLBACK_DATA_NOADVANCE env for s = CALLBACK_DATA_ER env for (hx_p s) (hx_p s) s"

text \<open>The callbacks of a notification.\<close>

definition notify_message_begin :: "'u http_env \<Rightarrow> 'u http_exec \<Rightarrow> 'u http_flow" where
  "notify_message_begin env s = CALLBACK_NOTIFY (on_message_begin (en_settings env)) HPE_CB_message_begin s"

definition notify_message_complete :: "'u http_env \<Rightarrow> 'u http_exec \<Rightarrow> 'u http_flow" where
  "notify_message_complete env s = CALLBACK_NOTIFY (on_message_complete (en_settings env)) HPE_CB_message_complete s"

subsection \<open>Start of a message, status line\<close>

definition case_dead :: "'u http_exec \<Rightarrow> 'u http_flow" where
  "case_dead s = (if hx_ch s = CR \<or> hx_ch s = LF then Next s else fail HPE_CLOSED_CONNECTION s)"

definition start_message :: "'u http_exec \<Rightarrow> 'u http_exec" where
  "start_message s = set_parser (\<lambda>parser. parser\<lparr>hp_flags := 0, hp_content_length := ULLONG_MAX\<rparr>) s"

definition case_start_req_or_res :: "'u http_env \<Rightarrow> 'u http_exec \<Rightarrow> 'u http_flow" where
  "case_start_req_or_res env s =
    (if hx_ch s = CR \<or> hx_ch s = LF then Next s
     else let s = start_message s in
       if hx_ch s = chr_H then notify_message_begin env (UPDATE_STATE s_res_or_resp_H s)
       else Reexecute (UPDATE_STATE s_start_req (set_parser (\<lambda>parser. parser\<lparr>hp_type := HTTP_REQUEST\<rparr>) s)))"

definition case_res_or_resp_H :: "'u http_exec \<Rightarrow> 'u http_flow" where
  "case_res_or_resp_H s =
    (if hx_ch s = chr_T
     then Next (UPDATE_STATE s_res_HT (set_parser (\<lambda>parser. parser\<lparr>hp_type := HTTP_RESPONSE\<rparr>) s))
     else if hx_ch s \<noteq> chr_E then fail HPE_INVALID_CONSTANT s
     else Next (UPDATE_STATE s_req_method
       (set_parser (\<lambda>parser. parser\<lparr>hp_type := HTTP_REQUEST, hp_index := 2, hp_method := HTTP_HEAD\<rparr>) s)))"

definition case_start_res :: "'u http_env \<Rightarrow> 'u http_exec \<Rightarrow> 'u http_flow" where
  "case_start_res env s =
    (if hx_ch s = CR \<or> hx_ch s = LF then Next s
     else let s = start_message s in
       if hx_ch s = chr_H then notify_message_begin env (UPDATE_STATE s_res_H s)
       else fail HPE_INVALID_CONSTANT s)"

text \<open>The cases that check one character and go on: \<open>s_res_H\<close> to \<open>s_res_HTTP\<close>, \<open>s_req_http_H\<close> to
  \<open>s_req_http_HTTP\<close>, \<open>s_res_line_almost_done\<close> and \<open>s_header_value_discard_ws_almost_done\<close>.\<close>

definition case_strict :: "byte \<Rightarrow> state \<Rightarrow> 'u http_exec \<Rightarrow> 'u http_flow" where
  "case_strict expected next_state s =
     andthen (STRICT_CHECK (hx_ch s \<noteq> expected) s) (\<lambda>s. Next (UPDATE_STATE next_state s))"

definition digit_value :: "byte \<Rightarrow> 'a::len word" where
  "digit_value ch = ucast (ch - chr_0)"

text \<open>\<open>s_res_http_major\<close> to \<open>s_res_http_minor\<close> and their twins of the request line.\<close>

definition case_http_major :: "state \<Rightarrow> 'u http_exec \<Rightarrow> 'u http_flow" where
  "case_http_major next_state s =
    (if \<not> IS_NUM (hx_ch s) then fail HPE_INVALID_VERSION s
     else Next (UPDATE_STATE next_state
       (set_parser (\<lambda>parser. parser\<lparr>hp_http_major := digit_value (hx_ch s)\<rparr>) s)))"

definition case_http_dot :: "state \<Rightarrow> 'u http_exec \<Rightarrow> 'u http_flow" where
  "case_http_dot next_state s =
    (if hx_ch s \<noteq> chr_dot then fail HPE_INVALID_VERSION s else Next (UPDATE_STATE next_state s))"

definition case_http_minor :: "state \<Rightarrow> 'u http_exec \<Rightarrow> 'u http_flow" where
  "case_http_minor next_state s =
    (if \<not> IS_NUM (hx_ch s) then fail HPE_INVALID_VERSION s
     else Next (UPDATE_STATE next_state
       (set_parser (\<lambda>parser. parser\<lparr>hp_http_minor := digit_value (hx_ch s)\<rparr>) s)))"

definition case_res_http_end :: "'u http_exec \<Rightarrow> 'u http_flow" where
  "case_res_http_end s =
    (if hx_ch s \<noteq> chr_space then fail HPE_INVALID_VERSION s
     else Next (UPDATE_STATE s_res_first_status_code s))"

definition case_res_first_status_code :: "'u http_exec \<Rightarrow> 'u http_flow" where
  "case_res_first_status_code s =
    (if \<not> IS_NUM (hx_ch s) then
       (if hx_ch s = chr_space then Next s else fail HPE_INVALID_STATUS s)
     else Next (UPDATE_STATE s_res_status_code
       (set_parser (\<lambda>parser. parser\<lparr>hp_status_code := digit_value (hx_ch s)\<rparr>) s)))"

definition case_res_status_code :: "'u http_exec \<Rightarrow> 'u http_flow" where
  "case_res_status_code s =
    (if \<not> IS_NUM (hx_ch s) then
       (if hx_ch s = chr_space then Next (UPDATE_STATE s_res_status_start s)
        else if hx_ch s = CR \<or> hx_ch s = LF then Reexecute (UPDATE_STATE s_res_status_start s)
        else fail HPE_INVALID_STATUS s)
     else
       let s = set_parser (\<lambda>parser. parser\<lparr>hp_status_code := hp_status_code parser * 10 + digit_value (hx_ch s)\<rparr>) s
       in if hp_status_code (hx_parser s) > 999 then fail HPE_INVALID_STATUS s else Next s)"

definition case_res_status_start :: "'u http_exec \<Rightarrow> 'u http_flow" where
  "case_res_status_start s =
    (let s = set_parser (\<lambda>parser. parser\<lparr>hp_index := 0\<rparr>) (UPDATE_STATE s_res_status (MARK For_status s))
     in if hx_ch s = CR \<or> hx_ch s = LF then Reexecute s else Next s)"

definition case_res_status :: "'u http_env \<Rightarrow> 'u http_exec \<Rightarrow> 'u http_flow" where
  "case_res_status env s =
    (if hx_ch s = CR then CALLBACK_DATA env For_status (UPDATE_STATE s_res_line_almost_done s)
     else if hx_ch s = LF then CALLBACK_DATA env For_status (UPDATE_STATE s_header_field_start s)
     else Next s)"

subsection \<open>Request line\<close>

text \<open>The method guessed from its first letter.\<close>

definition first_method :: "byte \<Rightarrow> http_method option" where
  "first_method ch =
    (if ch = chr_A then Some HTTP_ACL
     else if ch = chr_B then Some HTTP_BIND
     else if ch = chr_C then Some HTTP_CONNECT
     else if ch = chr_D then Some HTTP_DELETE
     else if ch = chr_G then Some HTTP_GET
     else if ch = chr_H then Some HTTP_HEAD
     else if ch = chr_L then Some HTTP_LOCK
     else if ch = chr_M then Some HTTP_MKCOL
     else if ch = chr_N then Some HTTP_NOTIFY
     else if ch = chr_O then Some HTTP_OPTIONS
     else if ch = chr_P then Some HTTP_POST
     else if ch = chr_R then Some HTTP_REPORT
     else if ch = chr_S then Some HTTP_SUBSCRIBE
     else if ch = chr_T then Some HTTP_TRACE
     else if ch = chr_U then Some HTTP_UNLOCK
     else None)"

definition case_start_req :: "'u http_env \<Rightarrow> 'u http_exec \<Rightarrow> 'u http_flow" where
  "case_start_req env s =
    (if hx_ch s = CR \<or> hx_ch s = LF then Next s
     else let s = start_message s in
       if \<not> IS_ALPHA (hx_ch s) then fail HPE_INVALID_METHOD s
       else
         let s = set_parser (\<lambda>parser. parser\<lparr>hp_index := 1, hp_method := HTTP_DELETE\<rparr>) s in
         case first_method (hx_ch s) of
           None \<Rightarrow> fail HPE_INVALID_METHOD s
         | Some m \<Rightarrow> notify_message_begin env
             (UPDATE_STATE s_req_method (set_parser (\<lambda>parser. parser\<lparr>hp_method := m\<rparr>) s)))"

text \<open>The table of \<open>XX(meth, pos, ch, new_meth)\<close> in \<open>s_req_method\<close>.\<close>

definition method_switch :: "http_method \<Rightarrow> 7 word \<Rightarrow> byte \<Rightarrow> http_method option" where
  "method_switch m pos ch =
    (if m = HTTP_POST \<and> pos = 1 \<and> ch = chr_U then Some HTTP_PUT
     else if m = HTTP_POST \<and> pos = 1 \<and> ch = chr_A then Some HTTP_PATCH
     else if m = HTTP_POST \<and> pos = 1 \<and> ch = chr_R then Some HTTP_PROPFIND
     else if m = HTTP_PUT \<and> pos = 2 \<and> ch = chr_R then Some HTTP_PURGE
     else if m = HTTP_CONNECT \<and> pos = 1 \<and> ch = chr_H then Some HTTP_CHECKOUT
     else if m = HTTP_CONNECT \<and> pos = 2 \<and> ch = chr_P then Some HTTP_COPY
     else if m = HTTP_MKCOL \<and> pos = 1 \<and> ch = chr_O then Some HTTP_MOVE
     else if m = HTTP_MKCOL \<and> pos = 1 \<and> ch = chr_E then Some HTTP_MERGE
     else if m = HTTP_MKCOL \<and> pos = 1 \<and> ch = chr_minus then Some HTTP_MSEARCH
     else if m = HTTP_MKCOL \<and> pos = 2 \<and> ch = chr_A then Some HTTP_MKACTIVITY
     else if m = HTTP_MKCOL \<and> pos = 3 \<and> ch = chr_A then Some HTTP_MKCALENDAR
     else if m = HTTP_SUBSCRIBE \<and> pos = 1 \<and> ch = chr_E then Some HTTP_SEARCH
     else if m = HTTP_SUBSCRIBE \<and> pos = 1 \<and> ch = chr_O then Some HTTP_SOURCE
     else if m = HTTP_REPORT \<and> pos = 2 \<and> ch = chr_B then Some HTTP_REBIND
     else if m = HTTP_PROPFIND \<and> pos = 4 \<and> ch = chr_P then Some HTTP_PROPPATCH
     else if m = HTTP_LOCK \<and> pos = 1 \<and> ch = chr_I then Some HTTP_LINK
     else if m = HTTP_UNLOCK \<and> pos = 2 \<and> ch = chr_S then Some HTTP_UNSUBSCRIBE
     else if m = HTTP_UNLOCK \<and> pos = 2 \<and> ch = chr_B then Some HTTP_UNBIND
     else if m = HTTP_UNLOCK \<and> pos = 3 \<and> ch = chr_I then Some HTTP_UNLINK
     else None)"

text \<open>A character of a C string at an index: the terminator is one of them, beyond it is a fault.\<close>

definition c_char_at :: "byte list \<Rightarrow> nat \<Rightarrow> byte option" where
  "c_char_at str i = (if i < length str then Some (str ! i) else if i = length str then Some 0 else None)"

definition matcher_char :: "http_method \<Rightarrow> 7 word \<Rightarrow> byte option" where
  "matcher_char m i = Option.bind (method_strings m) (\<lambda>str. c_char_at (ascii str) (unat i))"

definition case_req_method :: "'u http_exec \<Rightarrow> 'u http_flow" where
  "case_req_method s =
    (let ch = hx_ch s; m = hp_method (hx_parser s); i = hp_index (hx_parser s);
         inc = set_parser (\<lambda>parser. parser\<lparr>hp_index := hp_index parser + 1\<rparr>) in
     if ch = 0 then fail HPE_INVALID_METHOD s
     else case matcher_char m i of
       None \<Rightarrow> Fault
     | Some mc \<Rightarrow>
         if ch = chr_space \<and> mc = 0 then Next (inc (UPDATE_STATE s_req_spaces_before_url s))
         else if ch = mc then Next (inc s)
         else if (chr_A \<le> ch \<and> ch \<le> chr_Z) \<or> ch = chr_minus then
           (case method_switch m i ch of
              None \<Rightarrow> fail HPE_INVALID_METHOD s
            | Some m' \<Rightarrow> Next (inc (set_parser (\<lambda>parser. parser\<lparr>hp_method := m'\<rparr>) s)))
         else fail HPE_INVALID_METHOD s)"

definition url_step :: "'u http_exec \<Rightarrow> 'u http_flow" where
  "url_step s =
    (let s = UPDATE_STATE (parse_url_char (hx_state s) (hx_ch s)) s
     in if hx_state s = s_dead then fail HPE_INVALID_URL s else Next s)"

definition case_req_spaces_before_url :: "'u http_exec \<Rightarrow> 'u http_flow" where
  "case_req_spaces_before_url s =
    (if hx_ch s = chr_space then Next s
     else let s = MARK For_url s;
              s = (if hp_method (hx_parser s) = HTTP_CONNECT then UPDATE_STATE s_req_server_start s else s)
          in url_step s)"

definition case_req_schema :: "'u http_exec \<Rightarrow> 'u http_flow" where
  "case_req_schema s =
    (if hx_ch s = chr_space \<or> hx_ch s = CR \<or> hx_ch s = LF then fail HPE_INVALID_URL s else url_step s)"

definition case_req_url :: "'u http_env \<Rightarrow> 'u http_exec \<Rightarrow> 'u http_flow" where
  "case_req_url env s =
    (if hx_ch s = chr_space then CALLBACK_DATA env For_url (UPDATE_STATE s_req_http_start s)
     else if hx_ch s = CR \<or> hx_ch s = LF then
       CALLBACK_DATA env For_url
         (UPDATE_STATE (if hx_ch s = CR then s_req_line_almost_done else s_header_field_start)
           (set_parser (\<lambda>parser. parser\<lparr>hp_http_major := 0, hp_http_minor := 9\<rparr>) s))
     else url_step s)"

definition case_req_http_start :: "'u http_exec \<Rightarrow> 'u http_flow" where
  "case_req_http_start s =
    (if hx_ch s = chr_space then Next s
     else if hx_ch s = chr_H then Next (UPDATE_STATE s_req_http_H s)
     else if hx_ch s = chr_I \<and> hp_method (hx_parser s) = HTTP_SOURCE then Next (UPDATE_STATE s_req_http_I s)
     else fail HPE_INVALID_CONSTANT s)"

text \<open>The same for the request line: the letters of \<open>HTTP\<close> (or \<open>ICE\<close>), and the version.\<close>

definition case_req_http_letters :: "'u http_exec \<Rightarrow> 'u http_flow" where
  "case_req_http_letters s =
    (case hx_state s of
       s_req_http_H \<Rightarrow> case_strict chr_T s_req_http_HT s
     | s_req_http_HT \<Rightarrow> case_strict chr_T s_req_http_HTT s
     | s_req_http_HTT \<Rightarrow> case_strict chr_P s_req_http_HTTP s
     | s_req_http_I \<Rightarrow> case_strict chr_C s_req_http_IC s
     | s_req_http_IC \<Rightarrow> case_strict chr_E s_req_http_HTTP s
     | _ \<Rightarrow> case_strict chr_slash s_req_http_major s)"

definition case_req_http_version :: "'u http_exec \<Rightarrow> 'u http_flow" where
  "case_req_http_version s =
    (case hx_state s of
       s_req_http_major \<Rightarrow> case_http_major s_req_http_dot s
     | s_req_http_dot \<Rightarrow> case_http_dot s_req_http_minor s
     | _ \<Rightarrow> case_http_minor s_req_http_end s)"

definition case_req_http_end :: "'u http_exec \<Rightarrow> 'u http_flow" where
  "case_req_http_end s =
    (if hx_ch s = CR then Next (UPDATE_STATE s_req_line_almost_done s)
     else if hx_ch s = LF then Next (UPDATE_STATE s_header_field_start s)
     else fail HPE_INVALID_VERSION s)"

text \<open>\<open>s_req_line_almost_done\<close> and \<open>s_header_almost_done\<close>.\<close>

definition case_expect_LF :: "state \<Rightarrow> 'u http_exec \<Rightarrow> 'u http_flow" where
  "case_expect_LF next_state s =
    (if hx_ch s \<noteq> LF then fail HPE_LF_EXPECTED s else Next (UPDATE_STATE next_state s))"

subsection \<open>Header fields\<close>

definition case_header_field_start :: "'u http_exec \<Rightarrow> 'u http_flow" where
  "case_header_field_start s =
    (if hx_ch s = CR then Next (UPDATE_STATE s_headers_almost_done s)
     else if hx_ch s = LF then Reexecute (UPDATE_STATE s_headers_almost_done s)
     else let c = TOKEN (hx_ch s) in
       if c = 0 then fail HPE_INVALID_HEADER_TOKEN s
       else
         Next (set_parser (\<lambda>parser. parser\<lparr>hp_header_state :=
                 (if c = chr_c then h_C
                  else if c = chr_p then h_matching_proxy_connection
                  else if c = chr_t then h_matching_transfer_encoding
                  else if c = chr_u then h_matching_upgrade
                  else h_general), hp_index := 0\<rparr>)
               (UPDATE_STATE s_header_field (MARK For_header_field s))))"

text \<open>The constants that header names and values are matched with.\<close>

definition PROXY_CONNECTION :: "byte list" where "PROXY_CONNECTION = ascii ''proxy-connection''"
definition CONNECTION :: "byte list" where "CONNECTION = ascii ''connection''"
definition CONTENT_LENGTH :: "byte list" where "CONTENT_LENGTH = ascii ''content-length''"
definition TRANSFER_ENCODING :: "byte list" where "TRANSFER_ENCODING = ascii ''transfer-encoding''"
definition UPGRADE :: "byte list" where "UPGRADE = ascii ''upgrade''"
definition CHUNKED :: "byte list" where "CHUNKED = ascii ''chunked''"
definition KEEP_ALIVE :: "byte list" where "KEEP_ALIVE = ascii ''keep-alive''"
definition CLOSE :: "byte list" where "CLOSE = ascii ''close''"

text \<open>The shared body of the \<open>h_matching\<close> cases: \<open>index\<close> is already stepped, \<open>sizeof\<close> counts the
  terminator. \<open>None\<close> is a read beyond it.\<close>

definition match_index ::
  "byte list \<Rightarrow> 7 word \<Rightarrow> byte \<Rightarrow> header_states \<Rightarrow> header_states \<Rightarrow> header_states \<Rightarrow> header_states option" where
  "match_index str i c other done hs =
    (if unat i > length str then Some other
     else Option.bind (c_char_at str (unat i)) (\<lambda>x. Some
       (if c \<noteq> x then other else if unat i = length str - 1 then done else hs)))"

text \<open>One character of a field name, in the states other than \<open>h_general\<close>: the new index and header
  state, \<open>None\<close> for the assertion of the default case.\<close>

definition header_field_char ::
  "byte \<Rightarrow> byte \<Rightarrow> 7 word \<Rightarrow> header_states \<Rightarrow> (7 word \<times> header_states) option" where
  "header_field_char ch c i hs =
    (let matching = (\<lambda>str done. Option.bind (match_index str (i + 1) c h_general done hs)
                        (\<lambda>h. Some (i + 1, h)));
         blank = Some (i, if ch \<noteq> chr_space then h_general else hs) in
     case hs of
       h_C \<Rightarrow> Some (i + 1, if c = chr_o then h_CO else h_general)
     | h_CO \<Rightarrow> Some (i + 1, if c = chr_n then h_CON else h_general)
     | h_CON \<Rightarrow> Some (i + 1, if c = chr_n then h_matching_connection
                             else if c = chr_t then h_matching_content_length
                             else h_general)
     | h_matching_connection \<Rightarrow> matching CONNECTION h_connection
     | h_matching_proxy_connection \<Rightarrow> matching PROXY_CONNECTION h_connection
     | h_matching_content_length \<Rightarrow> matching CONTENT_LENGTH h_content_length
     | h_matching_transfer_encoding \<Rightarrow> matching TRANSFER_ENCODING h_transfer_encoding
     | h_matching_upgrade \<Rightarrow> matching UPGRADE h_upgrade
     | h_connection \<Rightarrow> blank
     | h_content_length \<Rightarrow> blank
     | h_transfer_encoding \<Rightarrow> blank
     | h_upgrade \<Rightarrow> blank
     | _ \<Rightarrow> None)"

text \<open>The inner loop of \<open>h_general\<close>. Its bound is \<open>data + limit\<close>, although \<open>limit\<close> is counted from
  \<open>p\<close>.\<close>

function skip_tokens :: "byte list \<Rightarrow> nat \<Rightarrow> nat \<Rightarrow> nat" where
  "skip_tokens dat limit p =
    (if p + 1 < limit \<and> TOKEN (dat ! (p + 1)) \<noteq> 0 then skip_tokens dat limit (p + 1) else p)"
  by pat_completeness auto
termination by (relation "measure (\<lambda>(dat, limit, p). limit - p)") auto

declare skip_tokens.simps [simp del]

lemma skip_tokens_ge: "p \<le> skip_tokens dat limit p"
proof (induction dat limit p rule: skip_tokens.induct)
  case (1 dat limit p)
  then show ?case by (subst skip_tokens.simps) auto
qed

text \<open>The loop over a field name: where it stops, the last character it looked at, and the parser.\<close>

function header_field_loop ::
  "'u http_env \<Rightarrow> nat \<Rightarrow> byte \<Rightarrow> http_parser \<Rightarrow> (nat \<times> byte \<times> http_parser) option" where
  "header_field_loop env p ch parser =
    (if p < length (en_data env) then
       let ch = en_data env ! p; c = TOKEN ch in
       if c = 0 then Some (p, ch, parser)
       else if hp_header_state parser = h_general then
         let limit = min (length (en_data env) - p) (unat (en_max_header_size env))
         in header_field_loop env (skip_tokens (en_data env) limit p + 1) ch parser
       else case header_field_char ch c (hp_index parser) (hp_header_state parser) of
         None \<Rightarrow> None
       | Some (i, hs) \<Rightarrow>
           header_field_loop env (p + 1) ch (parser\<lparr>hp_header_state := hs, hp_index := i\<rparr>)
     else Some (p, ch, parser))"
  by pat_completeness auto
termination
proof (relation "measure (\<lambda>(env, p, ch, parser). length (en_data env) - p)", goal_cases)
  case (2 env p ch parser x xa xb)
  then show ?case
    using skip_tokens_ge [of p "en_data env" "min (length (en_data env) - p) (unat (en_max_header_size env))"]
    by auto
qed auto

declare header_field_loop.simps [simp del]

definition case_header_field :: "'u http_env \<Rightarrow> 'u http_exec \<Rightarrow> 'u http_flow" where
  "case_header_field env s =
    (case header_field_loop env (hx_p s) (hx_ch s) (hx_parser s) of
       None \<Rightarrow> Fault
     | Some (p, ch, parser) \<Rightarrow>
         let start = hx_p s; s = s\<lparr>hx_parser := parser, hx_p := p, hx_ch := ch\<rparr> in
         if p = length (en_data env) then
           let s = s\<lparr>hx_p := p - 1\<rparr> in COUNT_HEADER_SIZE env (hx_p s - start) s
         else
           andthen (COUNT_HEADER_SIZE env (p - start) s) (\<lambda>s.
             if ch = chr_colon
             then CALLBACK_DATA env For_header_field (UPDATE_STATE s_header_value_discard_ws s)
             else fail HPE_INVALID_HEADER_TOKEN s))"

subsection \<open>Header values\<close>

definition case_header_value_start :: "'u http_exec \<Rightarrow> 'u http_flow" where
  "case_header_value_start s =
    (let s = set_parser (\<lambda>parser. parser\<lparr>hp_index := 0\<rparr>) (UPDATE_STATE s_header_value (MARK For_header_value s));
         c = LOWER (hx_ch s);
         to = (\<lambda>hs. Next (set_parser (\<lambda>parser. parser\<lparr>hp_header_state := hs\<rparr>) s)) in
     case hp_header_state (hx_parser s) of
       h_upgrade \<Rightarrow>
         Next (set_parser (\<lambda>parser. parser\<lparr>hp_flags := hp_flags parser OR F_UPGRADE, hp_header_state := h_general\<rparr>) s)
     | h_transfer_encoding \<Rightarrow> to (if c = chr_c then h_matching_transfer_encoding_chunked else h_general)
     | h_content_length \<Rightarrow>
         if \<not> IS_NUM (hx_ch s) then fail HPE_INVALID_CONTENT_LENGTH s
         else if hp_flags (hx_parser s) AND F_CONTENTLENGTH \<noteq> 0 then fail HPE_UNEXPECTED_CONTENT_LENGTH s
         else Next (set_parser (\<lambda>parser. parser\<lparr>hp_flags := hp_flags parser OR F_CONTENTLENGTH,
                hp_header_state := h_content_length_num, hp_content_length := digit_value (hx_ch s)\<rparr>) s)
     | h_content_length_ws \<Rightarrow> Next s
     | h_connection \<Rightarrow>
         to (if c = chr_k then h_matching_connection_keep_alive
             else if c = chr_c then h_matching_connection_close
             else if c = chr_u then h_matching_connection_upgrade
             else h_matching_connection_token)
     | h_matching_connection_token_start \<Rightarrow> Next s
     | _ \<Rightarrow> to h_general)"

definition case_header_value_discard_ws :: "'u http_exec \<Rightarrow> 'u http_flow" where
  "case_header_value_discard_ws s =
    (if hx_ch s = chr_space \<or> hx_ch s = chr_tab then Next s
     else if hx_ch s = CR then Next (UPDATE_STATE s_header_value_discard_ws_almost_done s)
     else if hx_ch s = LF then Next (UPDATE_STATE s_header_value_discard_lws s)
     else case_header_value_start s)"

text \<open>The inner loop of \<open>h_general\<close> over a value: \<open>Inl\<close> is the position of an invalid character, \<open>Inr\<close>
  the position where the loop leaves off.\<close>

function skip_value :: "byte list \<Rightarrow> bool \<Rightarrow> nat \<Rightarrow> nat \<Rightarrow> nat + nat" where
  "skip_value dat lenient limit p =
    (if p < limit then
       let ch = dat ! p in
       if ch = CR \<or> ch = LF then Inr (p - 1)
       else if \<not> lenient \<and> \<not> IS_HEADER_CHAR ch then Inl p
       else skip_value dat lenient limit (p + 1)
     else Inr p)"
  by pat_completeness auto
termination by (relation "measure (\<lambda>(dat, lenient, limit, p). limit - p)") auto

declare skip_value.simps [simp del]

lemma skip_value_ge: "skip_value dat lenient limit p = Inr q \<Longrightarrow> p - 1 \<le> q"
proof (induction dat lenient limit p rule: skip_value.induct)
  case (1 dat lenient limit p)
  have "p \<le> q" if "skip_value dat lenient limit (p + 1) = Inr q" "p < limit"
      "dat ! p \<noteq> CR" "dat ! p \<noteq> LF" "lenient \<or> IS_HEADER_CHAR (dat ! p)"
    using "1.IH" [OF that(2) refl] that by auto
  then show ?case
    using "1.prems" by (subst (asm) skip_value.simps) (auto simp: Let_def split: if_splits)
qed

text \<open>The first character is not an end of line, so the loop never leaves off before it.\<close>

lemma skip_value_ge_start:
  assumes "skip_value dat lenient limit p = Inr q" and "dat ! p \<noteq> CR" and "dat ! p \<noteq> LF"
  shows "p \<le> q"
  using assms skip_value_ge [of dat lenient limit "p + 1" q]
  by (subst (asm) skip_value.simps) (auto simp: Let_def split: if_splits)

text \<open>One character of a value. \<open>Inl\<close> leaves the loop, \<open>Inr\<close> goes on with the local \<open>h_state\<close>.\<close>

definition value_match ::
  "byte list \<Rightarrow> byte \<Rightarrow> header_states \<Rightarrow> header_states \<Rightarrow> 'u http_exec \<Rightarrow> header_states \<Rightarrow>
   'u http_flow + 'u http_exec \<times> header_states" where
  "value_match str c other done s hs =
    (let s = set_parser (\<lambda>parser. parser\<lparr>hp_index := hp_index parser + 1\<rparr>) s in
     case match_index str (hp_index (hx_parser s)) c other done hs of
       None \<Rightarrow> Inl Fault | Some h \<Rightarrow> Inr (s, h))"

definition value_error :: "'u http_exec \<Rightarrow> header_states \<Rightarrow> 'u http_flow" where
  "value_error s hs =
     fail HPE_INVALID_CONTENT_LENGTH (set_parser (\<lambda>parser. parser\<lparr>hp_header_state := hs\<rparr>) s)"

definition content_length_num ::
  "byte \<Rightarrow> 'u http_exec \<Rightarrow> 'u http_flow + 'u http_exec \<times> header_states" where
  "content_length_num ch s =
    (if ch = chr_space then Inr (s, h_content_length_ws)
     else if \<not> IS_NUM ch then Inl (value_error s h_content_length_num)
     else let t = hp_content_length (hx_parser s) * 10 + digit_value ch in
       if (ULLONG_MAX - 10) div 10 < hp_content_length (hx_parser s)
       then Inl (value_error s h_content_length_num)
       else Inr (set_parser (\<lambda>parser. parser\<lparr>hp_content_length := t\<rparr>) s, h_content_length_num))"

text \<open>A comma in a \<open>Connection\<close> value ends a token.\<close>

definition connection_flag :: "header_states \<Rightarrow> byte" where
  "connection_flag hs =
    (if hs = h_connection_keep_alive then F_CONNECTION_KEEP_ALIVE
     else if hs = h_connection_close then F_CONNECTION_CLOSE
     else if hs = h_connection_upgrade then F_CONNECTION_UPGRADE
     else 0)"

definition connection_token_end ::
  "byte \<Rightarrow> 'u http_exec \<Rightarrow> header_states \<Rightarrow> 'u http_flow + 'u http_exec \<times> header_states" where
  "connection_token_end ch s hs =
    (if ch = chr_comma then
       Inr (set_parser (\<lambda>parser. parser\<lparr>hp_flags := hp_flags parser OR connection_flag hs, hp_index := 0\<rparr>) s,
            h_matching_connection_token_start)
     else Inr (s, if ch \<noteq> chr_space then h_matching_connection_token else hs))"

definition header_value_char ::
  "'u http_env \<Rightarrow> 'u http_exec \<Rightarrow> header_states \<Rightarrow> 'u http_flow + 'u http_exec \<times> header_states" where
  "header_value_char env s hs =
    (let ch = hx_ch s; c = LOWER ch; len = length (en_data env) in
     case hs of
       h_general \<Rightarrow>
         (case skip_value (en_data env) (en_lenient env)
                 (hx_p s + min (len - hx_p s) (unat (en_max_header_size env))) (hx_p s) of
            Inl p \<Rightarrow> Inl (fail HPE_INVALID_HEADER_TOKEN (s\<lparr>hx_p := p, hx_ch := en_data env ! p\<rparr>))
          | Inr p \<Rightarrow> Inr (s\<lparr>hx_p := (if p = len then p - 1 else p)\<rparr>, hs))
     | h_connection \<Rightarrow> Inl Fault
     | h_transfer_encoding \<Rightarrow> Inl Fault
     | h_content_length \<Rightarrow> if ch = chr_space then Inr (s, hs) else content_length_num ch s
     | h_content_length_num \<Rightarrow> content_length_num ch s
     | h_content_length_ws \<Rightarrow> if ch = chr_space then Inr (s, hs) else Inl (value_error s hs)
     | h_matching_transfer_encoding_chunked \<Rightarrow>
         value_match CHUNKED c h_general h_transfer_encoding_chunked s hs
     | h_matching_connection_token_start \<Rightarrow>
         Inr (s, if c = chr_k then h_matching_connection_keep_alive
                 else if c = chr_c then h_matching_connection_close
                 else if c = chr_u then h_matching_connection_upgrade
                 else if STRICT_TOKEN c \<noteq> 0 then h_matching_connection_token
                 else if c = chr_space \<or> c = chr_tab then hs
                 else h_general)
     | h_matching_connection_keep_alive \<Rightarrow>
         value_match KEEP_ALIVE c h_matching_connection_token h_connection_keep_alive s hs
     | h_matching_connection_close \<Rightarrow>
         value_match CLOSE c h_matching_connection_token h_connection_close s hs
     | h_matching_connection_upgrade \<Rightarrow>
         value_match UPGRADE c h_matching_connection_token h_connection_upgrade s hs
     | h_matching_connection_token \<Rightarrow>
         if ch = chr_comma
         then Inr (set_parser (\<lambda>parser. parser\<lparr>hp_index := 0\<rparr>) s, h_matching_connection_token_start)
         else Inr (s, hs)
     | h_transfer_encoding_chunked \<Rightarrow> Inr (s, if ch \<noteq> chr_space then h_general else hs)
     | h_connection_keep_alive \<Rightarrow> connection_token_end ch s hs
     | h_connection_close \<Rightarrow> connection_token_end ch s hs
     | h_connection_upgrade \<Rightarrow> connection_token_end ch s hs
     | _ \<Rightarrow> Inr (UPDATE_STATE s_header_value s, h_general))"

lemma header_value_char_p:
  assumes "header_value_char env s hs = Inr (s', hs')" and "hx_p s < length (en_data env)"
    and "hx_ch s = en_data env ! hx_p s" and "hx_ch s \<noteq> CR" and "hx_ch s \<noteq> LF"
  shows "hx_p s \<le> hx_p s'"
proof (cases "hs = h_general")
  case True
  then obtain p where p: "skip_value (en_data env) (en_lenient env)
      (hx_p s + min (length (en_data env) - hx_p s) (unat (en_max_header_size env))) (hx_p s) = Inr p"
      "s' = s\<lparr>hx_p := (if p = length (en_data env) then p - 1 else p)\<rparr>"
    using assms(1) by (auto simp: header_value_char_def Let_def split: sum.splits)
  have "hx_p s \<le> p"
    using skip_value_ge_start [OF p(1)] assms(3-5) by simp
  then show ?thesis using p(2) assms(2) by auto
next
  case False
  have keep: "hx_p s \<le> hx_p s'" if "value_match str c other done s h = Inr (s', hs')" for str c other "done" h
    using that by (auto simp: value_match_def Let_def set_parser_def split: option.splits)
  have num: "hx_p s \<le> hx_p s'" if "content_length_num (hx_ch s) s = Inr (s', hs')"
    using that by (auto simp: content_length_num_def Let_def set_parser_def split: if_splits)
  have tok: "hx_p s \<le> hx_p s'" if "connection_token_end (hx_ch s) s h = Inr (s', hs')" for h
    using that by (auto simp: connection_token_end_def set_parser_def split: if_splits)
  show ?thesis using assms(1) False
    by (cases hs) (auto simp: header_value_char_def Let_def set_parser_def UPDATE_STATE_def
        dest: keep num tok split: if_splits)
qed

text \<open>What follows the loop over a value.\<close>

definition header_value_done :: "'u http_env \<Rightarrow> nat \<Rightarrow> 'u http_exec \<Rightarrow> header_states \<Rightarrow> 'u http_flow" where
  "header_value_done env start s hs =
    (let s = set_parser (\<lambda>parser. parser\<lparr>hp_header_state := hs\<rparr>) s;
         s = (if hx_p s = length (en_data env) then s\<lparr>hx_p := hx_p s - 1\<rparr> else s)
     in COUNT_HEADER_SIZE env (hx_p s - start) s)"

function header_value_loop :: "'u http_env \<Rightarrow> nat \<Rightarrow> 'u http_exec \<Rightarrow> header_states \<Rightarrow> 'u http_flow" where
  "header_value_loop env start s hs =
    (if hx_p s < length (en_data env) then
       let s = s\<lparr>hx_ch := en_data env ! hx_p s\<rparr>; ch = hx_ch s in
       if ch = CR then
         andthen
           (CALLBACK_DATA env For_header_value
             (set_parser (\<lambda>parser. parser\<lparr>hp_header_state := hs\<rparr>) (UPDATE_STATE s_header_almost_done s)))
           (\<lambda>s. header_value_done env start s hs)
       else if ch = LF then
         andthen (COUNT_HEADER_SIZE env (hx_p s - start) (UPDATE_STATE s_header_almost_done s)) (\<lambda>s.
         andthen (CALLBACK_DATA_NOADVANCE env For_header_value
             (set_parser (\<lambda>parser. parser\<lparr>hp_header_state := hs\<rparr>) s)) (\<lambda>s.
         Reexecute s))
       else if \<not> en_lenient env \<and> \<not> IS_HEADER_CHAR ch then fail HPE_INVALID_HEADER_TOKEN s
       else case header_value_char env s hs of
         Inl f \<Rightarrow> f
       | Inr (s, hs) \<Rightarrow> header_value_loop env start (s\<lparr>hx_p := hx_p s + 1\<rparr>) hs
     else header_value_done env start s hs)"
  by pat_completeness auto
termination
proof (relation "measure (\<lambda>(env, start, s, hs). length (en_data env) - hx_p s)", goal_cases)
  case (2 env start s hs x xa y s' hs')
  from 2 have "hx_p (s\<lparr>hx_ch := en_data env ! hx_p s\<rparr>) \<le> hx_p s'"
    by (intro header_value_char_p [of env _ hs s' hs']) auto
  with 2(1) show ?case by auto
qed auto

declare header_value_loop.simps [simp del]

definition case_header_value :: "'u http_env \<Rightarrow> 'u http_exec \<Rightarrow> 'u http_flow" where
  "case_header_value env s = header_value_loop env (hx_p s) s (hp_header_state (hx_parser s))"

definition value_flag :: "header_states \<Rightarrow> byte" where
  "value_flag hs =
    (if hs = h_connection_keep_alive then F_CONNECTION_KEEP_ALIVE
     else if hs = h_connection_close then F_CONNECTION_CLOSE
     else if hs = h_transfer_encoding_chunked then F_CHUNKED
     else if hs = h_connection_upgrade then F_CONNECTION_UPGRADE
     else 0)"

definition add_value_flag :: "'u http_exec \<Rightarrow> 'u http_exec" where
  "add_value_flag s =
     set_parser (\<lambda>parser. parser\<lparr>hp_flags := hp_flags parser OR value_flag (hp_header_state parser)\<rparr>) s"

definition case_header_value_lws :: "'u http_exec \<Rightarrow> 'u http_flow" where
  "case_header_value_lws s =
    (if hx_ch s = chr_space \<or> hx_ch s = chr_tab then
       let s = (if hp_header_state (hx_parser s) = h_content_length_num
                then set_parser (\<lambda>parser. parser\<lparr>hp_header_state := h_content_length_ws\<rparr>) s else s)
       in Reexecute (UPDATE_STATE s_header_value_start s)
     else Reexecute (UPDATE_STATE s_header_field_start (add_value_flag s)))"

definition case_header_value_discard_lws :: "'u http_env \<Rightarrow> 'u http_exec \<Rightarrow> 'u http_flow" where
  "case_header_value_discard_lws env s =
    (if hx_ch s = chr_space \<or> hx_ch s = chr_tab then Next (UPDATE_STATE s_header_value_discard_ws s)
     else if hp_header_state (hx_parser s) = h_content_length then fail HPE_INVALID_CONTENT_LENGTH s
     else
       andthen (CALLBACK_DATA_NOADVANCE env For_header_value
         (UPDATE_STATE s_header_field_start (MARK For_header_value (add_value_flag s))))
         (\<lambda>s. Reexecute s))"

subsection \<open>End of the headers\<close>

text \<open>The call of \<open>on_headers_complete\<close>, which is not one of the macros.\<close>

definition call_headers_complete :: "'u http_env \<Rightarrow> 'u http_exec \<Rightarrow> 'u http_flow" where
  "call_headers_complete env s =
    (case on_headers_complete (en_settings env) of
       None \<Rightarrow> Next s
     | Some on \<Rightarrow>
        (case on (hx_parser s) (hx_user s) of (r, parser, u) \<Rightarrow>
           let s = s\<lparr>hx_parser := parser, hx_user := u\<rparr>;
               skip = set_parser (\<lambda>parser. parser\<lparr>hp_flags := hp_flags parser OR F_SKIPBODY\<rparr>) in
           case r of
             CbThrow \<Rightarrow> Throw s
           | CbReturn n \<Rightarrow>
               if n = 0 then Next s
               else if n = 2 then Next (skip (set_parser (\<lambda>parser. parser\<lparr>hp_upgrade := True\<rparr>) s))
               else if n = 1 then Next (skip s)
               else let s = SET_ERRNO HPE_CB_headers_complete s in RETURN (hx_p s) s))"

definition set_upgrade :: "http_parser \<Rightarrow> http_parser" where
  "set_upgrade parser =
     parser\<lparr>hp_upgrade :=
       (if hp_flags parser AND F_UPGRADE \<noteq> 0 \<and> hp_flags parser AND F_CONNECTION_UPGRADE \<noteq> 0
        then hp_type parser = HTTP_REQUEST \<or> hp_status_code parser = 101
        else hp_method parser = HTTP_CONNECT)\<rparr>"

definition case_headers_almost_done :: "'u http_env \<Rightarrow> 'u http_exec \<Rightarrow> 'u http_flow" where
  "case_headers_almost_done env s =
     andthen (STRICT_CHECK (hx_ch s \<noteq> LF) s) (\<lambda>s.
       if hp_flags (hx_parser s) AND F_TRAILING \<noteq> 0 then
         andthen (CALLBACK_NOTIFY_NOADVANCE (on_chunk_complete (en_settings env)) HPE_CB_chunk_complete
           (UPDATE_STATE s_message_done s)) (\<lambda>s. Reexecute s)
       else if hp_flags (hx_parser s) AND F_CHUNKED \<noteq> 0 \<and> hp_flags (hx_parser s) AND F_CONTENTLENGTH \<noteq> 0
       then fail HPE_UNEXPECTED_CONTENT_LENGTH s
       else
         andthen (call_headers_complete env (set_parser set_upgrade (UPDATE_STATE s_headers_done s))) (\<lambda>s.
           if HTTP_PARSER_ERRNO s \<noteq> HPE_OK then RETURN (hx_p s) s else Reexecute s))"

definition has_body :: "http_parser \<Rightarrow> bool" where
  "has_body parser \<longleftrightarrow> hp_flags parser AND F_CHUNKED \<noteq> 0
     \<or> (hp_content_length parser > 0 \<and> hp_content_length parser \<noteq> ULLONG_MAX)"

definition reset_nread :: "'u http_exec \<Rightarrow> 'u http_exec" where
  "reset_nread s = (set_parser (\<lambda>parser. parser\<lparr>hp_nread := 0\<rparr>) s)\<lparr>hx_nread := 0\<rparr>"

definition new_message :: "'u http_env \<Rightarrow> 'u http_exec \<Rightarrow> 'u http_flow" where
  "new_message env s = notify_message_complete env (UPDATE_STATE (NEW_MESSAGE (hx_parser s)) s)"

definition case_headers_done :: "'u http_env \<Rightarrow> 'u http_exec \<Rightarrow> 'u http_flow" where
  "case_headers_done env s =
     andthen (STRICT_CHECK (hx_ch s \<noteq> LF) s) (\<lambda>s.
       let s = reset_nread s; parser = hx_parser s in
       if hp_upgrade parser
          \<and> (hp_method parser = HTTP_CONNECT \<or> hp_flags parser AND F_SKIPBODY \<noteq> 0 \<or> \<not> has_body parser)
       then andthen (new_message env s) (\<lambda>s. RETURN (hx_p s + 1) s)
       else if hp_flags parser AND F_SKIPBODY \<noteq> 0 then new_message env s
       else if hp_flags parser AND F_CHUNKED \<noteq> 0 then Next (UPDATE_STATE s_chunk_size_start s)
       else if hp_content_length parser = 0 then new_message env s
       else if hp_content_length parser \<noteq> ULLONG_MAX then Next (UPDATE_STATE s_body_identity s)
       else if \<not> http_message_needs_eof parser then new_message env s
       else Next (UPDATE_STATE s_body_identity_eof s))"

subsection \<open>Bodies\<close>

text \<open>\<open>MARK(body)\<close> and the step over the part of the body that is there, for \<open>s_body_identity\<close> and
  \<open>s_chunk_data\<close>.\<close>

definition take_body :: "'u http_env \<Rightarrow> 'u http_exec \<Rightarrow> 'u http_exec" where
  "take_body env s =
    (let to_read = min (unat (hp_content_length (hx_parser s))) (length (en_data env) - hx_p s);
         s = MARK For_body s;
         s = set_parser (\<lambda>parser. parser\<lparr>hp_content_length := hp_content_length parser - of_nat to_read\<rparr>) s
     in s\<lparr>hx_p := hx_p s + to_read - 1\<rparr>)"

definition case_body_identity :: "'u http_env \<Rightarrow> 'u http_exec \<Rightarrow> 'u http_flow" where
  "case_body_identity env s =
     http_assert (hp_content_length (hx_parser s) \<noteq> 0 \<and> hp_content_length (hx_parser s) \<noteq> ULLONG_MAX)
      (let s = take_body env s in
       if hp_content_length (hx_parser s) = 0 then
         andthen (CALLBACK_DATA_ER env For_body (hx_p s + 1) (hx_p s) (UPDATE_STATE s_message_done s))
           (\<lambda>s. Reexecute s)
       else Next s)"

definition case_body_identity_eof :: "'u http_env \<Rightarrow> 'u http_exec \<Rightarrow> 'u http_flow" where
  "case_body_identity_eof env s = Next ((MARK For_body s)\<lparr>hx_p := length (en_data env) - 1\<rparr>)"

definition case_message_done :: "'u http_env \<Rightarrow> 'u http_exec \<Rightarrow> 'u http_flow" where
  "case_message_done env s =
     andthen (new_message env s) (\<lambda>s. if hp_upgrade (hx_parser s) then RETURN (hx_p s + 1) s else Next s)"

subsection \<open>Chunks\<close>

definition chunked :: "'u http_exec \<Rightarrow> bool" where
  "chunked s \<longleftrightarrow> hp_flags (hx_parser s) AND F_CHUNKED \<noteq> 0"

definition case_chunk_size_start :: "'u http_exec \<Rightarrow> 'u http_flow" where
  "case_chunk_size_start s =
     http_assert (hx_nread s = 1 \<and> chunked s)
      (let unhex_val = unhex ! unat (hx_ch s) in
       if unhex_val = -1 then fail HPE_INVALID_CHUNK_SIZE s
       else Next (UPDATE_STATE s_chunk_size
         (set_parser (\<lambda>parser. parser\<lparr>hp_content_length := scast unhex_val\<rparr>) s)))"

definition case_chunk_size :: "'u http_exec \<Rightarrow> 'u http_flow" where
  "case_chunk_size s =
     http_assert (chunked s)
      (let ch = hx_ch s; unhex_val = unhex ! unat ch in
       if ch = CR then Next (UPDATE_STATE s_chunk_size_almost_done s)
       else if unhex_val = -1 then
         (if ch = chr_semicolon \<or> ch = chr_space then Next (UPDATE_STATE s_chunk_parameters s)
          else fail HPE_INVALID_CHUNK_SIZE s)
       else let t = hp_content_length (hx_parser s) * 16 + scast unhex_val in
         if (ULLONG_MAX - 16) div 16 < hp_content_length (hx_parser s) then fail HPE_INVALID_CONTENT_LENGTH s
         else Next (set_parser (\<lambda>parser. parser\<lparr>hp_content_length := t\<rparr>) s))"

definition case_chunk_parameters :: "'u http_exec \<Rightarrow> 'u http_flow" where
  "case_chunk_parameters s =
     http_assert (chunked s)
      (if hx_ch s = CR then Next (UPDATE_STATE s_chunk_size_almost_done s) else Next s)"

definition case_chunk_size_almost_done :: "'u http_env \<Rightarrow> 'u http_exec \<Rightarrow> 'u http_flow" where
  "case_chunk_size_almost_done env s =
     http_assert (chunked s)
      (andthen (STRICT_CHECK (hx_ch s \<noteq> LF) s) (\<lambda>s.
        let s = reset_nread s;
            s = (if hp_content_length (hx_parser s) = 0
                 then UPDATE_STATE s_header_field_start
                        (set_parser (\<lambda>parser. parser\<lparr>hp_flags := hp_flags parser OR F_TRAILING\<rparr>) s)
                 else UPDATE_STATE s_chunk_data s)
        in CALLBACK_NOTIFY (on_chunk_header (en_settings env)) HPE_CB_chunk_header s))"

definition case_chunk_data :: "'u http_env \<Rightarrow> 'u http_exec \<Rightarrow> 'u http_flow" where
  "case_chunk_data env s =
     http_assert (chunked s \<and> hp_content_length (hx_parser s) \<noteq> 0 \<and> hp_content_length (hx_parser s) \<noteq> ULLONG_MAX)
      (let s = take_body env s in
       Next (if hp_content_length (hx_parser s) = 0 then UPDATE_STATE s_chunk_data_almost_done s else s))"

definition case_chunk_data_almost_done :: "'u http_env \<Rightarrow> 'u http_exec \<Rightarrow> 'u http_flow" where
  "case_chunk_data_almost_done env s =
     http_assert (chunked s \<and> hp_content_length (hx_parser s) = 0)
      (andthen (STRICT_CHECK (hx_ch s \<noteq> CR) s) (\<lambda>s.
        CALLBACK_DATA env For_body (UPDATE_STATE s_chunk_data_done s)))"

definition case_chunk_data_done :: "'u http_env \<Rightarrow> 'u http_exec \<Rightarrow> 'u http_flow" where
  "case_chunk_data_done env s =
     http_assert (chunked s)
      (andthen (STRICT_CHECK (hx_ch s \<noteq> LF) s) (\<lambda>s.
        CALLBACK_NOTIFY (on_chunk_complete (en_settings env)) HPE_CB_chunk_complete
          (UPDATE_STATE s_chunk_size_start (reset_nread s))))"

subsection \<open>The switch, the loop and the function\<close>

definition http_switch :: "'u http_env \<Rightarrow> 'u http_exec \<Rightarrow> 'u http_flow" where
  "http_switch env s =
    (case hx_state s of
       s_dead \<Rightarrow> case_dead s
     | s_start_req_or_res \<Rightarrow> case_start_req_or_res env s
     | s_res_or_resp_H \<Rightarrow> case_res_or_resp_H s
     | s_start_res \<Rightarrow> case_start_res env s
     | s_res_H \<Rightarrow> case_strict chr_T s_res_HT s
     | s_res_HT \<Rightarrow> case_strict chr_T s_res_HTT s
     | s_res_HTT \<Rightarrow> case_strict chr_P s_res_HTTP s
     | s_res_HTTP \<Rightarrow> case_strict chr_slash s_res_http_major s
     | s_res_http_major \<Rightarrow> case_http_major s_res_http_dot s
     | s_res_http_dot \<Rightarrow> case_http_dot s_res_http_minor s
     | s_res_http_minor \<Rightarrow> case_http_minor s_res_http_end s
     | s_res_http_end \<Rightarrow> case_res_http_end s
     | s_res_first_status_code \<Rightarrow> case_res_first_status_code s
     | s_res_status_code \<Rightarrow> case_res_status_code s
     | s_res_status_start \<Rightarrow> case_res_status_start s
     | s_res_status \<Rightarrow> case_res_status env s
     | s_res_line_almost_done \<Rightarrow> case_strict LF s_header_field_start s
     | s_start_req \<Rightarrow> case_start_req env s
     | s_req_method \<Rightarrow> case_req_method s
     | s_req_spaces_before_url \<Rightarrow> case_req_spaces_before_url s
     | s_req_schema \<Rightarrow> case_req_schema s
     | s_req_schema_slash \<Rightarrow> case_req_schema s
     | s_req_schema_slash_slash \<Rightarrow> case_req_schema s
     | s_req_server_start \<Rightarrow> case_req_schema s
     | s_req_server \<Rightarrow> case_req_url env s
     | s_req_server_with_at \<Rightarrow> case_req_url env s
     | s_req_path \<Rightarrow> case_req_url env s
     | s_req_query_string_start \<Rightarrow> case_req_url env s
     | s_req_query_string \<Rightarrow> case_req_url env s
     | s_req_fragment_start \<Rightarrow> case_req_url env s
     | s_req_fragment \<Rightarrow> case_req_url env s
     | s_req_http_start \<Rightarrow> case_req_http_start s
     | s_req_http_H \<Rightarrow> case_req_http_letters s
     | s_req_http_HT \<Rightarrow> case_req_http_letters s
     | s_req_http_HTT \<Rightarrow> case_req_http_letters s
     | s_req_http_I \<Rightarrow> case_req_http_letters s
     | s_req_http_IC \<Rightarrow> case_req_http_letters s
     | s_req_http_HTTP \<Rightarrow> case_req_http_letters s
     | s_req_http_major \<Rightarrow> case_req_http_version s
     | s_req_http_dot \<Rightarrow> case_req_http_version s
     | s_req_http_minor \<Rightarrow> case_req_http_version s
     | s_req_http_end \<Rightarrow> case_req_http_end s
     | s_req_line_almost_done \<Rightarrow> case_expect_LF s_header_field_start s
     | s_header_field_start \<Rightarrow> case_header_field_start s
     | s_header_field \<Rightarrow> case_header_field env s
     | s_header_value_discard_ws \<Rightarrow> case_header_value_discard_ws s
     | s_header_value_start \<Rightarrow> case_header_value_start s
     | s_header_value \<Rightarrow> case_header_value env s
     | s_header_almost_done \<Rightarrow> case_expect_LF s_header_value_lws s
     | s_header_value_lws \<Rightarrow> case_header_value_lws s
     | s_header_value_discard_ws_almost_done \<Rightarrow> case_strict LF s_header_value_discard_lws s
     | s_header_value_discard_lws \<Rightarrow> case_header_value_discard_lws env s
     | s_headers_almost_done \<Rightarrow> case_headers_almost_done env s
     | s_headers_done \<Rightarrow> case_headers_done env s
     | s_body_identity \<Rightarrow> case_body_identity env s
     | s_body_identity_eof \<Rightarrow> case_body_identity_eof env s
     | s_message_done \<Rightarrow> case_message_done env s
     | s_chunk_size_start \<Rightarrow> case_chunk_size_start s
     | s_chunk_size \<Rightarrow> case_chunk_size s
     | s_chunk_parameters \<Rightarrow> case_chunk_parameters s
     | s_chunk_size_almost_done \<Rightarrow> case_chunk_size_almost_done env s
     | s_chunk_data \<Rightarrow> case_chunk_data env s
     | s_chunk_data_almost_done \<Rightarrow> case_chunk_data_almost_done env s
     | s_chunk_data_done \<Rightarrow> case_chunk_data_done env s)"

text \<open>The label \<open>reexecute\<close>. A jump that comes back more often than \<open>reexecute_fuel\<close> times counts as a
  fault: the code would loop on one character.\<close>

fun reexecute :: "nat \<Rightarrow> 'u http_env \<Rightarrow> 'u http_exec \<Rightarrow> 'u http_flow" where
  "reexecute 0 env s = Fault"
| "reexecute (Suc n) env s =
    (case http_switch env s of Reexecute s' \<Rightarrow> reexecute n env s' | f \<Rightarrow> f)"

definition reexecute_fuel :: nat where "reexecute_fuel = 8"

definition loop_body :: "'u http_env \<Rightarrow> 'u http_exec \<Rightarrow> 'u http_flow" where
  "loop_body env s =
    (let s = s\<lparr>hx_ch := en_data env ! hx_p s\<rparr> in
     andthen (if PARSING_HEADER (hx_state s) then COUNT_HEADER_SIZE env 1 s else Next s)
       (reexecute reexecute_fuel env))"

text \<open>The \<open>for\<close> loop. A pass ends at or behind the position it began with, so the \<open>len\<close> passes that the
  function allows itself are enough; running out of them is a fault.\<close>

fun http_loop :: "nat \<Rightarrow> 'u http_env \<Rightarrow> 'u http_exec \<Rightarrow> 'u http_flow" where
  "http_loop n env s =
    (if hx_p s = length (en_data env) then Next s
     else if length (en_data env) < hx_p s then Fault
     else case n of 0 \<Rightarrow> Fault
       | Suc n' \<Rightarrow> andthen (loop_body env s) (\<lambda>s. http_loop n' env (s\<lparr>hx_p := hx_p s + 1\<rparr>)))"

declare http_loop.simps [simp del]

definition url_state :: "state \<Rightarrow> bool" where
  "url_state st \<longleftrightarrow> st \<in> {s_req_path, s_req_schema, s_req_schema_slash, s_req_schema_slash_slash,
     s_req_server_start, s_req_server, s_req_server_with_at, s_req_query_string_start,
     s_req_query_string, s_req_fragment_start, s_req_fragment}"

text \<open>The marks a call starts with.\<close>

definition start_mark :: "state \<Rightarrow> data_for \<Rightarrow> nat option" where
  "start_mark st for = (case for of
     For_header_field \<Rightarrow> if st = s_header_field then Some 0 else None
   | For_header_value \<Rightarrow> if st = s_header_value then Some 0 else None
   | For_url \<Rightarrow> if url_state st then Some 0 else None
   | For_body \<Rightarrow> None
   | For_status \<Rightarrow> if st = s_res_status then Some 0 else None)"

definition marks_set :: "'u http_exec \<Rightarrow> nat" where
  "marks_set s = length (List.filter (\<lambda>for. hx_mark s for \<noteq> None)
     [For_header_field, For_header_value, For_url, For_body, For_status])"

definition leftover_callbacks :: "'u http_env \<Rightarrow> 'u http_exec \<Rightarrow> 'u http_flow" where
  "leftover_callbacks env s =
     http_assert (marks_set s \<le> 1)
      (andthen (CALLBACK_DATA_NOADVANCE env For_header_field s) (\<lambda>s.
       andthen (CALLBACK_DATA_NOADVANCE env For_header_value s) (\<lambda>s.
       andthen (CALLBACK_DATA_NOADVANCE env For_url s) (\<lambda>s.
       andthen (CALLBACK_DATA_NOADVANCE env For_body s) (\<lambda>s.
       CALLBACK_DATA_NOADVANCE env For_status s)))))"

definition execute_eof :: "'u http_env \<Rightarrow> 'u http_exec \<Rightarrow> 'u http_flow" where
  "execute_eof env s =
    (case hx_state s of
       s_body_identity_eof \<Rightarrow>
         andthen (CALLBACK_NOTIFY_NOADVANCE (on_message_complete (en_settings env)) HPE_CB_message_complete s)
           (\<lambda>s. Return 0 s)
     | s_dead \<Rightarrow> Return 0 s
     | s_start_req_or_res \<Rightarrow> Return 0 s
     | s_start_res \<Rightarrow> Return 0 s
     | s_start_req \<Rightarrow> Return 0 s
     | _ \<Rightarrow> Return 1 (SET_ERRNO HPE_INVALID_EOF_STATE s))"

definition http_parser_flow :: "'u http_env \<Rightarrow> http_parser \<Rightarrow> 'u \<Rightarrow> 'u http_flow" where
  "http_parser_flow env parser u =
    (let s = \<lparr>hx_parser = parser, hx_user = u, hx_p = 0, hx_ch = 0, hx_state = hp_state parser,
              hx_nread = hp_nread parser, hx_mark = (\<lambda>_. None)\<rparr> in
     if HTTP_PARSER_ERRNO s \<noteq> HPE_OK then Return 0 s
     else if length (en_data env) = 0 then execute_eof env s
     else
       andthen (http_loop (length (en_data env)) env (s\<lparr>hx_mark := start_mark (hx_state s)\<rparr>)) (\<lambda>s.
       andthen (leftover_callbacks env s) (\<lambda>s.
       RETURN (length (en_data env)) s)))"

text \<open>The result of a call: the number of bytes parsed, the parser and the owner's state; an exception
  of a callback; a fault of the code.\<close>

datatype 'u http_result = Parsed nat http_parser 'u | Threw http_parser 'u | Faulted

definition http_parser_execute ::
  "u32 \<Rightarrow> 'u http_parser_settings \<Rightarrow> byte list \<Rightarrow> http_parser \<Rightarrow> 'u \<Rightarrow> 'u http_result" where
  "http_parser_execute max_header_size settings dat parser u =
    (case http_parser_flow \<lparr>en_settings = settings, en_data = dat, en_max_header_size = max_header_size,
             en_lenient = hp_lenient_http_headers parser\<rparr> parser u of
       Next s \<Rightarrow> Faulted
     | Reexecute s \<Rightarrow> Faulted
     | Return n s \<Rightarrow> Parsed n (hx_parser s) (hx_user s)
     | Throw s \<Rightarrow> Threw (hx_parser s) (hx_user s)
     | Fault \<Rightarrow> Faulted)"

end
