(* ===== verification/HTTP_Safe.thy ===== *)
theory HTTP_Safe imports HTTP_Parser begin

text \<open>
  Safety of \<open>http_parser_execute\<close>: for callbacks that leave the parser alone (they may pause it), no
  assertion of the function fails, no table or string is read outside of its bounds, every
  \<open>reexecute\<close> chain and every loop ends, a mark never points behind the data, and the header counter
  stays within \<open>max_header_size\<close>. The invariant gives, per state, what the code of that state relies on.
\<close>

subsection \<open>What holds after a piece of code\<close>

fun flow_all :: "('u http_exec \<Rightarrow> bool) \<Rightarrow> ('u http_exec \<Rightarrow> bool) \<Rightarrow> (nat \<Rightarrow> 'u http_exec \<Rightarrow> bool) \<Rightarrow>
    'u http_flow \<Rightarrow> bool" where
  "flow_all N R L (Next s) = N s"
| "flow_all N R L (Reexecute s) = R s"
| "flow_all N R L (Return n s) = L n s"
| "flow_all N R L (Throw s) = True"
| "flow_all N R L Fault = False"

lemma flow_all_andthen [simp]:
  "flow_all N R L (andthen m f) = flow_all (\<lambda>s. flow_all N R L (f s)) R L m"
  by (cases m) auto

lemma flow_andthenI: "flow_all (\<lambda>s. flow_all N R L (f s)) R L m \<Longrightarrow> flow_all N R L (andthen m f)"
  by simp

lemma flow_all_assert [simp]: "flow_all N R L (http_assert b f) \<longleftrightarrow> b \<and> flow_all N R L f"
  by (simp add: http_assert_def)

lemma flow_all_mono:
  assumes "flow_all N R L f" and "\<And>s. N s \<Longrightarrow> N' s" and "\<And>s. R s \<Longrightarrow> R' s" and "\<And>n s. L n s \<Longrightarrow> L' n s"
  shows "flow_all N' R' L' f"
  using assms by (cases f) auto

subsection \<open>The invariant\<close>

text \<open>Header states that the loop over a field name has a case for.\<close>

definition field_state :: "header_states \<Rightarrow> bool" where
  "field_state hs \<longleftrightarrow> hs \<in> {h_general, h_C, h_CO, h_CON, h_matching_connection,
     h_matching_proxy_connection, h_matching_content_length, h_matching_transfer_encoding,
     h_matching_upgrade, h_connection, h_content_length, h_transfer_encoding, h_upgrade}"

definition is_chunked :: "http_parser \<Rightarrow> bool" where
  "is_chunked parser \<longleftrightarrow> hp_flags parser AND F_CHUNKED \<noteq> 0"

text \<open>What a state relies on. \<open>k\<close> is the value \<open>nread\<close> has at the start of a chunk size: 0 before the
  character is counted, 1 after.\<close>

definition state_ok :: "u32 \<Rightarrow> state \<Rightarrow> u32 \<Rightarrow> http_parser \<Rightarrow> bool" where
  "state_ok k st nread parser =
    (case st of
       s_req_method \<Rightarrow> (case method_strings (hp_method parser) of None \<Rightarrow> False
                          | Some str \<Rightarrow> unat (hp_index parser) \<le> length str)
     | s_header_field \<Rightarrow> field_state (hp_header_state parser)
     | s_header_value \<Rightarrow> hp_header_state parser \<noteq> h_connection \<and> hp_header_state parser \<noteq> h_transfer_encoding
     | s_chunk_size_start \<Rightarrow> nread = k \<and> is_chunked parser
     | s_chunk_size \<Rightarrow> is_chunked parser \<and> hp_content_length parser \<noteq> ULLONG_MAX
     | s_chunk_parameters \<Rightarrow> is_chunked parser \<and> hp_content_length parser \<noteq> ULLONG_MAX
     | s_chunk_size_almost_done \<Rightarrow> is_chunked parser \<and> hp_content_length parser \<noteq> ULLONG_MAX
     | s_chunk_data \<Rightarrow> is_chunked parser \<and> hp_content_length parser \<noteq> 0 \<and> hp_content_length parser \<noteq> ULLONG_MAX
     | s_chunk_data_almost_done \<Rightarrow> is_chunked parser \<and> hp_content_length parser = 0
     | s_chunk_data_done \<Rightarrow> is_chunked parser
     | s_body_identity \<Rightarrow> hp_content_length parser \<noteq> 0 \<and> hp_content_length parser \<noteq> ULLONG_MAX
     | _ \<Rightarrow> True)"

text \<open>A parser between two calls.\<close>

definition parser_ok :: "u32 \<Rightarrow> http_parser \<Rightarrow> bool" where
  "parser_ok max_header_size parser \<longleftrightarrow>
     (hp_http_errno parser = HPE_OK \<or> hp_http_errno parser = HPE_PAUSED \<longrightarrow>
        state_ok 0 (hp_state parser) (hp_nread parser) parser \<and> hp_nread parser \<le> max_header_size)"

text \<open>The state in which a mark may be set.\<close>

fun mark_state :: "data_for \<Rightarrow> state \<Rightarrow> bool" where
  "mark_state For_header_field st = (st = s_header_field)"
| "mark_state For_header_value st = (st = s_header_value)"
| "mark_state For_url st = url_state st"
| "mark_state For_status st = (st = s_res_status)"
| "mark_state For_body st =
    (st = s_body_identity \<or> st = s_body_identity_eof \<or> st = s_chunk_data \<or> st = s_chunk_data_almost_done)"

definition marks_ok :: "state \<Rightarrow> nat \<Rightarrow> (data_for \<Rightarrow> nat option) \<Rightarrow> bool" where
  "marks_ok st q mark \<longleftrightarrow> (\<forall>ev m. mark ev = Some m \<longrightarrow> m \<le> q \<and> mark_state ev st)"

lemma marks_ok_None [simp]: "marks_ok st q (\<lambda>_. None)"
  by (simp add: marks_ok_def)

lemma marks_ok_mono: "marks_ok st q mark \<Longrightarrow> q \<le> r \<Longrightarrow> marks_ok st r mark"
  unfolding marks_ok_def using le_trans by blast

lemma marks_ok_clear:
  "marks_ok st q mark \<Longrightarrow> (\<And>ev2. mark_state ev2 st \<Longrightarrow> ev2 = ev) \<Longrightarrow> mark(ev := None) = (\<lambda>_. None)"
  unfolding marks_ok_def by (rule ext) (metis fun_upd_apply not_None_eq)

lemma marks_ok_set: "m \<le> q \<Longrightarrow> mark_state ev st \<Longrightarrow> marks_ok st q ((\<lambda>_. None)(ev := Some m))"
  by (simp add: marks_ok_def)

definition plain :: "state \<Rightarrow> bool" where
  "plain st \<longleftrightarrow> (\<forall>ev. \<not> mark_state ev st)"

lemma plain_marks: "plain st \<Longrightarrow> marks_ok st q mark \<longleftrightarrow> mark = (\<lambda>_. None)"
  unfolding plain_def marks_ok_def by (metis (full_types) not_None_eq)

lemma plain_iff: "plain st \<longleftrightarrow> \<not> mark_state For_header_field st \<and> \<not> mark_state For_header_value st
    \<and> \<not> mark_state For_url st \<and> \<not> mark_state For_status st \<and> \<not> mark_state For_body st"
  unfolding plain_def by (metis data_for.exhaust)

lemmas plain_simps = plain_iff mark_state.simps url_state_def

text \<open>The invariant of a call at position \<open>q\<close>, in the middle of the switch (\<open>k = 1\<close>) or between
  two passes of the loop (\<open>k = 0\<close>).\<close>

definition exec_ok :: "'u http_env \<Rightarrow> u32 \<Rightarrow> nat \<Rightarrow> 'u http_exec \<Rightarrow> bool" where
  "exec_ok env k q s \<longleftrightarrow> hp_http_errno (hx_parser s) = HPE_OK
     \<and> hx_nread s \<le> en_max_header_size env \<and> hp_nread (hx_parser s) \<le> en_max_header_size env
     \<and> state_ok k (hx_state s) (hx_nread s) (hx_parser s) \<and> marks_ok (hx_state s) q (hx_mark s)"

lemma exec_ok_p [simp]: "exec_ok env k q (s\<lparr>hx_p := x\<rparr>) = exec_ok env k q s"
  by (simp add: exec_ok_def)

definition switch_ok :: "'u http_env \<Rightarrow> 'u http_exec \<Rightarrow> bool" where
  "switch_ok env s \<longleftrightarrow> hx_p s < length (en_data env) \<and> exec_ok env 1 (hx_p s) s"

definition rank :: "state \<Rightarrow> nat" where
  "rank st = (case st of s_start_req_or_res \<Rightarrow> 1 | s_res_status_code \<Rightarrow> 2 | s_res_status_start \<Rightarrow> 1
     | s_header_value \<Rightarrow> 1 | s_header_value_lws \<Rightarrow> 3 | s_header_value_discard_lws \<Rightarrow> 3
     | s_header_field_start \<Rightarrow> 2 | s_headers_almost_done \<Rightarrow> 1 | s_body_identity \<Rightarrow> 1 | _ \<Rightarrow> 0)"

definition next_ok :: "'u http_env \<Rightarrow> nat \<Rightarrow> 'u http_exec \<Rightarrow> bool" where
  "next_ok env p s \<longleftrightarrow> p \<le> hx_p s \<and> hx_p s < length (en_data env) \<and> exec_ok env 0 (hx_p s + 1) s"

definition again_ok :: "'u http_env \<Rightarrow> nat \<Rightarrow> nat \<Rightarrow> 'u http_exec \<Rightarrow> bool" where
  "again_ok env p r s \<longleftrightarrow> p \<le> hx_p s \<and> switch_ok env s \<and> rank (hx_state s) < r"

definition at_end :: "'u http_env \<Rightarrow> 'u http_exec \<Rightarrow> bool" where
  "at_end env s \<longleftrightarrow> hx_p s = length (en_data env) \<and> exec_ok env 0 (hx_p s) s"

definition leave_ok :: "'u http_env \<Rightarrow> nat \<Rightarrow> 'u http_exec \<Rightarrow> bool" where
  "leave_ok env n s \<longleftrightarrow> n \<le> length (en_data env) \<and> parser_ok (en_max_header_size env) (hx_parser s)"

abbreviation step_ok :: "'u http_env \<Rightarrow> 'u http_exec \<Rightarrow> 'u http_flow \<Rightarrow> bool" where
  "step_ok env s \<equiv> flow_all (next_ok env (hx_p s)) (again_ok env (hx_p s) (rank (hx_state s))) (leave_ok env)"

subsection \<open>The macros\<close>

lemmas exec_defs = set_parser_def UPDATE_STATE_def

lemma flow_all_fail:
  assumes "e \<noteq> HPE_OK" and "e \<noteq> HPE_PAUSED" and "hx_p s \<le> length (en_data env)"
  shows "flow_all N R (leave_ok env) (fail e s)"
  using assms by (simp add: fail_def goto_error_def RETURN_def SET_ERRNO_def HTTP_PARSER_ERRNO_def
      exec_defs leave_ok_def parser_ok_def Let_def)

lemma flow_all_strict:
  assumes "hx_p s \<le> length (en_data env)" and "\<not> cond \<Longrightarrow> N s"
  shows "flow_all N R (leave_ok env) (STRICT_CHECK cond s)"
  using assms by (simp add: STRICT_CHECK_def flow_all_fail)

lemma flow_all_count:
  assumes "hx_p s \<le> length (en_data env)"
    and "hx_nread s + of_nat v \<le> en_max_header_size env \<Longrightarrow> N (s\<lparr>hx_nread := hx_nread s + of_nat v\<rparr>)"
  shows "flow_all N R (leave_ok env) (COUNT_HEADER_SIZE env v s)"
  using assms by (auto simp: COUNT_HEADER_SIZE_def Let_def flow_all_fail)

text \<open>A callback that may pause the parser and leaves it alone otherwise.\<close>

definition calm :: "cb_result \<times> http_parser \<times> 'u \<Rightarrow> http_parser \<Rightarrow> bool" where
  "calm res parser \<longleftrightarrow> (case res of (r, parser', u) \<Rightarrow>
     parser' = parser \<or> parser' = parser\<lparr>hp_http_errno := HPE_PAUSED\<rparr>)"

definition calm_cb :: "'u http_cb option \<Rightarrow> bool" where
  "calm_cb cb \<longleftrightarrow> (\<forall>on parser u. cb = Some on \<longrightarrow> calm (on parser u) parser)"

definition calm_data_cb :: "'u http_data_cb option \<Rightarrow> bool" where
  "calm_data_cb cb \<longleftrightarrow> (\<forall>on parser dat u. cb = Some on \<longrightarrow> calm (on parser dat u) parser)"

definition calm_settings :: "'u http_parser_settings \<Rightarrow> bool" where
  "calm_settings settings \<longleftrightarrow> calm_cb (on_message_begin settings) \<and> calm_data_cb (on_url settings)
     \<and> calm_data_cb (on_status settings) \<and> calm_data_cb (on_header_field settings)
     \<and> calm_data_cb (on_header_value settings) \<and> calm_cb (on_headers_complete settings)
     \<and> calm_data_cb (on_body settings) \<and> calm_cb (on_message_complete settings)
     \<and> calm_cb (on_chunk_header settings) \<and> calm_cb (on_chunk_complete settings)"

lemma state_ok_cong [simp]:
  "state_ok k st nread (parser\<lparr>hp_state := x\<rparr>) = state_ok k st nread parser"
  "state_ok k st nread (parser\<lparr>hp_http_errno := e\<rparr>) = state_ok k st nread parser"
  "state_ok k st nread (parser\<lparr>hp_nread := m\<rparr>) = state_ok k st nread parser"
  by (simp_all add: state_ok_def is_chunked_def split: state.split option.split)

lemma callback_result_paused:
  assumes "calm res (hx_parser s)" and "hp_state (hx_parser s) = hx_state s"
    and "hp_http_errno (hx_parser s) = HPE_OK" and "err \<noteq> HPE_OK" and "err \<noteq> HPE_PAUSED"
    and "hp_nread (hx_parser s) \<le> en_max_header_size env"
    and "state_ok 0 (hx_state s) (hp_nread (hx_parser s)) (hx_parser s)"
    and "\<And>u. N (s\<lparr>hx_user := u\<rparr>)"
  shows "flow_all N R (\<lambda>n s. n = er \<and> parser_ok (en_max_header_size env) (hx_parser s)) (callback_result err er res s)"
proof -
  obtain r parser u where res: "res = (r, parser, u)" by (cases res) auto
  have "parser = hx_parser s \<or> parser = (hx_parser s)\<lparr>hp_http_errno := HPE_PAUSED\<rparr>"
    using assms(1) by (simp add: calm_def res)
  then show ?thesis
    using assms by (cases r) (auto simp: res callback_result_def Let_def SET_ERRNO_def HTTP_PARSER_ERRNO_def
        exec_defs parser_ok_def)
qed

lemma leave_okI:
  assumes "flow_all N R (\<lambda>n s. n = er \<and> parser_ok (en_max_header_size env) (hx_parser s)) f"
    and "er \<le> length (en_data env)"
  shows "flow_all N R (leave_ok env) f"
  using assms by (auto simp: leave_ok_def elim!: flow_all_mono)

lemmas callback_result_ok = leave_okI [OF callback_result_paused]

text \<open>The post-condition of the macros: the parser, its saved state apart, is as before.\<close>

definition called :: "('u http_exec \<Rightarrow> bool) \<Rightarrow> 'u http_exec \<Rightarrow> bool" where
  "called N s \<longleftrightarrow> (\<forall>x u. x = hx_state s \<or> x = hp_state (hx_parser s) \<longrightarrow>
     N (s\<lparr>hx_parser := (hx_parser s)\<lparr>hp_state := x\<rparr>, hx_user := u\<rparr>))"

definition call_ok :: "'u http_env \<Rightarrow> 'u http_exec \<Rightarrow> bool" where
  "call_ok env s \<longleftrightarrow> hp_http_errno (hx_parser s) = HPE_OK
     \<and> hp_nread (hx_parser s) \<le> en_max_header_size env
     \<and> state_ok 0 (hx_state s) (hp_nread (hx_parser s)) (hx_parser s)"

lemma calledD: "called N s \<Longrightarrow> N s"
  unfolding called_def by (drule spec [of _ "hp_state (hx_parser s)"], drule spec [of _ "hx_user s"]) simp

lemma notify_paused:
  assumes "calm_cb cb" and "err \<noteq> HPE_OK" and "err \<noteq> HPE_PAUSED"
    and "call_ok env s" and "called N s"
  shows "flow_all N R (\<lambda>n s. n = er \<and> parser_ok (en_max_header_size env) (hx_parser s)) (CALLBACK_NOTIFY_ER cb err er s)"
proof (cases cb)
  case None
  then show ?thesis using assms calledD [OF assms(5)]
    by (simp add: CALLBACK_NOTIFY_ER_def HTTP_PARSER_ERRNO_def call_ok_def)
next
  case (Some on)
  have "N (save_state s\<lparr>hx_user := u\<rparr>)" for u
    using assms(5) by (simp add: called_def save_state_def exec_defs)
  then show ?thesis using assms(1-4) Some
    by (auto simp: CALLBACK_NOTIFY_ER_def HTTP_PARSER_ERRNO_def Let_def call_ok_def calm_cb_def
        save_state_def exec_defs intro!: callback_result_paused)
qed

lemmas notify_ok = leave_okI [OF notify_paused]

lemma data_errno_ok [simp]: "data_errno ev \<noteq> HPE_OK" "data_errno ev \<noteq> HPE_PAUSED"
  by (cases ev; simp)+

lemma calm_data [simp]: "calm_settings settings \<Longrightarrow> calm_data_cb (data_cb settings ev)"
  by (cases ev) (simp_all add: calm_settings_def)

lemma data_ok:
  assumes "calm_settings (en_settings env)" and "er \<le> length (en_data env)" and "stop \<le> length (en_data env)"
    and "\<And>m. hx_mark s ev = Some m \<Longrightarrow> m \<le> stop"
    and "call_ok env s" and "called (\<lambda>s'. N (s'\<lparr>hx_mark := (hx_mark s)(ev := None)\<rparr>)) s"
  shows "flow_all N R (leave_ok env) (CALLBACK_DATA_ER env ev stop er s)"
proof (cases "hx_mark s ev")
  case None
  then have "(hx_mark s)(ev := None) = hx_mark s" by (simp add: fun_upd_idem)
  then show ?thesis using assms None calledD [OF assms(6)]
    by (simp add: CALLBACK_DATA_ER_def HTTP_PARSER_ERRNO_def call_ok_def)
next
  case (Some m)
  show ?thesis
  proof (cases "data_cb (en_settings env) ev")
    case None
    then show ?thesis using assms Some calledD [OF assms(6)]
      by (simp add: CALLBACK_DATA_ER_def HTTP_PARSER_ERRNO_def call_ok_def)
  next
    case (Some on)
    have c: "calm (on parser dat u) parser" for parser dat u
      using calm_data [OF assms(1), of ev] Some by (simp add: calm_data_cb_def)
    have N: "N (save_state s\<lparr>hx_user := u, hx_mark := (hx_mark s)(ev := None)\<rparr>)" for u
      using assms(6) by (simp add: called_def save_state_def exec_defs)
    have m: "m \<le> stop" using assms(4) \<open>hx_mark s ev = Some m\<close> by blast
    have "flow_all (\<lambda>s. N (s\<lparr>hx_mark := (hx_mark s)(ev := None)\<rparr>)) R (leave_ok env)
        (callback_result (data_errno ev) er
          (on (hx_parser (save_state s)) (take (stop - m) (drop m (en_data env))) (hx_user (save_state s)))
          (save_state s))"
      using assms(2,5) N
      by (intro callback_result_ok c) (auto simp: call_ok_def save_state_def exec_defs)
    then show ?thesis using assms m \<open>hx_mark s ev = Some m\<close> Some
      by (simp add: CALLBACK_DATA_ER_def HTTP_PARSER_ERRNO_def call_ok_def Let_def)
  qed
qed

subsection \<open>The cases of the switch\<close>

lemma switch_okD:
  assumes "switch_ok env s"
  shows "hx_p s < length (en_data env)" and "hx_p s \<le> length (en_data env)"
    and "Suc (hx_p s) \<le> length (en_data env)"
    and "hp_http_errno (hx_parser s) = HPE_OK" and "hx_nread s \<le> en_max_header_size env"
    and "hp_nread (hx_parser s) \<le> en_max_header_size env"
    and "state_ok 1 (hx_state s) (hx_nread s) (hx_parser s)" and "marks_ok (hx_state s) (hx_p s) (hx_mark s)"
  using assms by (auto simp: switch_ok_def exec_ok_def)

lemma switch_plain:
  assumes "switch_ok env s" and "plain (hx_state s)" shows "hx_mark s = (\<lambda>_. None)"
  using switch_okD(8) [OF assms(1)] assms(2) by (simp add: plain_marks)

named_theorems case_defs \<open>the cases that have no callback\<close>

lemmas [case_defs] = case_dead_def case_res_or_resp_H_def case_strict_def
  case_http_major_def case_http_dot_def case_http_minor_def case_res_http_end_def
  case_res_first_status_code_def case_res_status_code_def case_req_http_letters_def
  case_req_http_version_def case_req_http_start_def case_req_http_end_def case_expect_LF_def

lemmas ok_defs = next_ok_def again_ok_def switch_ok_def exec_ok_def state_ok_def plain_marks plain_simps rank_def

text \<open>The states whose case changes neither marks nor the parts of the parser that \<open>state_ok\<close> reads.\<close>

definition simple_state :: "state \<Rightarrow> bool" where
  "simple_state st \<longleftrightarrow> st \<in> {s_dead, s_res_or_resp_H, s_res_H, s_res_HT, s_res_HTT, s_res_HTTP,
     s_res_http_major, s_res_http_dot, s_res_http_minor, s_res_http_end, s_res_first_status_code,
     s_res_status_code, s_res_line_almost_done, s_req_http_start, s_req_http_H, s_req_http_HT,
     s_req_http_HTT, s_req_http_HTTP, s_req_http_I, s_req_http_IC, s_req_http_major, s_req_http_dot,
     s_req_http_minor, s_req_http_end, s_req_line_almost_done, s_header_almost_done,
     s_header_value_discard_ws_almost_done}"

lemma simple_state_plain: "simple_state st \<Longrightarrow> plain st"
  by (auto simp: simple_state_def plain_simps)

lemma simple_ok:
  assumes "switch_ok env s" and "simple_state (hx_state s)"
  shows "step_ok env s (http_switch env s)"
proof -
  note mark = switch_plain [OF assms(1) simple_state_plain [OF assms(2)]]
  show ?thesis
    using switch_okD(1-6) [OF assms(1)] mark assms(2)
    unfolding simple_state_def insert_iff empty_iff
    by (elim disjE FalseE)
      (auto simp: http_switch_def case_defs flow_all_fail exec_defs ok_defs Let_def intro!: flow_all_strict)
qed

lemma url_char_states:
  "parse_url_char st ch = s_dead \<or> url_state (parse_url_char st ch)"
  by (cases st) (simp_all add: parse_url_char_def url_state_def)

lemma url_state_cases: "url_state st \<Longrightarrow> state_ok k st nread parser"
  by (auto simp: url_state_def state_ok_def)

lemma url_mark: "url_state st \<Longrightarrow> mark_state ev st \<longleftrightarrow> ev = For_url"
  by (cases ev) (auto simp: url_state_def)

lemma url_state_path [simp]: "url_state s_req_path" by (simp add: url_state_def)

lemma marks_url: "url_state st \<Longrightarrow> url_state st' \<Longrightarrow> marks_ok st q mark \<Longrightarrow> marks_ok st' q mark"
  unfolding marks_ok_def by (simp add: url_mark)

lemma url_step_ok:
  assumes "switch_ok env s" and "marks_ok s_req_path (hx_p s) (hx_mark s)"
  shows "flow_all (next_ok env (hx_p s)) R (leave_ok env) (url_step (s\<lparr>hx_state := st\<rparr>))"
proof -
  have "marks_ok st' (Suc (hx_p s)) (hx_mark s)" if "url_state st'" for st'
    using marks_url [OF url_state_path that assms(2)] by (rule marks_ok_mono) simp
  then show ?thesis
    using switch_okD(1-6) [OF assms(1)] url_char_states [of st "hx_ch s"]
    by (auto simp: url_step_def exec_defs Let_def next_ok_def exec_ok_def url_state_cases intro!: flow_all_fail)
qed

lemma marks_MARK:
  "hx_mark s = (\<lambda>_. None) \<Longrightarrow> MARK ev s = s\<lparr>hx_mark := (\<lambda>_. None)(ev := Some (hx_p s))\<rparr>"
  by (simp add: MARK_def)

lemma spaces_before_url_ok:
  assumes "switch_ok env s" and "hx_state s = s_req_spaces_before_url"
  shows "step_ok env s (http_switch env s)"
proof -
  have mark: "hx_mark s = (\<lambda>_. None)" using switch_plain [OF assms(1)] assms(2) by (simp add: plain_simps)
  have ok: "switch_ok env s'" if "s' = MARK ev (s\<lparr>hx_state := s_req_path\<rparr>)" "mark_state ev s_req_path" for s' ev
    using switch_okD(1-6) [OF assms(1)] mark that
    by (simp add: MARK_def switch_ok_def exec_ok_def state_ok_def marks_ok_set)
  note step = url_step_ok [of env "MARK For_url (s\<lparr>hx_state := s_req_path\<rparr>)" "again_ok env (hx_p s) (rank (hx_state s))"]
  have "step_ok env s (url_step (s\<lparr>hx_mark := (\<lambda>_. None)(For_url := Some (hx_p s)), hx_state := st\<rparr>))"
    for st
    using step [of st] ok [OF refl, of For_url] mark by (simp add: MARK_def marks_ok_set)
  note url_ok = this
  have keep: "s\<lparr>hx_mark := x, hx_state := s_req_spaces_before_url\<rparr> = s\<lparr>hx_mark := x\<rparr>" for x
    using assms(2) by (cases s) simp
  note url = url_ok [of s_req_server_start] url_ok [of s_req_spaces_before_url, unfolded keep]
  show ?thesis
    using url switch_okD(1-6) [OF assms(1)] mark assms(2)
    by (auto simp: http_switch_def case_req_spaces_before_url_def marks_MARK exec_defs ok_defs Let_def)
qed

lemma req_schema_ok:
  assumes "switch_ok env s"
    and "hx_state s \<in> {s_req_schema, s_req_schema_slash, s_req_schema_slash_slash, s_req_server_start}"
  shows "step_ok env s (http_switch env s)"
proof -
  have u: "url_state (hx_state s)" using assms(2) by (auto simp: url_state_def)
  have "step_ok env s (url_step (s\<lparr>hx_state := hx_state s\<rparr>))"
    by (intro url_step_ok assms(1) marks_url [OF u url_state_path] switch_okD [OF assms(1)])
  then have "step_ok env s (case_req_schema s)"
    using switch_okD(2) [OF assms(1)] by (simp add: case_req_schema_def flow_all_fail)
  then show ?thesis using assms(2) by (auto simp: http_switch_def)
qed

lemma ascii_length [simp]: "length (ascii s) = length s"
  by (simp add: ascii_def)

lemma method_switch_ok:
  assumes "method_switch m pos ch = Some m'"
  obtains str where "method_strings m' = Some str" and "unat (pos + 1) \<le> length str"
  using assms that by (auto simp: method_switch_def split: if_splits)

lemma method_length: "method_strings m = Some str \<Longrightarrow> length str \<le> 11"
  by (cases m) auto

lemma matcher_step:
  assumes "method_strings m = Some str" and "unat i \<le> length str"
  obtains mc where "matcher_char m i = Some mc" and "mc \<noteq> 0 \<Longrightarrow> unat (i + 1) \<le> length str"
proof -
  have "unat (i + 1) = unat i + 1"
    using method_length [OF assms(1)] assms(2) by (intro trans [OF unat_add_small]) auto
  then show ?thesis
    using assms that [of "ascii str ! unat i"] that [of 0]
    by (cases "unat i < length str") (simp_all add: matcher_char_def c_char_at_def)
qed

lemma req_method_ok:
  assumes "switch_ok env s" and "hx_state s = s_req_method"
  shows "step_ok env s (http_switch env s)"
proof -
  have mark: "hx_mark s = (\<lambda>_. None)" using switch_plain [OF assms(1)] assms(2) by (simp add: plain_simps)
  obtain str where str: "method_strings (hp_method (hx_parser s)) = Some str"
      "unat (hp_index (hx_parser s)) \<le> length str"
    using switch_okD(7) [OF assms(1)] assms(2) by (auto simp: state_ok_def split: option.splits)
  obtain mc where mc: "matcher_char (hp_method (hx_parser s)) (hp_index (hx_parser s)) = Some mc"
      "mc \<noteq> 0 \<Longrightarrow> unat (hp_index (hx_parser s) + 1) \<le> length str"
    using matcher_step [OF str] by blast
  show ?thesis
    using switch_okD(1-6) [OF assms(1)] mark assms(2) str mc
    by (auto simp: http_switch_def case_req_method_def exec_defs ok_defs Let_def
        split: option.split elim!: method_switch_ok intro!: flow_all_fail)
qed

lemma header_field_start_ok:
  assumes "switch_ok env s" and "hx_state s = s_header_field_start"
  shows "step_ok env s (http_switch env s)"
proof -
  have mark: "hx_mark s = (\<lambda>_. None)" using switch_plain [OF assms(1)] assms(2) by (simp add: plain_simps)
  show ?thesis
    using switch_okD(1-6) [OF assms(1)] mark assms(2)
    by (auto simp: http_switch_def case_header_field_start_def marks_MARK exec_defs ok_defs Let_def
        field_state_def intro!: flow_all_fail marks_ok_set)
qed

lemma header_value_start_ok:
  assumes "switch_ok env s" and "hx_state s = s_header_value_start \<or> hx_state s = s_header_value_discard_ws"
  shows "step_ok env s (case_header_value_start s)"
proof -
  have mark: "hx_mark s = (\<lambda>_. None)" using switch_plain [OF assms(1)] assms(2) by (auto simp: plain_simps)
  show ?thesis
    using switch_okD(1-6) [OF assms(1)] mark
    by (cases "hp_header_state (hx_parser s)")
      (simp_all add: case_header_value_start_def marks_MARK exec_defs ok_defs Let_def marks_ok_set flow_all_fail)
qed

lemma header_value_discard_ws_ok:
  assumes "switch_ok env s" and "hx_state s = s_header_value_discard_ws"
  shows "step_ok env s (http_switch env s)"
proof -
  have mark: "hx_mark s = (\<lambda>_. None)" using switch_plain [OF assms(1)] assms(2) by (auto simp: plain_simps)
  show ?thesis
    using switch_okD(1-6) [OF assms(1)] mark header_value_start_ok [OF assms(1)] assms(2)
    by (simp add: http_switch_def case_header_value_discard_ws_def exec_defs ok_defs)
qed

lemma header_value_lws_ok:
  assumes "switch_ok env s" and "hx_state s = s_header_value_lws"
  shows "step_ok env s (http_switch env s)"
proof -
  have mark: "hx_mark s = (\<lambda>_. None)" using switch_plain [OF assms(1)] assms(2) by (auto simp: plain_simps)
  show ?thesis
    using switch_okD(1-6) [OF assms(1)] mark assms(2)
    by (auto simp: http_switch_def case_header_value_lws_def add_value_flag_def exec_defs ok_defs Let_def)
qed

subsubsection \<open>Field names\<close>

lemma match_index_eq:
  "match_index str i c other don hs =
     Some (if unat i > length str \<or> c \<noteq> (str @ [0]) ! unat i then other
           else if unat i = length str - 1 then don else hs)"
  by (auto simp: match_index_def c_char_at_def nth_append)

lemma header_field_char_ok:
  assumes "field_state hs" and "hs \<noteq> h_general"
  shows "\<exists>i' hs'. header_field_char ch c i hs = Some (i', hs') \<and> field_state hs'"
  using assms unfolding field_state_def insert_iff empty_iff
  by (elim disjE FalseE) (simp_all add: header_field_char_def Let_def match_index_eq)

lemma skip_tokens_less: "p < n \<Longrightarrow> limit \<le> n \<Longrightarrow> skip_tokens dat limit p < n"
proof (induction dat limit p rule: skip_tokens.induct)
  case (1 dat limit p)
  then show ?case by (subst skip_tokens.simps) auto
qed

text \<open>The loop over a name changes the header state and the index only, and stays within the data.\<close>

definition field_loop_ok :: "'u http_env \<Rightarrow> nat \<Rightarrow> http_parser \<Rightarrow> (nat \<times> byte \<times> http_parser) option \<Rightarrow> bool" where
  "field_loop_ok env p parser res \<longleftrightarrow> (\<exists>p' ch' hs i.
     res = Some (p', ch', parser\<lparr>hp_header_state := hs, hp_index := i\<rparr>)
     \<and> p \<le> p' \<and> p' \<le> length (en_data env) \<and> field_state hs)"

lemma field_loop_okI:
  "field_state (hp_header_state parser) \<Longrightarrow> p \<le> length (en_data env) \<Longrightarrow>
    field_loop_ok env p parser (Some (p, ch, parser))"
  unfolding field_loop_ok_def
  by (intro exI [of _ p] exI [of _ ch] exI [of _ "hp_header_state parser"] exI [of _ "hp_index parser"]) simp

lemma field_loop_ok_trans: "field_loop_ok env q parser res \<Longrightarrow> p \<le> q \<Longrightarrow> field_loop_ok env p parser res"
  unfolding field_loop_ok_def by (elim exE conjE) (intro exI conjI, assumption, simp_all)

lemma field_loop_ok_step:
  "field_loop_ok env q (parser\<lparr>hp_header_state := hs, hp_index := i\<rparr>) res \<Longrightarrow> p \<le> q \<Longrightarrow>
    field_loop_ok env p parser res"
  unfolding field_loop_ok_def by fastforce

lemma header_field_loop_ok:
  assumes "field_state (hp_header_state parser)" and "p \<le> length (en_data env)"
  shows "field_loop_ok env p parser (header_field_loop env p ch parser)"
  using assms
proof (induction env p ch parser rule: header_field_loop.induct)
  case (1 env p ch parser)
  consider (stop) "p = length (en_data env)" | (token) "p < length (en_data env)" "TOKEN (en_data env ! p) = 0"
    | (general) "p < length (en_data env)" "TOKEN (en_data env ! p) \<noteq> 0" "hp_header_state parser = h_general"
    | (char) "p < length (en_data env)" "TOKEN (en_data env ! p) \<noteq> 0" "hp_header_state parser \<noteq> h_general"
    using "1.prems"(2) by fastforce
  then show ?case
  proof cases
    case general
    let ?skip = "skip_tokens (en_data env) (min (length (en_data env) - p) (unat (en_max_header_size env))) p + 1"
    have "?skip \<le> length (en_data env)"
      using skip_tokens_less [of p "length (en_data env)" "min (length (en_data env) - p) (unat (en_max_header_size env))"]
        general(1) by (simp add: Suc_le_eq)
    then have "field_loop_ok env ?skip parser (header_field_loop env ?skip (en_data env ! p) parser)"
      by (intro "1.IH"(1) [OF general(1) refl refl general(2,3) refl "1.prems"(1)])
    moreover have "p \<le> ?skip" by (simp add: skip_tokens_ge le_SucI)
    ultimately have "field_loop_ok env p parser (header_field_loop env ?skip (en_data env ! p) parser)"
      by (rule field_loop_ok_trans)
    then show ?thesis using general by (subst header_field_loop.simps) (simp add: Let_def)
  next
    case char
    obtain i hs where step: "header_field_char (en_data env ! p) (TOKEN (en_data env ! p)) (hp_index parser)
        (hp_header_state parser) = Some (i, hs)" and hs: "field_state hs"
      using header_field_char_ok [OF "1.prems"(1) char(3)] by blast
    have "field_loop_ok env (p + 1) (parser\<lparr>hp_header_state := hs, hp_index := i\<rparr>)
        (header_field_loop env (p + 1) (en_data env ! p) (parser\<lparr>hp_header_state := hs, hp_index := i\<rparr>))"
      using char(1) hs by (intro "1.IH"(2) [OF char(1) refl refl char(2,3) step refl]) simp_all
    then have "field_loop_ok env p parser
        (header_field_loop env (p + 1) (en_data env ! p) (parser\<lparr>hp_header_state := hs, hp_index := i\<rparr>))"
      by (rule field_loop_ok_step) simp
    then show ?thesis using char step by (subst header_field_loop.simps) (simp add: Let_def)
  qed (use "1.prems" in \<open>subst header_field_loop.simps, simp add: Let_def field_loop_okI\<close>)+
qed

subsubsection \<open>Values\<close>

definition value_ok :: "'u http_env \<Rightarrow> nat \<Rightarrow> 'u http_exec \<Rightarrow> header_states \<Rightarrow> bool" where
  "value_ok env q s hs \<longleftrightarrow> hx_p s \<le> length (en_data env) \<and> q \<le> hx_p s
     \<and> hp_http_errno (hx_parser s) = HPE_OK \<and> hx_nread s \<le> en_max_header_size env
     \<and> hp_nread (hx_parser s) \<le> en_max_header_size env \<and> hx_state s = s_header_value
     \<and> marks_ok s_header_value q (hx_mark s) \<and> hs \<noteq> h_connection \<and> hs \<noteq> h_transfer_encoding"

definition value_step_ok :: "'u http_env \<Rightarrow> nat \<Rightarrow> 'u http_flow + 'u http_exec \<times> header_states \<Rightarrow> bool" where
  "value_step_ok env q res \<longleftrightarrow> (case res of Inl f \<Rightarrow> flow_all (\<lambda>_. False) (\<lambda>_. False) (leave_ok env) f
     | Inr (s, hs) \<Rightarrow> value_ok env q s hs \<and> hx_p s < length (en_data env))"

lemma value_step_ok_simps [simp]:
  "value_step_ok env q (Inl f) = flow_all (\<lambda>_. False) (\<lambda>_. False) (leave_ok env) f"
  "value_step_ok env q (Inr (s, hs)) \<longleftrightarrow> value_ok env q s hs \<and> hx_p s < length (en_data env)"
  by (simp_all add: value_step_ok_def)

lemma skip_value_less:
  "skip_value dat lenient limit p = r \<Longrightarrow> p \<le> limit \<Longrightarrow> (case r of Inl q \<Rightarrow> q < limit | Inr q \<Rightarrow> q \<le> limit)"
proof (induction dat lenient limit p arbitrary: r rule: skip_value.induct)
  case (1 dat lenient limit p)
  then show ?case
    by (subst (asm) (2) skip_value.simps) (auto simp: Let_def split: if_splits)
qed

lemma header_value_char_ok:
  assumes "value_ok env q s hs" and "hx_p s < length (en_data env)"
    and "hx_ch s = en_data env ! hx_p s" and "hx_ch s \<noteq> CR" and "hx_ch s \<noteq> LF"
  shows "value_step_ok env q (header_value_char env s hs)"
proof (cases "hs = h_general")
  case True
  let ?limit = "hx_p s + min (length (en_data env) - hx_p s) (unat (en_max_header_size env))"
  show ?thesis
  proof (cases "skip_value (en_data env) (en_lenient env) ?limit (hx_p s)")
    case (Inl p)
    then show ?thesis
      using True skip_value_less [OF Inl] assms(2)
      by (auto simp: header_value_char_def Let_def intro!: flow_all_fail)
  next
    case (Inr p)
    have "hx_p s \<le> p" using skip_value_ge_start [OF Inr] assms(3-5) by simp
    then show ?thesis
      using True skip_value_less [OF Inr] assms(1,2) Inr
      by (auto simp: header_value_char_def Let_def value_ok_def)
  qed
next
  case False
  then show ?thesis
    using assms
    by (cases hs) (simp_all add: header_value_char_def Let_def value_ok_def content_length_num_def
      connection_token_end_def value_match_def match_index_eq value_error_def exec_defs flow_all_fail)
qed

lemma value_mark: "mark_state ev s_header_value \<Longrightarrow> ev = For_header_value"
  by (cases ev) (auto simp: url_state_def)

lemma field_mark: "mark_state ev s_header_field \<Longrightarrow> ev = For_header_field"
  by (cases ev) (auto simp: url_state_def)

lemma status_mark: "mark_state ev s_res_status \<Longrightarrow> ev = For_status"
  by (cases ev) (auto simp: url_state_def)

lemma body_mark: "body \<in> {s_body_identity, s_body_identity_eof, s_chunk_data, s_chunk_data_almost_done} \<Longrightarrow>
    mark_state ev body \<Longrightarrow> ev = For_body"
  by (cases ev) (auto simp: url_state_def)

lemma marks_le: "marks_ok st q mark \<Longrightarrow> mark ev = Some m \<Longrightarrow> m \<le> q"
  unfolding marks_ok_def by blast

lemma content_left:
  fixes c :: u64
  assumes "k \<le> unat c" and "c \<noteq> ULLONG_MAX"
  shows "unat (c - of_nat k) = unat c - k" and "c - of_nat k \<noteq> ULLONG_MAX"
proof -
  have k: "unat (of_nat k :: u64) = k"
    using order.strict_trans1 [OF assms(1) unsigned_less] by (simp add: unat_of_nat)
  then have "(of_nat k :: u64) \<le> c" using assms(1) by (simp add: word_le_nat_alt)
  then show *: "unat (c - of_nat k) = unat c - k" using k by (simp add: unat_sub)
  have "unat c < unat ULLONG_MAX"
    using assms(2) word_order.extremum [of c] unfolding ULLONG_MAX_def word_less_nat_alt [symmetric]
    by (simp add: order.not_eq_order_implies_strict)
  then show "c - of_nat k \<noteq> ULLONG_MAX" using * by auto
qed

lemma unhex_values: "x \<in> set unhex \<Longrightarrow> x = -1 \<or> unat (scast x :: u64) \<le> 15"
  unfolding unhex_def by auto
lemma chunk_step:
  fixes c v :: u64
  assumes "\<not> (ULLONG_MAX - 16) div 16 < c" and "unat v \<le> 15"
  shows "unat (c * 16 + v) = unat c * 16 + unat v" and "c * 16 + v \<noteq> ULLONG_MAX"
proof -
  have c: "unat c \<le> 0xFFFFFFFFFFFFFFE"
    using assms(1) by (simp add: ULLONG_MAX_def word_less_nat_alt unat_div)
  then show *: "unat (c * 16 + v) = unat c * 16 + unat v"
    using assms(2) by (simp add: unat_word_ariths)
  have "unat (c * 16 + v) < unat ULLONG_MAX"
    using c assms(2) by (simp add: * ULLONG_MAX_def unsigned_minus_1_eq_mask mask_eq_exp_minus_1)
  then show "c * 16 + v \<noteq> ULLONG_MAX" by auto
qed
text \<open>The step over a part of a body, with \<open>q\<close> the position of the part's last byte.\<close>

lemma take_body_eq:
  assumes "hx_p s < length (en_data env)" and "hp_content_length (hx_parser s) \<noteq> 0"
    and "hp_content_length (hx_parser s) \<noteq> ULLONG_MAX"
  obtains q c where "take_body env s = (MARK For_body s)\<lparr>hx_parser := (hx_parser s)\<lparr>hp_content_length := c\<rparr>, hx_p := q\<rparr>"
    and "hx_p s \<le> q" and "q < length (en_data env)" and "c \<noteq> ULLONG_MAX"
proof -
  let ?c = "hp_content_length (hx_parser s)"
  let ?k = "min (unat ?c) (length (en_data env) - hx_p s)"
  have "0 < ?k" using assms(1,2) by (simp add: unat_gt_0)
  moreover have "hx_p (MARK For_body s) = hx_p s" "hx_parser (MARK For_body s) = hx_parser s"
    by (simp_all add: MARK_def split: option.split)
  ultimately show thesis
    using assms(1) content_left(2) [of ?k ?c, OF _ assms(3)]
    by (intro that [of "hx_p s + ?k - 1" "?c - of_nat ?k"]) (auto simp: take_body_def set_parser_def Let_def)
qed

text \<open>What the parser needs of the settings: the contract between the parser and its owner.\<close>

locale http_owner =
  fixes env :: "'u http_env"
  assumes calm: "calm_settings (en_settings env)"
begin

lemma calm_notify [simp]:
  "calm_cb (on_message_begin (en_settings env))" "calm_cb (on_message_complete (en_settings env))"
  "calm_cb (on_headers_complete (en_settings env))"
  "calm_cb (on_chunk_header (en_settings env))" "calm_cb (on_chunk_complete (en_settings env))"
  using calm by (simp_all add: calm_settings_def)

lemma data_callback_ok:
  assumes "er \<le> length (en_data env)" and "stop \<le> length (en_data env)" and "q \<le> stop"
    and "marks_ok st q (hx_mark s)" and "\<And>ev2. mark_state ev2 st \<Longrightarrow> ev2 = ev"
    and "call_ok env s" and "called (\<lambda>s'. N (s'\<lparr>hx_mark := (\<lambda>_. None)\<rparr>)) s"
  shows "flow_all N R (leave_ok env) (CALLBACK_DATA_ER env ev stop er s)"
proof (rule data_ok [OF calm])
  show "called (\<lambda>s'. N (s'\<lparr>hx_mark := (hx_mark s)(ev := None)\<rparr>)) s"
    using assms(7) marks_ok_clear [OF assms(4,5)] by simp
qed (use assms marks_le [OF assms(4)] in fastforce)+

lemma header_value_done_ok:
  assumes "hx_p s \<le> length (en_data env)" and "q \<le> hx_p s" and "q < length (en_data env)"
    and "hp_http_errno (hx_parser s) = HPE_OK" and "hp_nread (hx_parser s) \<le> en_max_header_size env"
    and "state_ok 0 (hx_state s) 0 ((hx_parser s)\<lparr>hp_header_state := hs\<rparr>)" and "hx_state s \<noteq> s_chunk_size_start"
    and "marks_ok (hx_state s) q (hx_mark s)"
  shows "flow_all (next_ok env q) R (leave_ok env) (header_value_done env q s hs)"
proof -
  have "marks_ok (hx_state s) (Suc r) (hx_mark s)" if "q \<le> r" for r
    using marks_ok_mono [OF assms(8)] that by simp
  moreover have "state_ok 0 (hx_state s) n ((hx_parser s)\<lparr>hp_header_state := hs\<rparr>)" for n
    using assms(6,7) by (cases "hx_state s") (simp_all add: state_ok_def)
  ultimately show ?thesis
    using assms by (auto simp: header_value_done_def exec_defs Let_def next_ok_def exec_ok_def intro!: flow_all_count)
qed

lemma header_value_CR:
  assumes "value_ok env q s hs" and "hx_p s < length (en_data env)" and "q < length (en_data env)"
  shows "flow_all (next_ok env q) R (leave_ok env)
    (andthen (CALLBACK_DATA env For_header_value
        (set_parser (\<lambda>parser. parser\<lparr>hp_header_state := hs\<rparr>) (UPDATE_STATE s_header_almost_done s)))
      (\<lambda>s. header_value_done env q s hs))"
  using assms unfolding flow_all_andthen CALLBACK_DATA_def
  by (intro data_callback_ok [where st = s_header_value and q = q] value_mark)
    (auto simp: value_ok_def exec_defs call_ok_def called_def state_ok_def intro!: header_value_done_ok)

lemma header_value_LF:
  assumes "value_ok env q s hs" and "hx_p s < length (en_data env)"
  shows "flow_all N (again_ok env q (rank s_header_value)) (leave_ok env)
    (andthen (COUNT_HEADER_SIZE env (hx_p s - q) (UPDATE_STATE s_header_almost_done s)) (\<lambda>s.
     andthen (CALLBACK_DATA_NOADVANCE env For_header_value
        (set_parser (\<lambda>parser. parser\<lparr>hp_header_state := hs\<rparr>) s)) (\<lambda>s. Reexecute s)))"
  using assms unfolding flow_all_andthen CALLBACK_DATA_NOADVANCE_def
  by (intro flow_all_count data_callback_ok [where st = s_header_value and q = q] value_mark)
    (auto simp: value_ok_def exec_defs call_ok_def called_def state_ok_def again_ok_def switch_ok_def
      exec_ok_def rank_def)

lemma header_value_loop_ok:
  assumes "value_ok env q s hs" and "q < length (en_data env)"
  shows "flow_all (next_ok env q) (again_ok env q (rank s_header_value)) (leave_ok env) (header_value_loop env q s hs)"
  using assms
proof (induction "length (en_data env) - hx_p s" arbitrary: s hs rule: less_induct)
  case less
  show ?case
  proof (cases "hx_p s < length (en_data env)")
    case False
    then show ?thesis
      using less.prems by (subst header_value_loop.simps)
        (auto simp: value_ok_def state_ok_def intro!: header_value_done_ok)
  next
    case True
    let ?s = "s\<lparr>hx_ch := en_data env ! hx_p s\<rparr>"
    have s: "value_ok env q ?s hs" using less.prems by (simp add: value_ok_def)
    have less_p: "hx_p ?s < length (en_data env)" using True by simp
    consider (CR) "hx_ch ?s = CR" | (LF) "hx_ch ?s = LF" | (bad) "hx_ch ?s \<noteq> CR" "hx_ch ?s \<noteq> LF" "\<not> en_lenient env \<and> \<not> IS_HEADER_CHAR (hx_ch ?s)"
      | (char) "hx_ch ?s \<noteq> CR" "hx_ch ?s \<noteq> LF" "\<not> (\<not> en_lenient env \<and> \<not> IS_HEADER_CHAR (hx_ch ?s))"
      by blast
    then show ?thesis
    proof cases
      case CR
      then show ?thesis using True header_value_CR [OF s less_p less.prems(2)]
        by (subst header_value_loop.simps) (simp add: Let_def)
    next
      case LF
      then show ?thesis using True header_value_LF [OF s less_p]
        by (subst header_value_loop.simps) (simp add: Let_def)
    next
      case bad
      then show ?thesis using True
        by (subst header_value_loop.simps) (simp add: Let_def flow_all_fail)
    next
      case char
      note step = header_value_char_ok [OF s less_p _ char(1,2)]
      show ?thesis
      proof (cases "header_value_char env ?s hs")
        case (Inl f)
        then have "flow_all (\<lambda>_. False) (\<lambda>_. False) (leave_ok env) f" using step by simp
        then have "flow_all (next_ok env q) (again_ok env q (rank s_header_value)) (leave_ok env) f"
          by (rule flow_all_mono) auto
        then show ?thesis using True char Inl by (subst header_value_loop.simps) (auto simp: Let_def)
      next
        case (Inr r)
        obtain s' hs' where r: "r = (s', hs')" by (cases r)
        have ok: "value_ok env q s' hs'" "hx_p s' < length (en_data env)" using step Inr r by simp_all
        have "hx_p s \<le> hx_p s'"
          using header_value_char_p [of env ?s hs s' hs'] Inr r True char by simp
        then have "flow_all (next_ok env q) (again_ok env q (rank s_header_value)) (leave_ok env)
            (header_value_loop env q (s'\<lparr>hx_p := hx_p s' + 1\<rparr>) hs')"
          using True ok less.prems(2) by (intro less.hyps) (auto simp: value_ok_def)
        then show ?thesis using True char Inr r by (subst header_value_loop.simps) (auto simp: Let_def)
      qed
    qed
  qed
qed

lemma header_value_ok:
  assumes "switch_ok env s" and "hx_state s = s_header_value"
  shows "step_ok env s (http_switch env s)"
  using header_value_loop_ok [of "hx_p s" s "hp_header_state (hx_parser s)"] switch_okD [OF assms(1)] assms(2)
  by (simp add: http_switch_def case_header_value_def value_ok_def state_ok_def)

lemma header_field_ok:
  assumes "switch_ok env s" and "hx_state s = s_header_field"
  shows "step_ok env s (http_switch env s)"
proof -
  have "field_loop_ok env (hx_p s) (hx_parser s) (header_field_loop env (hx_p s) (hx_ch s) (hx_parser s))"
    using switch_okD [OF assms(1)] assms(2) by (intro header_field_loop_ok) (simp_all add: state_ok_def)
  then obtain p ch hs i where r: "header_field_loop env (hx_p s) (hx_ch s) (hx_parser s)
        = Some (p, ch, (hx_parser s)\<lparr>hp_header_state := hs, hp_index := i\<rparr>)"
      "hx_p s \<le> p" "p \<le> length (en_data env)" "field_state hs"
    unfolding field_loop_ok_def by (elim exE conjE) (rule that)
  have marks: "marks_ok s_header_field (Suc p) (hx_mark s)" "marks_ok s_header_field p (hx_mark s)"
      "marks_ok s_header_field q (hx_mark s)" if "hx_p s \<le> q" for q
    using marks_ok_mono [OF switch_okD(8) [OF assms(1)]] assms(2) r(2) that by simp_all
  show ?thesis
    using switch_okD(1-6) [OF assms(1)] assms(2) r marks
    unfolding http_switch_def case_header_field_def CALLBACK_DATA_def
    by (auto simp: Let_def exec_defs next_ok_def exec_ok_def state_ok_def call_ok_def called_def
        intro!: flow_all_count flow_all_fail data_callback_ok [where st = s_header_field and q = p] field_mark)
qed

lemma start_ok:
  assumes "switch_ok env s" and "hx_state s \<in> {s_start_req_or_res, s_start_res, s_start_req}"
  shows "step_ok env s (http_switch env s)"
proof -
  have mark: "hx_mark s = (\<lambda>_. None)" using switch_plain [OF assms(1)] assms(2) by (auto simp: plain_simps)
  have first: "\<exists>str. method_strings m = Some str \<and> Suc 0 \<le> length str" if "first_method ch = Some m" for ch m
    using that by (auto simp: first_method_def split: if_splits)
  show ?thesis
    using switch_okD(1-6) [OF assms(1)] mark assms(2) unfolding insert_iff empty_iff
    by (elim disjE FalseE)
      (auto simp: http_switch_def case_start_req_or_res_def case_start_res_def case_start_req_def start_message_def
        notify_message_begin_def CALLBACK_NOTIFY_def exec_defs Let_def ok_defs call_ok_def called_def
        split: option.split dest!: first intro!: flow_all_fail notify_ok)
qed

lemma status_ok:
  assumes "switch_ok env s" and "hx_state s \<in> {s_res_status_start, s_res_status}"
  shows "step_ok env s (http_switch env s)"
  using assms(2) unfolding insert_iff empty_iff
proof (elim disjE FalseE)
  assume st: "hx_state s = s_res_status_start"
  have mark: "hx_mark s = (\<lambda>_. None)" using switch_plain [OF assms(1)] st by (simp add: plain_simps)
  show ?thesis
    using switch_okD(1-6) [OF assms(1)] mark st
    by (auto simp: http_switch_def case_res_status_start_def marks_MARK exec_defs ok_defs Let_def intro!: marks_ok_set)
next
  assume st: "hx_state s = s_res_status"
  have marks: "marks_ok s_res_status (hx_p s) (hx_mark s)" "marks_ok s_res_status (Suc (hx_p s)) (hx_mark s)"
    using marks_ok_mono [OF switch_okD(8) [OF assms(1)]] st by simp_all
  show ?thesis
    using switch_okD(1-6) [OF assms(1)] marks st
    by (auto simp: http_switch_def case_res_status_def CALLBACK_DATA_def exec_defs next_ok_def exec_ok_def
        state_ok_def call_ok_def called_def
        intro!: data_callback_ok [where st = s_res_status and q = "hx_p s"] status_mark)
qed

lemma req_url_ok:
  assumes "switch_ok env s"
    and "hx_state s \<in> {s_req_server, s_req_server_with_at, s_req_path, s_req_query_string_start,
      s_req_query_string, s_req_fragment_start, s_req_fragment}"
  shows "step_ok env s (http_switch env s)"
proof -
  have u: "url_state (hx_state s)" using assms(2) by (auto simp: url_state_def)
  note marks = marks_url [OF u url_state_path switch_okD(8) [OF assms(1)]]
  have "step_ok env s (url_step (s\<lparr>hx_state := hx_state s\<rparr>))"
    by (intro url_step_ok assms(1) marks)
  then have "step_ok env s (case_req_url env s)"
    using switch_okD(1-6) [OF assms(1)] marks
    by (auto simp: case_req_url_def CALLBACK_DATA_def exec_defs next_ok_def exec_ok_def
        state_ok_def call_ok_def called_def url_mark
        intro!: data_callback_ok [where st = s_req_path and q = "hx_p s"])
  then show ?thesis using assms(2) by (auto simp: http_switch_def)
qed

lemma header_value_discard_lws_ok:
  assumes "switch_ok env s" and "hx_state s = s_header_value_discard_lws"
  shows "step_ok env s (http_switch env s)"
proof -
  have mark: "hx_mark s = (\<lambda>_. None)" using switch_plain [OF assms(1)] assms(2) by (simp add: plain_simps)
  show ?thesis
    using switch_okD(1-6) [OF assms(1)] mark assms(2)
    by (auto simp: http_switch_def case_header_value_discard_lws_def add_value_flag_def CALLBACK_DATA_NOADVANCE_def
        marks_MARK exec_defs ok_defs call_ok_def called_def
        intro!: flow_all_fail marks_ok_set data_callback_ok [where st = s_header_value and q = "hx_p s"] value_mark)
qed

text \<open>The call of \<open>on_headers_complete\<close> ends in \<open>s_headers_done\<close>, of which nothing is relied on.\<close>

lemma headers_complete_ok:
  assumes "hx_p s < length (en_data env)" and "hp_http_errno (hx_parser s) = HPE_OK"
    and "hx_nread s \<le> en_max_header_size env" and "hp_nread (hx_parser s) \<le> en_max_header_size env"
    and "hx_mark s = (\<lambda>_. None)" and "hx_state s = s_headers_done" and "0 < r"
  shows "flow_all N (again_ok env (hx_p s) r) (leave_ok env)
    (andthen (call_headers_complete env s) (\<lambda>s.
       if HTTP_PARSER_ERRNO s \<noteq> HPE_OK then RETURN (hx_p s) s else Reexecute s))"
proof (cases "on_headers_complete (en_settings env)")
  case None
  then show ?thesis using assms
    by (simp add: call_headers_complete_def HTTP_PARSER_ERRNO_def ok_defs)
next
  case (Some on)
  obtain n parser u where r: "on (hx_parser s) (hx_user s) = (n, parser, u)" by (metis prod_cases3)
  have "parser = hx_parser s \<or> parser = (hx_parser s)\<lparr>hp_http_errno := HPE_PAUSED\<rparr>"
    using calm_notify(3) [unfolded calm_cb_def calm_def, rule_format, OF Some, of "hx_parser s" "hx_user s"] r
    by simp
  then show ?thesis using assms Some r
    by (cases n)
      (auto simp: call_headers_complete_def HTTP_PARSER_ERRNO_def Let_def exec_defs SET_ERRNO_def RETURN_def
        leave_ok_def parser_ok_def ok_defs)
qed

lemma headers_almost_done_ok:
  assumes "switch_ok env s" and "hx_state s = s_headers_almost_done"
  shows "step_ok env s (http_switch env s)"
proof -
  have mark: "hx_mark s = (\<lambda>_. None)" using switch_plain [OF assms(1)] assms(2) by (simp add: plain_simps)
  have complete: "step_ok env s
      (andthen (call_headers_complete env (set_parser set_upgrade (UPDATE_STATE s_headers_done s))) (\<lambda>s.
         if HTTP_PARSER_ERRNO s \<noteq> HPE_OK then RETURN (hx_p s) s else Reexecute s))"
    using headers_complete_ok [of "set_parser set_upgrade (UPDATE_STATE s_headers_done s)" "rank (hx_state s)"]
      switch_okD(1-6) [OF assms(1)] mark assms(2)
    by (simp add: exec_defs set_upgrade_def rank_def)
  have trail: "step_ok env s
      (andthen (CALLBACK_NOTIFY_NOADVANCE (on_chunk_complete (en_settings env)) HPE_CB_chunk_complete
        (UPDATE_STATE s_message_done s)) (\<lambda>s. Reexecute s))"
    using switch_okD(1-6) [OF assms(1)] mark assms(2)
    by (auto simp: CALLBACK_NOTIFY_NOADVANCE_def exec_defs ok_defs call_ok_def called_def intro!: notify_ok)
  have "step_ok env s (case_headers_almost_done env s)"
    unfolding case_headers_almost_done_def
    by (rule flow_andthenI, rule flow_all_strict [OF switch_okD(2) [OF assms(1)]])
      (simp only: trail complete flow_all_fail [OF _ _ switch_okD(2) [OF assms(1)]] http_errno.distinct
        if_True if_False if_split simp_thms not_False_eq_True)
  then show ?thesis using assms(2) by (simp add: http_switch_def)
qed

lemma NEW_MESSAGE_cases: "NEW_MESSAGE parser \<in> {s_start_req, s_start_res, s_dead}"
  by (simp add: NEW_MESSAGE_def start_state_def)

lemma new_message_ok:
  assumes "hx_p s < length (en_data env)" and "hp_http_errno (hx_parser s) = HPE_OK"
    and "hp_nread (hx_parser s) \<le> en_max_header_size env"
    and "\<And>st x u. st \<in> {s_start_req, s_start_res, s_dead} \<Longrightarrow>
      N (s\<lparr>hx_state := st, hx_parser := (hx_parser s)\<lparr>hp_state := x\<rparr>, hx_user := u\<rparr>)"
  shows "flow_all N R (leave_ok env) (new_message env s)"
  using assms NEW_MESSAGE_cases [of "hx_parser s"]
  by (auto simp: new_message_def notify_message_complete_def CALLBACK_NOTIFY_def exec_defs call_ok_def
      called_def state_ok_def intro!: notify_ok)

lemma new_message_next:
  assumes "hx_p s < length (en_data env)" and "hp_http_errno (hx_parser s) = HPE_OK"
    and "hp_nread (hx_parser s) \<le> en_max_header_size env" and "hx_nread s \<le> en_max_header_size env"
    and "hx_mark s = (\<lambda>_. None)"
  shows "flow_all (next_ok env (hx_p s)) R (leave_ok env) (new_message env s)"
    and "flow_all N R (leave_ok env) (andthen (new_message env s) (\<lambda>s. RETURN (hx_p s + 1) s))"
proof -
  have plain: "marks_ok st q (hx_mark s)" "state_ok 0 st n parser" if "st \<in> {s_start_req, s_start_res, s_dead}"
    for st q n parser
    using that assms(5) by (auto simp: state_ok_def)
  show "flow_all (next_ok env (hx_p s)) R (leave_ok env) (new_message env s)"
    by (rule new_message_ok) (use assms plain in \<open>simp_all add: next_ok_def exec_ok_def\<close>)
  show "flow_all N R (leave_ok env) (andthen (new_message env s) (\<lambda>s. RETURN (hx_p s + 1) s))"
    unfolding flow_all_andthen
    by (rule new_message_ok) (use assms plain in \<open>simp_all add: RETURN_def exec_defs leave_ok_def parser_ok_def\<close>)
qed

lemma headers_done_ok:
  assumes "switch_ok env s" and "hx_state s = s_headers_done"
  shows "step_ok env s (http_switch env s)"
proof -
  have mark: "hx_mark s = (\<lambda>_. None)" using switch_plain [OF assms(1)] assms(2) by (simp add: plain_simps)
  let ?s = "reset_nread s"
  have s: "hx_p ?s = hx_p s" "hx_mark ?s = (\<lambda>_. None)" "hx_nread ?s = 0" "hp_nread (hx_parser ?s) = 0"
      "hp_http_errno (hx_parser ?s) = HPE_OK"
    using switch_okD(1-6) [OF assms(1)] mark by (simp_all add: reset_nread_def exec_defs)
  have go: "next_ok env (hx_p s) (UPDATE_STATE st ?s)" if "state_ok 0 st 0 (hx_parser ?s)" for st
    using that switch_okD(1-6) [OF assms(1)] s by (simp add: next_ok_def exec_ok_def exec_defs)
  have new: "flow_all (next_ok env (hx_p s)) R (leave_ok env) (new_message env ?s)"
      "flow_all N R (leave_ok env) (andthen (new_message env ?s) (\<lambda>s. RETURN (hx_p s + 1) s))" for R N
    using new_message_next [of ?s] switch_okD(1) [OF assms(1)] s by simp_all
  have "flow_all (next_ok env (hx_p s)) (again_ok env (hx_p s) (rank (hx_state s))) (leave_ok env)
    (case_headers_done env s)"
    unfolding case_headers_done_def flow_all_andthen Let_def
    using new go switch_okD(2) [OF assms(1)]
    by (intro flow_all_strict) (simp_all add: state_ok_def is_chunked_def)
  then show ?thesis using assms(2) by (simp add: http_switch_def)
qed

lemma message_done_ok:
  assumes "switch_ok env s" and "hx_state s = s_message_done"
  shows "step_ok env s (http_switch env s)"
proof -
  have mark: "hx_mark s = (\<lambda>_. None)" using switch_plain [OF assms(1)] assms(2) by (simp add: plain_simps)
  have plain: "marks_ok st q (hx_mark s)" "state_ok 0 st n parser" if "st \<in> {s_start_req, s_start_res, s_dead}"
    for st q n parser
    using that mark by (auto simp: state_ok_def)
  have "flow_all (next_ok env (hx_p s)) R (leave_ok env) (case_message_done env s)" for R
    unfolding case_message_done_def flow_all_andthen
    by (rule new_message_ok)
      (use switch_okD(1-6) [OF assms(1)] plain in
        \<open>simp_all add: next_ok_def exec_ok_def RETURN_def exec_defs leave_ok_def parser_ok_def\<close>)
  then show ?thesis using assms(2) by (simp add: http_switch_def)
qed

lemma chunk_ok:
  assumes "switch_ok env s"
    and "hx_state s \<in> {s_chunk_size_start, s_chunk_size, s_chunk_parameters, s_chunk_size_almost_done, s_chunk_data_done}"
  shows "step_ok env s (http_switch env s)"
proof -
  have mark: "hx_mark s = (\<lambda>_. None)" using switch_plain [OF assms(1)] assms(2) by (auto simp: plain_simps)
  let ?v = "unhex ! unat (hx_ch s)"
  have "length unhex = 256" by (simp add: unhex_def)
  moreover have "unat (hx_ch s) < 256" using unsigned_less [of "hx_ch s"] by simp
  ultimately have v: "unat (scast ?v :: u64) \<le> 15" if "?v \<noteq> -1"
    using unhex_values [of ?v] that by (metis nth_mem)
  have start: "(scast ?v :: u64) \<noteq> ULLONG_MAX" if "?v \<noteq> -1"
    using v [OF that] by (auto simp: ULLONG_MAX_def unsigned_minus_1_eq_mask mask_eq_exp_minus_1)
  show ?thesis
    using switch_okD(1-7) [OF assms(1)] mark assms(2) unfolding insert_iff empty_iff
    by (elim disjE FalseE)
      (auto simp: http_switch_def case_chunk_size_start_def case_chunk_size_def case_chunk_parameters_def
        case_chunk_size_almost_done_def case_chunk_data_done_def chunked_def reset_nread_def CALLBACK_NOTIFY_def
        exec_defs Let_def ok_defs is_chunked_def call_ok_def called_def start chunk_step(2) [OF _ v]
        intro!: flow_all_fail flow_all_strict notify_ok)
qed

lemma MARK_ok:
  "marks_ok st (hx_p s) (hx_mark s) \<Longrightarrow> mark_state ev st \<Longrightarrow> hx_p s \<le> q \<Longrightarrow> marks_ok st q (hx_mark (MARK ev s))"
  unfolding marks_ok_def by (auto simp: MARK_def split: option.split intro: le_trans)

lemma MARK_sel [simp]:
  "hx_p (MARK ev s) = hx_p s" "hx_parser (MARK ev s) = hx_parser s" "hx_user (MARK ev s) = hx_user s"
  "hx_state (MARK ev s) = hx_state s" "hx_nread (MARK ev s) = hx_nread s" "hx_ch (MARK ev s) = hx_ch s"
  by (simp_all add: MARK_def split: option.split)

lemma body_identity_ok:
  assumes "switch_ok env s" and "hx_state s = s_body_identity"
  shows "step_ok env s (http_switch env s)"
proof -
  have cl: "hp_content_length (hx_parser s) \<noteq> 0" "hp_content_length (hx_parser s) \<noteq> ULLONG_MAX"
    using switch_okD(7) [OF assms(1)] assms(2) by (simp_all add: state_ok_def)
  obtain q c where t: "take_body env s = (MARK For_body s)\<lparr>hx_parser := (hx_parser s)\<lparr>hp_content_length := c\<rparr>, hx_p := q\<rparr>"
      "hx_p s \<le> q" "q < length (en_data env)" "c \<noteq> ULLONG_MAX"
    using take_body_eq [OF switch_okD(1) [OF assms(1)] cl] by blast
  have marks: "marks_ok s_body_identity r (hx_mark (MARK For_body s))" if "q \<le> r" for r
    using MARK_ok [OF switch_okD(8) [OF assms(1)]] assms(2) t(2) that by simp
  show ?thesis
    using switch_okD(1-6) [OF assms(1)] assms(2) cl t marks
    by (auto simp: http_switch_def case_body_identity_def Let_def exec_defs next_ok_def again_ok_def switch_ok_def
        exec_ok_def state_ok_def rank_def call_ok_def called_def
        intro!: data_callback_ok [where st = s_body_identity and q = q] body_mark [where body = s_body_identity])
qed

lemma body_identity_eof_ok:
  assumes "switch_ok env s" and "hx_state s = s_body_identity_eof"
  shows "step_ok env s (http_switch env s)"
proof -
  have "marks_ok s_body_identity_eof (Suc (length (en_data env) - Suc 0)) (hx_mark (MARK For_body s))"
    using MARK_ok [OF switch_okD(8) [OF assms(1)]] assms(2) switch_okD(2) [OF assms(1)] by simp
  then show ?thesis
    using switch_okD(1-6) [OF assms(1)] assms(2)
    by (auto simp: http_switch_def case_body_identity_eof_def next_ok_def exec_ok_def state_ok_def)
qed

lemma chunk_data_ok:
  assumes "switch_ok env s" and "hx_state s = s_chunk_data"
  shows "step_ok env s (http_switch env s)"
proof -
  have cl: "hp_content_length (hx_parser s) \<noteq> 0" "hp_content_length (hx_parser s) \<noteq> ULLONG_MAX"
      and chunk: "is_chunked (hx_parser s)"
    using switch_okD(7) [OF assms(1)] assms(2) by (simp_all add: state_ok_def)
  obtain q c where t: "take_body env s = (MARK For_body s)\<lparr>hx_parser := (hx_parser s)\<lparr>hp_content_length := c\<rparr>, hx_p := q\<rparr>"
      "hx_p s \<le> q" "q < length (en_data env)" "c \<noteq> ULLONG_MAX"
    using take_body_eq [OF switch_okD(1) [OF assms(1)] cl] by blast
  have marks: "marks_ok s_chunk_data (Suc q) (hx_mark (MARK For_body s))"
    using MARK_ok [OF switch_okD(8) [OF assms(1)]] assms(2) t(2) by simp
  moreover have "marks_ok s_chunk_data_almost_done (Suc q) (hx_mark (MARK For_body s))"
    using marks body_mark [of s_chunk_data] unfolding marks_ok_def by fastforce
  ultimately show ?thesis
    using switch_okD(1-6) [OF assms(1)] assms(2) cl chunk t
    by (auto simp: http_switch_def case_chunk_data_def chunked_def Let_def exec_defs next_ok_def exec_ok_def
        state_ok_def is_chunked_def)
qed

lemma chunk_data_almost_done_ok:
  assumes "switch_ok env s" and "hx_state s = s_chunk_data_almost_done"
  shows "step_ok env s (http_switch env s)"
  using switch_okD [OF assms(1)] assms(2)
  unfolding http_switch_def assms(2) state.case case_chunk_data_almost_done_def CALLBACK_DATA_def
  by (auto simp: chunked_def exec_defs next_ok_def exec_ok_def state_ok_def is_chunked_def call_ok_def called_def
      intro!: flow_all_strict data_callback_ok [where st = s_chunk_data_almost_done and q = "hx_p s"]
        body_mark [where body = s_chunk_data_almost_done])

lemma header_value_start_switch_ok:
  assumes "switch_ok env s" and "hx_state s = s_header_value_start"
  shows "step_ok env s (http_switch env s)"
  using header_value_start_ok [OF assms(1)] assms(2) by (simp add: http_switch_def)

lemma http_switch_ok:
  assumes "switch_ok env s"
  shows "step_ok env s (http_switch env s)"
  by (cases "hx_state s";
    (rule simple_ok [OF assms] spaces_before_url_ok [OF assms] req_schema_ok [OF assms] req_method_ok [OF assms]
      header_field_start_ok [OF assms] header_value_discard_ws_ok [OF assms] header_value_lws_ok [OF assms]
      header_value_start_switch_ok [OF assms] header_value_ok [OF assms] header_field_ok [OF assms]
      start_ok [OF assms] status_ok [OF assms] req_url_ok [OF assms] header_value_discard_lws_ok [OF assms]
      headers_almost_done_ok [OF assms] headers_done_ok [OF assms] message_done_ok [OF assms]
      chunk_ok [OF assms] body_identity_ok [OF assms] body_identity_eof_ok [OF assms] chunk_data_ok [OF assms]
      chunk_data_almost_done_ok [OF assms],
     (simp add: simple_state_def; fail)))

subsection \<open>The loop\<close>

lemma reexecute_ok:
  assumes "switch_ok env s" and "rank (hx_state s) < n" and "p \<le> hx_p s"
  shows "flow_all (next_ok env p) (\<lambda>_. False) (leave_ok env) (reexecute n env s)"
  using assms
proof (induction n arbitrary: s)
  case (Suc n)
  note ok = http_switch_ok [OF Suc.prems(1)]
  show ?case
  proof (cases "http_switch env s")
    case (Next s')
    then show ?thesis using ok Suc.prems(3) by (simp add: next_ok_def)
  next
    case (Reexecute s')
    then have "again_ok env (hx_p s) (rank (hx_state s)) s'" using ok by simp
    then show ?thesis
      using Suc Reexecute by (simp add: again_ok_def)
  qed (use ok in simp_all)
qed simp

lemma rank_fuel: "rank st < reexecute_fuel"
  by (simp add: rank_def reexecute_fuel_def split: state.split)

lemma state_ok_count:
  "state_ok 0 st n parser \<Longrightarrow> PARSING_HEADER st \<Longrightarrow> state_ok 1 st (n + 1) parser"
  "state_ok 0 st n parser \<Longrightarrow> \<not> PARSING_HEADER st \<Longrightarrow> state_ok 1 st n parser"
  by (cases st; simp add: state_ok_def PARSING_HEADER_def)+

lemma loop_body_ok:
  assumes "hx_p s < length (en_data env)" and "exec_ok env 0 (hx_p s) s"
  shows "flow_all (next_ok env (hx_p s)) (\<lambda>_. False) (leave_ok env) (loop_body env s)"
proof -
  let ?s = "s\<lparr>hx_ch := en_data env ! hx_p s\<rparr>"
  have "flow_all (switch_ok env) (\<lambda>_. False) (leave_ok env)
      (if PARSING_HEADER (hx_state ?s) then COUNT_HEADER_SIZE env 1 ?s else Next ?s)"
    using assms state_ok_count [of "hx_state s" "hx_nread s" "hx_parser s"]
    by (auto simp: switch_ok_def exec_ok_def intro!: flow_all_count)
  moreover have "flow_all (\<lambda>s'. hx_p s' = hx_p s) (\<lambda>_. True) (\<lambda>_ _. True)
      (if PARSING_HEADER (hx_state ?s) then COUNT_HEADER_SIZE env 1 ?s else Next ?s)"
    by (simp add: COUNT_HEADER_SIZE_def fail_def goto_error_def RETURN_def Let_def)
  ultimately have "flow_all (\<lambda>s'. switch_ok env s' \<and> hx_p s' = hx_p s) (\<lambda>_. False) (leave_ok env)
      (if PARSING_HEADER (hx_state ?s) then COUNT_HEADER_SIZE env 1 ?s else Next ?s)"
    by (cases "if PARSING_HEADER (hx_state ?s) then COUNT_HEADER_SIZE env 1 ?s else Next ?s") (simp_all split: if_splits)
  then show ?thesis
    unfolding loop_body_def Let_def flow_all_andthen
    by (rule flow_all_mono) (auto intro!: reexecute_ok rank_fuel)
qed

lemma http_loop_ok:
  assumes "hx_p s \<le> length (en_data env)" and "length (en_data env) \<le> hx_p s + n" and "exec_ok env 0 (hx_p s) s"
  shows "flow_all (at_end env) (\<lambda>_. False) (leave_ok env)
    (http_loop n env s)"
  using assms
proof (induction n arbitrary: s)
  case 0
  then show ?case by (simp add: http_loop.simps at_end_def)
next
  case (Suc n)
  show ?case
  proof (cases "hx_p s = length (en_data env)")
    case True
    then show ?thesis using Suc.prems by (simp add: http_loop.simps at_end_def)
  next
    case False
    with Suc.prems(1) have less: "hx_p s < length (en_data env)" by simp
    have "flow_all (\<lambda>s'. flow_all (at_end env) (\<lambda>_. False)
        (leave_ok env) (http_loop n env (s'\<lparr>hx_p := hx_p s' + 1\<rparr>))) (\<lambda>_. False) (leave_ok env) (loop_body env s)"
      by (rule flow_all_mono [OF loop_body_ok [OF less Suc.prems(3)]])
        (use Suc.prems(2) in \<open>auto simp: next_ok_def intro!: Suc.IH\<close>)
    then show ?thesis using less by (subst http_loop.simps) simp
  qed
qed

subsection \<open>A call\<close>

lemma marks_set_le: "marks_ok st q (hx_mark s) \<Longrightarrow> marks_set s \<le> 1"
proof -
  assume ok: "marks_ok st q (hx_mark s)"
  have "hx_mark s ev = None \<or> mark_state ev st" for ev
    using ok unfolding marks_ok_def by (cases "hx_mark s ev") auto
  from this [of For_header_field] this [of For_header_value] this [of For_url] this [of For_body] this [of For_status]
  show ?thesis by (auto simp: marks_set_def url_state_def)
qed

lemma exec_ok_parser: "exec_ok env 0 q s \<Longrightarrow> flow_all N R (leave_ok env) (RETURN (length (en_data env)) s)"
  by (simp add: RETURN_def exec_defs leave_ok_def parser_ok_def exec_ok_def)

lemma leftover_ok:
  assumes at_end: "at_end env s"
  shows "flow_all (at_end env) R (leave_ok env)
    (CALLBACK_DATA_NOADVANCE env ev s)"
proof (cases "hx_mark s ev")
  case None
  then show ?thesis
    using at_end by (auto simp: at_end_def CALLBACK_DATA_NOADVANCE_def CALLBACK_DATA_ER_def HTTP_PARSER_ERRNO_def exec_ok_def)
next
  case (Some m)
  have e: "hp_http_errno (hx_parser s) = HPE_OK" "hp_nread (hx_parser s) \<le> en_max_header_size env"
      "hx_nread s \<le> en_max_header_size env" "state_ok 0 (hx_state s) (hx_nread s) (hx_parser s)"
      "marks_ok (hx_state s) (hx_p s) (hx_mark s)"
    using at_end unfolding at_end_def exec_ok_def by auto
  have m: "m \<le> hx_p s" "mark_state ev (hx_state s)" using e(5) Some unfolding marks_ok_def by auto
  then have "hx_state s \<noteq> s_chunk_size_start" by (cases ev) (auto simp: url_state_def)
  then have "state_ok 0 (hx_state s) n (hx_parser s)" for n
    using e(4) by (cases "hx_state s") (simp_all add: state_ok_def)
  moreover have "marks_ok (hx_state s) q ((hx_mark s)(ev := None))" if "marks_ok (hx_state s) q (hx_mark s)" for q
    using that unfolding marks_ok_def by auto
  ultimately show ?thesis
    unfolding CALLBACK_DATA_NOADVANCE_def
    by (intro data_ok calm) (use at_end e m Some in \<open>simp_all add: at_end_def call_ok_def called_def exec_ok_def\<close>)
qed

lemma leftover_then:
  assumes "at_end env s" and "\<And>s. at_end env s \<Longrightarrow> flow_all (at_end env) R (leave_ok env) (f s)"
  shows "flow_all (at_end env) R (leave_ok env) (andthen (CALLBACK_DATA_NOADVANCE env ev s) f)"
  unfolding flow_all_andthen by (rule flow_all_mono [OF leftover_ok [OF assms(1)]]) (use assms(2) in auto)

lemma leftover_callbacks_ok:
  assumes "at_end env s"
  shows "flow_all (at_end env) R (leave_ok env) (leftover_callbacks env s)"
proof -
  have "marks_set s \<le> 1"
    using assms unfolding at_end_def exec_ok_def
    by (elim conjE) (rule marks_set_le)
  then show ?thesis
    unfolding leftover_callbacks_def flow_all_assert
    by (intro conjI leftover_then leftover_ok assms)
qed

lemma execute_eof_ok:
  assumes "exec_ok env 0 0 s" and "hx_p s = 0" and "hp_state (hx_parser s) = hx_state s"
    and "hp_nread (hx_parser s) = hx_nread s"
  shows "flow_all (\<lambda>_. False) (\<lambda>_. False) (\<lambda>n s. n \<le> 1 \<and> parser_ok (en_max_header_size env) (hx_parser s))
    (execute_eof env s)"
proof (cases "hx_state s = s_body_identity_eof")
  case True
  have call: "call_ok env s" using assms by (simp add: exec_ok_def call_ok_def)
  show ?thesis
    unfolding execute_eof_def True state.case CALLBACK_NOTIFY_NOADVANCE_def flow_all_andthen
    by (rule flow_all_mono [OF notify_paused [OF calm_notify(2) _ _ call,
          where N = "\<lambda>s. parser_ok (en_max_header_size env) (hx_parser s)"]])
      (use assms True in \<open>auto simp: called_def exec_ok_def parser_ok_def state_ok_def\<close>)
next
  case False
  then show ?thesis
    using assms by (cases "hx_state s")
      (simp_all add: execute_eof_def exec_ok_def parser_ok_def SET_ERRNO_def exec_defs)
qed

lemma http_parser_flow_ok:
  assumes "parser_ok (en_max_header_size env) parser"
  shows "flow_all (\<lambda>_. False) (\<lambda>_. False)
    (\<lambda>n s. n \<le> max 1 (length (en_data env)) \<and> parser_ok (en_max_header_size env) (hx_parser s))
    (http_parser_flow env parser u)"
proof -
  define s where "s = \<lparr>hx_parser = parser, hx_user = u, hx_p = 0, hx_ch = 0, hx_state = hp_state parser,
              hx_nread = hp_nread parser, hx_mark = (\<lambda>_. None)\<rparr>"
  let ?L = "\<lambda>n s. n \<le> max 1 (length (en_data env)) \<and> parser_ok (en_max_header_size env) (hx_parser s)"
  consider (error) "hp_http_errno parser \<noteq> HPE_OK" | (eof) "hp_http_errno parser = HPE_OK" "length (en_data env) = 0"
    | (run) "hp_http_errno parser = HPE_OK" "length (en_data env) \<noteq> 0" by blast
  then show ?thesis
  proof cases
    case error
    then show ?thesis using assms by (simp add: http_parser_flow_def HTTP_PARSER_ERRNO_def)
  next
    case eof
    then have "exec_ok env 0 0 s" using assms by (simp add: s_def exec_ok_def parser_ok_def)
    then have "flow_all (\<lambda>_. False) (\<lambda>_. False) ?L (execute_eof env s)"
      by (intro flow_all_mono [OF execute_eof_ok]) (auto simp: s_def)
    then show ?thesis using eof by (simp add: http_parser_flow_def HTTP_PARSER_ERRNO_def s_def)
  next
    case run
    let ?s = "s\<lparr>hx_mark := start_mark (hx_state s)\<rparr>"
    have "marks_ok (hp_state parser) 0 (start_mark (hp_state parser))"
      by (auto simp: marks_ok_def start_mark_def split: data_for.splits if_splits)
    then have "exec_ok env 0 (hx_p ?s) ?s" using run assms by (simp add: s_def exec_ok_def parser_ok_def)
    then have "flow_all (at_end env) (\<lambda>_. False) (leave_ok env)
        (http_loop (length (en_data env)) env ?s)"
      by (intro http_loop_ok) (simp_all add: s_def)
    then have "flow_all (\<lambda>_. False) (\<lambda>_. False) (leave_ok env)
      (andthen (http_loop (length (en_data env)) env ?s) (\<lambda>s.
       andthen (leftover_callbacks env s) (\<lambda>s. RETURN (length (en_data env)) s)))"
      unfolding flow_all_andthen
      by (rule flow_all_mono) (auto simp: at_end_def intro!: flow_all_mono [OF leftover_callbacks_ok] exec_ok_parser)
    then have "flow_all (\<lambda>_. False) (\<lambda>_. False) ?L
      (andthen (http_loop (length (en_data env)) env ?s) (\<lambda>s.
       andthen (leftover_callbacks env s) (\<lambda>s. RETURN (length (en_data env)) s)))"
      by (rule flow_all_mono) (auto simp: leave_ok_def)
    moreover have "http_parser_flow env parser u = andthen (http_loop (length (en_data env)) env ?s) (\<lambda>s.
       andthen (leftover_callbacks env s) (\<lambda>s. RETURN (length (en_data env)) s))"
      using run by (simp add: http_parser_flow_def HTTP_PARSER_ERRNO_def s_def)
    ultimately show ?thesis by (simp only:)
  qed
qed

end

subsection \<open>Safety\<close>

text \<open>A parser as \<open>http_parser_init\<close> leaves it satisfies the invariant, whatever the limit.\<close>

lemma parser_ok_init: "parser_ok max_header_size (http_parser_init t)"
  by (cases t) (simp_all add: parser_ok_def http_parser_init_def state_ok_def)

text \<open>The calls for the reads of a connection, one after the other.\<close>

fun execute_reads :: "u32 \<Rightarrow> 'u http_parser_settings \<Rightarrow> byte list list \<Rightarrow> http_parser \<Rightarrow> 'u \<Rightarrow> 'u http_result" where
  "execute_reads mx settings [] parser u = Parsed 0 parser u"
| "execute_reads mx settings (dat # reads) parser u =
    (case http_parser_execute mx settings dat parser u of
       Parsed n parser u \<Rightarrow> execute_reads mx settings reads parser u
     | r \<Rightarrow> r)"

lemma execute_ok:
  assumes "calm_settings settings" and "parser_ok mx parser"
  shows "case http_parser_execute mx settings dat parser u of
      Parsed n parser' u' \<Rightarrow> n \<le> max 1 (length dat) \<and> parser_ok mx parser'
    | Threw parser' u' \<Rightarrow> True | Faulted \<Rightarrow> False"
proof -
  let ?env = "\<lparr>en_settings = settings, en_data = dat, en_max_header_size = mx,
             en_lenient = hp_lenient_http_headers parser\<rparr>"
  have "http_owner ?env" using assms(1) by unfold_locales simp
  then have "flow_all (\<lambda>_. False) (\<lambda>_. False) (\<lambda>n s. n \<le> max 1 (length dat) \<and> parser_ok mx (hx_parser s))
      (http_parser_flow ?env parser u)"
    using http_owner.http_parser_flow_ok [of ?env parser u] assms(2) by simp
  then show ?thesis
    by (cases "http_parser_flow ?env parser u") (simp_all add: http_parser_execute_def)
qed

text \<open>C6: A call of \<open>http_parser_execute\<close> on any data is safe for every parser in the invariant and all callbacks
  that leave the parser alone or pause it: no assertion fails, no string or table is read outside of its
  bounds, all loops and \<open>reexecute\<close> jumps end; it reports at most the bytes it was given (1 for the
  error of an unexpected end), and the parser is in the invariant again, its header counter within
  \<open>max_header_size\<close> unless the call failed.\<close>

theorem http_parser_safe:
  assumes "calm_settings settings" and "parser_ok mx parser"
  shows "case http_parser_execute mx settings dat parser u of
      Parsed n parser' u' \<Rightarrow> n \<le> max 1 (length dat) \<and> parser_ok mx parser'
    | Threw parser' u' \<Rightarrow> True | Faulted \<Rightarrow> False"
  using assms by (rule execute_ok)

lemma calm_init: "calm_settings http_parser_settings_init"
  by (simp add: calm_settings_def http_parser_settings_init_def calm_cb_def calm_data_cb_def)

theorem http_parser_safe_witness:
  "case http_parser_execute HTTP_MAX_HEADER_SIZE http_parser_settings_init [71, 69, 84, 32] (http_parser_init HTTP_REQUEST) () of
      Parsed n parser' u' \<Rightarrow> n \<le> max 1 (length [71, 69, 84, 32 :: byte]) \<and> parser_ok HTTP_MAX_HEADER_SIZE parser'
    | Threw parser' u' \<Rightarrow> True | Faulted \<Rightarrow> False"
  by (rule http_parser_safe [OF calm_init parser_ok_init, where dat = "[71, 69, 84, 32]"])

text \<open>C7: From \<open>http_parser_init\<close>, no sequence of reads makes the parser fault, and whenever it is not in an
  error state its header counter is within \<open>max_header_size\<close>.\<close>

theorem http_reads_safe:
  assumes "calm_settings settings"
  shows "case execute_reads mx settings reads (http_parser_init t) u of
      Parsed n parser u' \<Rightarrow> hp_http_errno parser = HPE_OK \<longrightarrow> hp_nread parser \<le> mx
    | Threw parser u' \<Rightarrow> True | Faulted \<Rightarrow> False"
proof -
  have "case execute_reads mx settings reads parser u of
      Parsed n parser u' \<Rightarrow> parser_ok mx parser | Threw parser u' \<Rightarrow> True | Faulted \<Rightarrow> False"
    if "parser_ok mx parser" for parser u
    using that
  proof (induction reads arbitrary: parser u)
    case (Cons dat reads)
    show ?case
      using execute_ok [OF assms Cons.prems, of dat u] Cons.IH
      by (cases "http_parser_execute mx settings dat parser u") simp_all
  qed simp
  from this [OF parser_ok_init, of t u] show ?thesis
    by (cases "execute_reads mx settings reads (http_parser_init t) u") (simp_all add: parser_ok_def)
qed

theorem http_reads_safe_witness:
  "case execute_reads 2 http_parser_settings_init [[71, 69], [84, 32]] (http_parser_init HTTP_REQUEST) () of
      Parsed n parser u' \<Rightarrow> hp_http_errno parser = HPE_OK \<longrightarrow> hp_nread parser \<le> 2
    | Threw parser u' \<Rightarrow> True | Faulted \<Rightarrow> False"
  by (rule http_reads_safe [OF calm_init])

text \<open>C18: An error is final: whatever is fed afterwards, no byte is consumed, no callback runs, and the parser keeps
  the error.\<close>

theorem http_error_final:
  assumes "hp_http_errno parser \<noteq> HPE_OK"
  shows "execute_reads mx settings reads parser u = Parsed 0 parser u"
  using assms
  by (induction reads) (simp_all add: http_parser_execute_def http_parser_flow_def HTTP_PARSER_ERRNO_def)

theorem http_error_final_witness:
  "execute_reads 9 http_parser_settings_init [[71], [69]] ((http_parser_init HTTP_REQUEST)\<lparr>hp_http_errno := HPE_STRICT\<rparr>) ()
     = Parsed 0 ((http_parser_init HTTP_REQUEST)\<lparr>hp_http_errno := HPE_STRICT\<rparr>) ()"
  by (rule http_error_final) simp

end
