(* ===== verification/WS_Frame.thy ===== *)
theory WS_Frame imports Prelude begin

text \<open>
  The WebSocket frame layer, \<^verbatim>\<open>lib/libhv/http/websocket_parser.c\<close> and its header: the
  incremental frame parser \<open>websocket_parser_execute\<close>, the XOR masking routines and the frame
  builder. The theory holds the definitions, the locale \<open>frame_consumer\<close> for what the parser
  expects of its callbacks, and inside it the proof that the parser is a left-to-right fold over
  single bytes, so that the way TCP cuts the stream into reads does not matter.
\<close>

subsection \<open>Data (websocket_parser.h)\<close>

datatype ws_state = s_start | s_head | s_length | s_mask | s_body

definition WS_OP_MASK :: u32 where "WS_OP_MASK = 0xF"
definition WS_FIN :: u32 where "WS_FIN = 0x10"
definition WS_HAS_MASK :: u32 where "WS_HAS_MASK = 0x20"

lemmas ws_flag_defs = WS_OP_MASK_def WS_FIN_def WS_HAS_MASK_def

text \<open>The field \<open>data\<close> of the C struct points at the owner of the parser; here the owner's
  state is the separate argument \<open>user\<close> of every callback.\<close>

record websocket_parser =
  wp_state :: ws_state
  wp_flags :: u32
  wp_mask :: "byte list"
  wp_mask_offset :: byte
  wp_length :: u64
  wp_require :: u64
  wp_offset :: u64

text \<open>
  A callback reads the parser and the owner's state. It returns its \<open>int\<close> result (or leaves
  by a C++ exception), the new mask offset and the owner's new state: the mask offset is the
  one parser field that a callback of this code base writes, through
  \<open>websocket_parser_decode\<close>.
\<close>

record 'u websocket_parser_settings =
  on_frame_header :: "(websocket_parser \<Rightarrow> 'u \<Rightarrow> cb_result \<times> byte \<times> 'u) option"
  on_frame_body :: "(websocket_parser \<Rightarrow> byte list \<Rightarrow> 'u \<Rightarrow> cb_result \<times> byte \<times> 'u) option"
  on_frame_end :: "(websocket_parser \<Rightarrow> 'u \<Rightarrow> cb_result \<times> byte \<times> 'u) option"

definition websocket_parser_init :: "websocket_parser" where
  "websocket_parser_init = \<lparr>wp_state = s_start, wp_flags = 0, wp_mask = [0, 0, 0, 0],
     wp_mask_offset = 0, wp_length = 0, wp_require = 0, wp_offset = 0\<rparr>"

definition websocket_parser_settings_init :: "'u websocket_parser_settings" where
  "websocket_parser_settings_init =
     \<lparr>on_frame_header = None, on_frame_body = None, on_frame_end = None\<rparr>"

subsection \<open>The parser's local state and the callback macros\<close>

text \<open>
  \<open>ex_p\<close> is the pointer \<open>p\<close> as an offset from \<open>data\<close> (an integer: the code steps it
  to one before the start), \<open>ex_frame_offset\<close> the local \<open>frame_offset\<close>. The exit value
  \<open>Returned n\<close> is \<open>GET_NPARSED()\<close>, which is \<open>p - data\<close> on both of its branches.
\<close>

record 'u ws_exec =
  ex_parser :: websocket_parser
  ex_user :: 'u
  ex_p :: int
  ex_frame_offset :: u64

datatype ws_exit = Returned int | Thrown

type_synonym 'u ws_step = "(ws_exit \<times> 'u ws_exec) + 'u ws_exec"

definition ws_callback :: "cb_result \<times> byte \<times> 'u \<Rightarrow> 'u ws_exec \<Rightarrow> 'u ws_step" where
  "ws_callback res s =
     (case res of (r, mo, u) \<Rightarrow>
        let s' = s\<lparr>ex_parser := (ex_parser s)\<lparr>wp_mask_offset := mo\<rparr>, ex_user := u\<rparr> in
        case r of CbThrow \<Rightarrow> Inl (Thrown, s')
        | CbReturn n \<Rightarrow> if n \<noteq> 0 then Inl (Returned (ex_p s'), s') else Inr s')"

definition NOTIFY_CB ::
  "(websocket_parser \<Rightarrow> 'u \<Rightarrow> cb_result \<times> byte \<times> 'u) option \<Rightarrow> 'u ws_exec \<Rightarrow> 'u ws_step" where
  "NOTIFY_CB cb s =
     (case cb of None \<Rightarrow> Inr s | Some f \<Rightarrow> ws_callback (f (ex_parser s) (ex_user s)) s)"

definition EMIT_DATA_CB ::
  "(websocket_parser \<Rightarrow> byte list \<Rightarrow> 'u \<Rightarrow> cb_result \<times> byte \<times> 'u) option \<Rightarrow> byte list \<Rightarrow>
   'u ws_exec \<Rightarrow> 'u ws_step" where
  "EMIT_DATA_CB cb bs s =
     (case cb of None \<Rightarrow> Inr s | Some f \<Rightarrow> ws_callback (f (ex_parser s) bs (ex_user s)) s)"

subsection \<open>The cases of the state switch\<close>

definition upd_parser :: "(websocket_parser \<Rightarrow> websocket_parser) \<Rightarrow> 'u ws_exec \<Rightarrow> 'u ws_exec" where
  "upd_parser f s = s\<lparr>ex_parser := f (ex_parser s)\<rparr>"

definition ws_case_start :: "byte \<Rightarrow> 'u ws_exec \<Rightarrow> 'u ws_step" where
  "ws_case_start CC s =
     (let fl = (ucast CC :: u32) AND WS_OP_MASK;
          fl' = (if CC AND 0x80 \<noteq> 0 then fl OR WS_FIN else fl) in
      Inr ((upd_parser (\<lambda>q. q\<lparr>wp_offset := 0, wp_length := 0, wp_mask_offset := 0,
              wp_flags := fl', wp_state := s_head\<rparr>) s)
           \<lparr>ex_frame_offset := ex_frame_offset s + 1\<rparr>))"

text \<open>The header is complete: go to the body, or report an empty frame.\<close>

definition ws_header_done :: "'u websocket_parser_settings \<Rightarrow> 'u ws_exec \<Rightarrow> 'u ws_step" where
  "ws_header_done settings s =
     (if wp_length (ex_parser s) \<noteq> 0 then
        NOTIFY_CB (on_frame_header settings)
          (upd_parser (\<lambda>q. q\<lparr>wp_state := s_body, wp_require := wp_length q\<rparr>) s)
      else
        bind_ret (NOTIFY_CB (on_frame_header settings) (upd_parser (\<lambda>q. q\<lparr>wp_state := s_start\<rparr>) s))
          (NOTIFY_CB (on_frame_end settings)))"

text \<open>The mask comes next, if the frame has one.\<close>

definition ws_length_done :: "'u websocket_parser_settings \<Rightarrow> 'u ws_exec \<Rightarrow> 'u ws_step" where
  "ws_length_done settings s =
     (if wp_flags (ex_parser s) AND WS_HAS_MASK \<noteq> 0 then
        Inr (upd_parser (\<lambda>q. q\<lparr>wp_state := s_mask, wp_require := 4\<rparr>) s)
      else ws_header_done settings s)"

definition ws_case_head :: "'u websocket_parser_settings \<Rightarrow> byte \<Rightarrow> 'u ws_exec \<Rightarrow> 'u ws_step" where
  "ws_case_head settings CC s =
     (let s1 = upd_parser (\<lambda>q. q\<lparr>wp_length := ucast CC AND 0x7F,
                 wp_flags := (if CC AND 0x80 \<noteq> 0 then wp_flags q OR WS_HAS_MASK else wp_flags q)\<rparr>) s in
      bind_ret
        (if wp_length (ex_parser s1) \<ge> 126 then
           Inr (upd_parser (\<lambda>q. q\<lparr>wp_require := (if wp_length q = 127 then 8 else 2),
                  wp_length := 0, wp_state := s_length\<rparr>) s1)
         else ws_length_done settings s1)
        (\<lambda>s2. Inr (s2\<lparr>ex_frame_offset := ex_frame_offset s2 + 1\<rparr>)))"

text \<open>The two inner \<open>while(HAS_DATA() && parser->require)\<close> loops, over the bytes from \<open>p\<close>.\<close>

fun ws_length_loop :: "byte list \<Rightarrow> 'u ws_exec \<Rightarrow> 'u ws_exec" where
  "ws_length_loop [] s = s"
| "ws_length_loop (CC # cs) s =
     (if wp_require (ex_parser s) \<noteq> 0 then
        ws_length_loop cs
          ((upd_parser (\<lambda>q. q\<lparr>wp_length := push_bit 8 (wp_length q) OR ucast CC,
               wp_require := wp_require q - 1\<rparr>) s)
           \<lparr>ex_frame_offset := ex_frame_offset s + 1, ex_p := ex_p s + 1\<rparr>)
      else s)"

fun ws_mask_loop :: "byte list \<Rightarrow> 'u ws_exec \<Rightarrow> 'u ws_exec" where
  "ws_mask_loop [] s = s"
| "ws_mask_loop (CC # cs) s =
     (if wp_require (ex_parser s) \<noteq> 0 then
        ws_mask_loop cs
          ((upd_parser (\<lambda>q. q\<lparr>wp_mask := (wp_mask q)[4 - unat (wp_require q) := CC],
               wp_require := wp_require q - 1\<rparr>) s)
           \<lparr>ex_frame_offset := ex_frame_offset s + 1, ex_p := ex_p s + 1\<rparr>)
      else s)"

definition step_back :: "'u ws_exec \<Rightarrow> 'u ws_exec" where
  "step_back s = s\<lparr>ex_p := ex_p s - 1\<rparr>"

definition ws_case_length ::
  "'u websocket_parser_settings \<Rightarrow> byte list \<Rightarrow> 'u ws_exec \<Rightarrow> 'u ws_step" where
  "ws_case_length settings data s =
     (let s1 = step_back (ws_length_loop (drop (nat (ex_p s)) data) s) in
      if wp_require (ex_parser s1) = 0 then ws_length_done settings s1 else Inr s1)"

definition ws_case_mask ::
  "'u websocket_parser_settings \<Rightarrow> byte list \<Rightarrow> 'u ws_exec \<Rightarrow> 'u ws_step" where
  "ws_case_mask settings data s =
     (let s1 = step_back (ws_mask_loop (drop (nat (ex_p s)) data) s) in
      if wp_require (ex_parser s1) = 0 then ws_header_done settings s1 else Inr s1)"

text \<open>
  The body. The comparison \<open>p + parser->require <= end\<close> is on mathematical integers here: in C
  a sum past the end of the buffer is already undefined, and on a flat 64-bit address space it
  wraps for a \<open>require\<close> close to \<open>2^64\<close>.
\<close>

definition ws_case_body ::
  "'u websocket_parser_settings \<Rightarrow> byte list \<Rightarrow> 'u ws_exec \<Rightarrow> 'u ws_step" where
  "ws_case_body settings data s =
     bind_ret
       (if wp_require (ex_parser s) \<noteq> 0 then
          (let rest = drop (nat (ex_p s)) data; ende = int (length data);
               req = wp_require (ex_parser s) in
           if ex_p s + uint req \<le> ende then
             bind_ret (EMIT_DATA_CB (on_frame_body settings) (take (unat req) rest) s)
               (\<lambda>s1. Inr (step_back ((upd_parser (\<lambda>q. q\<lparr>wp_require := 0\<rparr>) s1)
                   \<lparr>ex_p := ex_p s1 + uint req, ex_frame_offset := word_of_int (ex_p s1 + uint req)\<rparr>)))
           else
             bind_ret (EMIT_DATA_CB (on_frame_body settings) rest s)
               (\<lambda>s1. Inr (step_back ((upd_parser (\<lambda>q. q\<lparr>wp_require := req - word_of_int (ende - ex_p s1),
                       wp_offset := wp_offset q + (word_of_int ende - ex_frame_offset s1)\<rparr>) s1)
                   \<lparr>ex_p := ende, ex_frame_offset := 0\<rparr>))))
        else Inr s)
       (\<lambda>s2. if wp_require (ex_parser s2) = 0 then
               NOTIFY_CB (on_frame_end settings) (upd_parser (\<lambda>q. q\<lparr>wp_state := s_start\<rparr>) s2)
             else Inr s2)"

definition ws_switch ::
  "'u websocket_parser_settings \<Rightarrow> byte list \<Rightarrow> 'u ws_exec \<Rightarrow> 'u ws_step" where
  "ws_switch settings data s =
     (case wp_state (ex_parser s) of
        s_start \<Rightarrow> ws_case_start (data ! nat (ex_p s)) s
      | s_head \<Rightarrow> ws_case_head settings (data ! nat (ex_p s)) s
      | s_length \<Rightarrow> ws_case_length settings data s
      | s_mask \<Rightarrow> ws_case_mask settings data s
      | s_body \<Rightarrow> ws_case_body settings data s)"

subsection \<open>The main loop\<close>

lemma ws_callback_Inr_simps:
  "ws_callback res s = Inr s' \<Longrightarrow> ex_p s' = ex_p s \<and> ex_frame_offset s' = ex_frame_offset s
     \<and> wp_state (ex_parser s') = wp_state (ex_parser s)
     \<and> wp_require (ex_parser s') = wp_require (ex_parser s)
     \<and> wp_length (ex_parser s') = wp_length (ex_parser s)"
  by (auto simp: ws_callback_def Let_def split: prod.splits cb_result.splits if_splits)

lemma NOTIFY_CB_Inr_simps:
  "NOTIFY_CB cb s = Inr s' \<Longrightarrow> ex_p s' = ex_p s \<and> ex_frame_offset s' = ex_frame_offset s
     \<and> wp_state (ex_parser s') = wp_state (ex_parser s)
     \<and> wp_require (ex_parser s') = wp_require (ex_parser s)
     \<and> wp_length (ex_parser s') = wp_length (ex_parser s)"
  by (auto simp: NOTIFY_CB_def dest: ws_callback_Inr_simps split: option.splits)

lemma EMIT_DATA_CB_Inr_simps:
  "EMIT_DATA_CB cb bs s = Inr s' \<Longrightarrow> ex_p s' = ex_p s \<and> ex_frame_offset s' = ex_frame_offset s
     \<and> wp_state (ex_parser s') = wp_state (ex_parser s)
     \<and> wp_require (ex_parser s') = wp_require (ex_parser s)
     \<and> wp_length (ex_parser s') = wp_length (ex_parser s)"
  by (auto simp: EMIT_DATA_CB_def dest: ws_callback_Inr_simps split: option.splits)

lemmas ws_cb_Inr = NOTIFY_CB_Inr_simps EMIT_DATA_CB_Inr_simps

lemma upd_parser_simps [simp]:
  "ex_parser (upd_parser f s) = f (ex_parser s)" "ex_user (upd_parser f s) = ex_user s"
  "ex_p (upd_parser f s) = ex_p s" "ex_frame_offset (upd_parser f s) = ex_frame_offset s"
  by (simp_all add: upd_parser_def)

lemma step_back_simps [simp]:
  "ex_parser (step_back s) = ex_parser s" "ex_user (step_back s) = ex_user s"
  "ex_p (step_back s) = ex_p s - 1" "ex_frame_offset (step_back s) = ex_frame_offset s"
  by (simp_all add: step_back_def)

text \<open>A state that only hands over to the next one without taking a byte.\<close>

definition ws_idle :: "'u ws_exec \<Rightarrow> bool" where
  "ws_idle s \<longleftrightarrow> wp_state (ex_parser s) \<in> {s_length, s_mask} \<and> wp_require (ex_parser s) = 0"

lemma ws_header_done_Inr:
  assumes "ws_header_done settings s = Inr s'"
  shows "ex_p s' = ex_p s \<and> \<not> ws_idle s'"
  using assms by (fastforce simp: ws_header_done_def ws_idle_def ret_simps split: if_splits dest: ws_cb_Inr)

lemma ws_length_done_Inr:
  assumes "ws_length_done settings s = Inr s'"
  shows "ex_p s' = ex_p s \<and> \<not> ws_idle s'"
  using assms by (auto simp: ws_length_done_def ws_idle_def split: if_splits dest: ws_header_done_Inr [unfolded ws_idle_def])

lemma ws_length_loop_p: "ex_p s \<le> ex_p (ws_length_loop cs s)"
  by (induction cs s rule: ws_length_loop.induct) auto

lemma ws_mask_loop_p: "ex_p s \<le> ex_p (ws_mask_loop cs s)"
  by (induction cs s rule: ws_mask_loop.induct) auto

lemma ws_length_loop_progress:
  "cs \<noteq> [] \<Longrightarrow> wp_require (ex_parser s) \<noteq> 0 \<Longrightarrow> ex_p s < ex_p (ws_length_loop cs s)"
  by (cases cs) (auto intro: less_le_trans [OF _ ws_length_loop_p])

lemma ws_mask_loop_progress:
  "cs \<noteq> [] \<Longrightarrow> wp_require (ex_parser s) \<noteq> 0 \<Longrightarrow> ex_p s < ex_p (ws_mask_loop cs s)"
  by (cases cs) (auto intro: less_le_trans [OF _ ws_mask_loop_p])

lemma ws_loops_stop:
  "wp_require (ex_parser s) = 0 \<Longrightarrow> ws_length_loop cs s = s"
  "wp_require (ex_parser s) = 0 \<Longrightarrow> ws_mask_loop cs s = s"
  by (cases cs; simp)+

text \<open>Every pass of the loop takes a byte or leaves the idle states for good.\<close>

lemma ws_case_length_progress:
  assumes "ws_case_length settings data s = Inr s'" and "0 \<le> ex_p s" and "ex_p s < int (length data)"
  shows "if wp_require (ex_parser s) = 0 then ex_p s' + 1 = ex_p s \<and> \<not> ws_idle s' else ex_p s < ex_p s' + 1"
proof -
  let ?r = "drop (nat (ex_p s)) data"
  have ne: "?r \<noteq> []" using assms(2,3) by simp
  show ?thesis
    using assms(1) ws_length_loop_progress [OF ne, of s]
    by (auto simp: ws_case_length_def Let_def ws_loops_stop split: if_splits dest: ws_length_done_Inr)
qed

lemma ws_case_mask_progress:
  assumes "ws_case_mask settings data s = Inr s'" and "0 \<le> ex_p s" and "ex_p s < int (length data)"
  shows "if wp_require (ex_parser s) = 0 then ex_p s' + 1 = ex_p s \<and> \<not> ws_idle s' else ex_p s < ex_p s' + 1"
proof -
  let ?r = "drop (nat (ex_p s)) data"
  have ne: "?r \<noteq> []" using assms(2,3) by simp
  show ?thesis
    using assms(1) ws_mask_loop_progress [OF ne, of s]
    by (auto simp: ws_case_mask_def Let_def ws_loops_stop split: if_splits dest: ws_header_done_Inr)
qed

lemma ws_case_body_progress:
  assumes "ws_case_body settings data s = Inr s'" and "ex_p s < int (length data)"
  shows "ex_p s < ex_p s' + 1"
proof -
  have "0 < uint (wp_require (ex_parser s))" if "wp_require (ex_parser s) \<noteq> 0"
    using that by (simp add: word_neq_0_conv word_less_def)
  with assms show ?thesis
    by (auto simp: ws_case_body_def Let_def ret_simps split: if_splits dest!: ws_cb_Inr)
qed

lemma ws_case_head_progress:
  "ws_case_head settings CC s = Inr s' \<Longrightarrow> ex_p s' = ex_p s"
  by (auto simp: ws_case_head_def Let_def ret_simps split: if_splits dest!: ws_length_done_Inr)

lemma ws_switch_progress:
  assumes "ws_switch settings data s = Inr s'" and "0 \<le> ex_p s" and "ex_p s < int (length data)"
  shows "ex_p s < ex_p s' + 1 \<or> (ex_p s' + 1 = ex_p s \<and> ws_idle s \<and> \<not> ws_idle s')"
  using assms ws_case_length_progress [OF _ assms(2,3), of settings s']
    ws_case_mask_progress [OF _ assms(2,3), of settings s']
    ws_case_body_progress [OF _ assms(3), of settings s']
    ws_case_head_progress [of settings _ s s']
  by (auto simp: ws_switch_def ws_case_start_def Let_def ws_idle_def split: ws_state.splits if_splits)

text \<open>
  The loop condition \<open>p != end\<close> is written \<open>0 <= p < end\<close>: \<open>p\<close> never passes \<open>end\<close> in a
  pass of the loop (\<open>pass_ok\<close> in the theory \<open>WS_Consumer\<close>), so the two conditions agree.
\<close>

function ws_loop ::
  "'u websocket_parser_settings \<Rightarrow> byte list \<Rightarrow> 'u ws_exec \<Rightarrow> ws_exit \<times> 'u ws_exec" where
  "ws_loop settings data s =
     (if 0 \<le> ex_p s \<and> ex_p s < int (length data) then
        (case ws_switch settings data s of
           Inl r \<Rightarrow> r
         | Inr s' \<Rightarrow> ws_loop settings data (s'\<lparr>ex_p := ex_p s' + 1\<rparr>))
      else (Returned (ex_p s), s))"
  by pat_completeness auto
termination
proof (relation "measures [\<lambda>(settings, data, s). nat (int (length data) - ex_p s),
    \<lambda>(settings, data, s). if ws_idle s then 1 else 0]", goal_cases)
  case 1
  then show ?case by simp
next
  case (2 settings data s s')
  from ws_switch_progress [OF 2(2)] 2(1)
  show ?case by (auto simp: ws_idle_def)
qed

declare ws_loop.simps [simp del]

definition websocket_parser_execute ::
  "websocket_parser \<Rightarrow> 'u \<Rightarrow> 'u websocket_parser_settings \<Rightarrow> byte list \<Rightarrow>
   ws_exit \<times> websocket_parser \<times> 'u" where
  "websocket_parser_execute q u settings data =
     (case ws_loop settings data \<lparr>ex_parser = q, ex_user = u, ex_p = 0, ex_frame_offset = 0\<rparr> of
        (r, s) \<Rightarrow> (r, ex_parser s, ex_user s))"

subsection \<open>Masking and frame building\<close>

definition websocket_decode :: "byte list \<Rightarrow> byte list \<Rightarrow> byte \<Rightarrow> byte list \<times> byte" where
  "websocket_decode src msk mask_offset =
     (map (\<lambda>i. src ! i XOR msk ! ((i + unat mask_offset) mod 4)) [0..<length src],
      word_of_nat ((length src + unat mask_offset) mod 4))"

definition websocket_parser_decode ::
  "byte list \<Rightarrow> websocket_parser \<Rightarrow> byte list \<times> websocket_parser" where
  "websocket_parser_decode src q =
     (map (\<lambda>i. src ! i XOR wp_mask q ! ((i + unat (wp_mask_offset q)) mod 4)) [0..<length src],
      q\<lparr>wp_mask_offset := word_of_nat ((length src + unat (wp_mask_offset q)) mod 4)\<rparr>)"

definition websocket_calc_frame_size :: "u32 \<Rightarrow> u64 \<Rightarrow> u64" where
  "websocket_calc_frame_size fl data_len =
     (let size1 = data_len + 2;
          size2 = (if data_len \<ge> 126 then (if data_len > 0xFFFF then size1 + 8 else size1 + 2)
                   else size1)
      in if fl AND WS_HAS_MASK \<noteq> 0 then size2 + 4 else size2)"

text \<open>
  The bytes written to \<open>frame\<close>; the number the C function returns is their count. \<open>frame\<close>
  is what the caller's buffer held before: with \<open>WS_HAS_MASK\<close> set and \<open>mask == NULL\<close> the
  code masks with the four bytes it finds there.
\<close>

definition ws_frame_head :: "u32 \<Rightarrow> u64 \<Rightarrow> byte list" where
  "ws_frame_head fl data_len =
     (let b0 = (if fl AND WS_FIN \<noteq> 0 then 0x80 else 0) OR ucast (fl AND WS_OP_MASK);
          b1 = (if fl AND WS_HAS_MASK \<noteq> 0 then 0x80 else 0 :: byte) in
      if data_len < 126 then [b0, b1 OR ucast data_len]
      else if data_len \<le> 0xFFFF then
        [b0, b1 OR 126, ucast (drop_bit 8 data_len), ucast (data_len AND 0xFF)]
      else
        [b0, b1 OR 127, ucast (drop_bit 56 data_len AND 0xFF), ucast (drop_bit 48 data_len AND 0xFF),
         ucast (drop_bit 40 data_len AND 0xFF), ucast (drop_bit 32 data_len AND 0xFF),
         ucast (drop_bit 24 data_len AND 0xFF), ucast (drop_bit 16 data_len AND 0xFF),
         ucast (drop_bit 8 data_len AND 0xFF), ucast (data_len AND 0xFF)])"

definition websocket_build_frame ::
  "byte list \<Rightarrow> u32 \<Rightarrow> byte list option \<Rightarrow> byte list \<Rightarrow> byte list" where
  "websocket_build_frame frame fl msk data =
     (let head = ws_frame_head fl (of_nat (length data)); body_offset = length head in
      if fl AND WS_HAS_MASK \<noteq> 0 then
        (let m = (case msk of Some k \<Rightarrow> take 4 k | None \<Rightarrow> take 4 (drop body_offset frame))
         in head @ m @ fst (websocket_decode data m 0))
      else head @ data)"

definition websocket_parser_get_opcode :: "websocket_parser \<Rightarrow> u32" where
  "websocket_parser_get_opcode q = wp_flags q AND WS_OP_MASK"

definition websocket_parser_has_mask :: "websocket_parser \<Rightarrow> bool" where
  "websocket_parser_has_mask q \<longleftrightarrow> wp_flags q AND WS_HAS_MASK \<noteq> 0"

definition websocket_parser_has_final :: "websocket_parser \<Rightarrow> bool" where
  "websocket_parser_has_final q \<longleftrightarrow> wp_flags q AND WS_FIN \<noteq> 0"

subsection \<open>The byte machine: a specification of the parser\<close>

text \<open>
  The specification reads one byte at a time and has no buffer offsets at all. \<open>hdr\<close>,
  \<open>body\<close> and \<open>fin\<close> are the effects of the three callbacks on the mask offset and on the
  owner's state (\<open>None\<close>: the callback throws).
\<close>

type_synonym 'u hdr_effect = "websocket_parser \<Rightarrow> 'u \<Rightarrow> (byte \<times> 'u) option"
type_synonym 'u body_effect = "websocket_parser \<Rightarrow> byte list \<Rightarrow> 'u \<Rightarrow> byte \<times> 'u"

definition byte_notify ::
  "'u hdr_effect \<Rightarrow> websocket_parser \<times> 'u \<Rightarrow> (websocket_parser \<times> 'u) option" where
  "byte_notify f = (\<lambda>(q, u). map_option (\<lambda>(m, u'). (q\<lparr>wp_mask_offset := m\<rparr>, u')) (f q u))"

definition byte_header_done ::
  "'u hdr_effect \<Rightarrow> 'u hdr_effect \<Rightarrow> websocket_parser \<times> 'u \<Rightarrow> (websocket_parser \<times> 'u) option" where
  "byte_header_done hdr fin = (\<lambda>(q, u).
     if wp_length q \<noteq> 0 then byte_notify hdr (q\<lparr>wp_state := s_body, wp_require := wp_length q\<rparr>, u)
     else Option.bind (byte_notify hdr (q\<lparr>wp_state := s_start\<rparr>, u)) (byte_notify fin))"

definition byte_length_done ::
  "'u hdr_effect \<Rightarrow> 'u hdr_effect \<Rightarrow> websocket_parser \<times> 'u \<Rightarrow> (websocket_parser \<times> 'u) option" where
  "byte_length_done hdr fin = (\<lambda>(q, u).
     if wp_flags q AND WS_HAS_MASK \<noteq> 0 then Some (q\<lparr>wp_state := s_mask, wp_require := 4\<rparr>, u)
     else byte_header_done hdr fin (q, u))"

definition byte_step ::
  "'u hdr_effect \<Rightarrow> 'u body_effect \<Rightarrow> 'u hdr_effect \<Rightarrow> byte \<Rightarrow> websocket_parser \<times> 'u \<Rightarrow>
   (websocket_parser \<times> 'u) option" where
  "byte_step hdr body fin c = (\<lambda>(q, u). case wp_state q of
     s_start \<Rightarrow>
       Some (q\<lparr>wp_length := 0, wp_mask_offset := 0, wp_state := s_head,
               wp_flags := (ucast c AND WS_OP_MASK) OR (if c AND 0x80 \<noteq> 0 then WS_FIN else 0)\<rparr>, u)
   | s_head \<Rightarrow>
       (let n = ucast c AND 0x7F;
            q' = q\<lparr>wp_length := n, wp_flags := wp_flags q OR (if c AND 0x80 \<noteq> 0 then WS_HAS_MASK else 0)\<rparr>
        in if n \<ge> 126 then
             Some (q'\<lparr>wp_require := (if n = 127 then 8 else 2), wp_length := 0, wp_state := s_length\<rparr>, u)
           else byte_length_done hdr fin (q', u))
   | s_length \<Rightarrow>
       (let q' = q\<lparr>wp_length := push_bit 8 (wp_length q) OR ucast c, wp_require := wp_require q - 1\<rparr>
        in if wp_require q' = 0 then byte_length_done hdr fin (q', u) else Some (q', u))
   | s_mask \<Rightarrow>
       (let q' = q\<lparr>wp_mask := (wp_mask q)[4 - unat (wp_require q) := c], wp_require := wp_require q - 1\<rparr>
        in if wp_require q' = 0 then byte_header_done hdr fin (q', u) else Some (q', u))
   | s_body \<Rightarrow>
       (case body q [c] u of (m, u') \<Rightarrow>
          let q' = q\<lparr>wp_mask_offset := m, wp_require := wp_require q - 1\<rparr>
          in if wp_require q' = 0 then byte_notify fin (q'\<lparr>wp_state := s_start\<rparr>, u') else Some (q', u')))"

fun byte_feed ::
  "'u hdr_effect \<Rightarrow> 'u body_effect \<Rightarrow> 'u hdr_effect \<Rightarrow> byte list \<Rightarrow> websocket_parser \<times> 'u \<Rightarrow>
   (websocket_parser \<times> 'u) option" where
  "byte_feed hdr body fin [] st = Some st"
| "byte_feed hdr body fin (c # cs) st =
     Option.bind (byte_step hdr body fin c st) (byte_feed hdr body fin cs)"

lemma bind_byte_feed_Nil [simp]: "Option.bind st (byte_feed hdr body fin []) = st"
  by (cases st) simp_all

lemma byte_feed_append:
  "byte_feed hdr body fin (xs @ ys) st =
     Option.bind (byte_feed hdr body fin xs st) (byte_feed hdr body fin ys)"
  by (induction xs arbitrary: st) (auto split: Option.bind_splits)

text \<open>What the parser's fields satisfy between two calls.\<close>

definition ws_wf :: "websocket_parser \<Rightarrow> bool" where
  "ws_wf q \<longleftrightarrow> (wp_state q \<in> {s_length, s_mask, s_body} \<longrightarrow> wp_require q \<noteq> 0)"

text \<open>The parser without its \<open>offset\<close> field, which nothing reads.\<close>

definition strip_offset :: "websocket_parser \<Rightarrow> websocket_parser" where
  "strip_offset q = q\<lparr>wp_offset := 0\<rparr>"

end
