(* ===== verification/WS_Consumer.thy ===== *)
theory WS_Consumer imports WS_Frame begin

text \<open>
  The contract between the frame parser and the owner of its callbacks, as the locale
  \<open>frame_consumer\<close>, and the refinement proved once inside it: \<open>websocket_parser_execute\<close>
  (which works on whole reads, jumps over bodies and steps \<open>p\<close> back and forth) does what the
  byte machine \<open>byte_feed\<close> does, so feeding a stream in pieces is feeding it at once.
\<close>

locale frame_consumer =
  fixes settings :: "'u websocket_parser_settings"
    and hdr :: "'u hdr_effect" and body :: "'u body_effect" and fin :: "'u hdr_effect"
  assumes header_cb: "\<exists>f. on_frame_header settings = Some f \<and>
            (\<forall>q u. case hdr q u of None \<Rightarrow> fst (f q u) = CbThrow
               | Some (m, u') \<Rightarrow> f q u = (CbReturn 0, m, u'))"
    and body_cb: "on_frame_body settings = Some (\<lambda>q bs u. case body q bs u of (m, u') \<Rightarrow> (CbReturn 0, m, u'))"
    and end_cb: "\<exists>f. on_frame_end settings = Some f \<and>
            (\<forall>q u. case fin q u of None \<Rightarrow> fst (f q u) = CbThrow
               | Some (m, u') \<Rightarrow> f q u = (CbReturn 0, m, u'))"
    and hdr_offset: "hdr (q\<lparr>wp_offset := k\<rparr>) u = hdr q u"
    and fin_offset: "fin (q\<lparr>wp_offset := k\<rparr>) u = fin q u"
    and body_offset: "body (q\<lparr>wp_offset := k\<rparr>) bs u = body q bs u"
    and body_require: "body (q\<lparr>wp_require := r\<rparr>) bs u = body q bs u"
    and body_append: "xs \<noteq> [] \<Longrightarrow> ys \<noteq> [] \<Longrightarrow>
      body q (xs @ ys) u = (case body q xs u of (m, u') \<Rightarrow> body (q\<lparr>wp_mask_offset := m\<rparr>) ys u')"
begin

text \<open>A statement of the C code against the byte machine started in the same state.\<close>

definition agrees :: "'u ws_step \<Rightarrow> (websocket_parser \<times> 'u) option \<Rightarrow> bool" where
  "agrees r st \<longleftrightarrow> (case r of Inl (e, s) \<Rightarrow> e = Thrown \<and> st = None
     | Inr s \<Rightarrow> st = Some (strip_offset (ex_parser s), ex_user s))"

definition start_of :: "'u ws_exec \<Rightarrow> websocket_parser \<times> 'u" where
  "start_of s = (strip_offset (ex_parser s), ex_user s)"

lemma strip_simps [simp]:
  "wp_state (strip_offset q) = wp_state q" "wp_flags (strip_offset q) = wp_flags q"
  "wp_mask (strip_offset q) = wp_mask q" "wp_mask_offset (strip_offset q) = wp_mask_offset q"
  "wp_length (strip_offset q) = wp_length q" "wp_require (strip_offset q) = wp_require q"
  "hdr (strip_offset q) u = hdr q u" "fin (strip_offset q) u = fin q u"
  "body (strip_offset q) bs u = body q bs u"
  by (simp_all add: strip_offset_def hdr_offset fin_offset body_offset)

lemma strip_upd [simp]:
  "strip_offset (q\<lparr>wp_state := a\<rparr>) = (strip_offset q)\<lparr>wp_state := a\<rparr>"
  "strip_offset (q\<lparr>wp_flags := f\<rparr>) = (strip_offset q)\<lparr>wp_flags := f\<rparr>"
  "strip_offset (q\<lparr>wp_mask := k\<rparr>) = (strip_offset q)\<lparr>wp_mask := k\<rparr>"
  "strip_offset (q\<lparr>wp_mask_offset := m\<rparr>) = (strip_offset q)\<lparr>wp_mask_offset := m\<rparr>"
  "strip_offset (q\<lparr>wp_length := n\<rparr>) = (strip_offset q)\<lparr>wp_length := n\<rparr>"
  "strip_offset (q\<lparr>wp_require := n\<rparr>) = (strip_offset q)\<lparr>wp_require := n\<rparr>"
  "strip_offset (q\<lparr>wp_offset := n\<rparr>) = strip_offset q"
  by (simp_all add: strip_offset_def)

lemma hdr_strip_upd [simp]:
  "hdr ((strip_offset q)\<lparr>wp_state := a, wp_require := n\<rparr>) u = hdr (q\<lparr>wp_state := a, wp_require := n\<rparr>) u"
  "hdr ((strip_offset q)\<lparr>wp_state := a\<rparr>) u = hdr (q\<lparr>wp_state := a\<rparr>) u"
  "fin ((strip_offset q)\<lparr>wp_state := a\<rparr>) u = fin (q\<lparr>wp_state := a\<rparr>) u"
  by (simp_all only: strip_upd [symmetric] strip_simps)

lemma NOTIFY_agrees:
  assumes "\<exists>f. cb = Some f \<and> (\<forall>q u. case g q u of None \<Rightarrow> fst (f q u) = CbThrow
     | Some (m, u') \<Rightarrow> f q u = (CbReturn 0, m, u'))"
    and "\<And>q u. g (strip_offset q) u = g q u"
  shows "agrees (NOTIFY_CB cb s) (byte_notify g (start_of s))"
proof -
  obtain f where f: "cb = Some f" and fg: "case g (ex_parser s) (ex_user s) of
      None \<Rightarrow> fst (f (ex_parser s) (ex_user s)) = CbThrow
     | Some (m, u') \<Rightarrow> f (ex_parser s) (ex_user s) = (CbReturn 0, m, u')"
    using assms(1) by blast
  show ?thesis
    using fg assms(2) [of "ex_parser s" "ex_user s"]
    by (auto simp: f agrees_def NOTIFY_CB_def ws_callback_def Let_def byte_notify_def start_of_def
        split: option.splits prod.splits)
qed

lemma NOTIFY_header:
  "agrees (NOTIFY_CB (on_frame_header settings) s) (byte_notify hdr (start_of s))"
  by (rule NOTIFY_agrees [OF header_cb]) simp

lemma NOTIFY_end:
  "agrees (NOTIFY_CB (on_frame_end settings) s) (byte_notify fin (start_of s))"
  by (rule NOTIFY_agrees [OF end_cb]) simp

lemma agrees_bind:
  assumes "agrees r st" and "\<And>s. r = Inr s \<Longrightarrow> agrees (f s) (g (start_of s))"
  shows "agrees (bind_ret r f) (Option.bind st g)"
  using assms by (cases r) (auto simp: agrees_def start_of_def)

lemma header_done:
  "agrees (ws_header_done settings s) (byte_header_done hdr fin (start_of s))"
proof (cases "wp_length (ex_parser s) = 0")
  case True
  let ?s = "upd_parser (\<lambda>q. q\<lparr>wp_state := s_start\<rparr>) s"
  have "agrees (bind_ret (NOTIFY_CB (on_frame_header settings) ?s) (NOTIFY_CB (on_frame_end settings)))
      (Option.bind (byte_notify hdr (start_of ?s)) (byte_notify fin))"
    by (rule agrees_bind) (rule NOTIFY_header, rule NOTIFY_end)
  then show ?thesis using True by (simp add: ws_header_done_def byte_header_done_def start_of_def)
next
  case False
  then show ?thesis
    using NOTIFY_header [of "upd_parser (\<lambda>q. q\<lparr>wp_state := s_body, wp_require := wp_length q\<rparr>) s"]
    by (simp add: ws_header_done_def byte_header_done_def start_of_def)
qed

lemma length_done:
  "agrees (ws_length_done settings s) (byte_length_done hdr fin (start_of s))"
  using header_done [of s]
  by (auto simp: ws_length_done_def byte_length_done_def agrees_def start_of_def)

lemma case_head:
  assumes "wp_state (ex_parser s) = s_head"
  shows "agrees (ws_case_head settings c s) (byte_step hdr body fin c (start_of s))"
proof -
  let ?s1 = "upd_parser (\<lambda>q. q\<lparr>wp_length := ucast c AND 0x7F,
     wp_flags := (if c AND 0x80 \<noteq> 0 then wp_flags q OR WS_HAS_MASK else wp_flags q)\<rparr>) s"
  have b: "byte_step hdr body fin c (start_of s) =
    (if (ucast c AND 0x7F :: u64) \<ge> 126 then
       Some (start_of (upd_parser (\<lambda>q. q\<lparr>wp_require := (if wp_length q = 127 then 8 else 2),
                  wp_length := 0, wp_state := s_length\<rparr>) ?s1))
     else byte_length_done hdr fin (start_of ?s1))"
    using assms by (simp add: byte_step_def start_of_def Let_def)
  show ?thesis
    unfolding b using length_done [of ?s1]
    by (auto simp: ws_case_head_def Let_def agrees_def start_of_def split: sum.splits)
qed

lemma case_start:
  assumes "wp_state (ex_parser s) = s_start"
  shows "agrees (ws_case_start c s) (byte_step hdr body fin c (start_of s))"
  using assms by (simp add: agrees_def ws_case_start_def byte_step_def start_of_def Let_def)

lemma length_loop:
  assumes "wp_state (ex_parser s) = s_length" and "wp_require (ex_parser s) \<noteq> 0" and "cs \<noteq> []"
  defines "s1 \<equiv> ws_length_loop cs s"
  shows "byte_feed hdr body fin cs (start_of s) =
     (if wp_require (ex_parser s1) = 0 then
        Option.bind (byte_length_done hdr fin (start_of s1))
          (byte_feed hdr body fin (drop (nat (ex_p s1 - ex_p s)) cs))
      else Some (start_of s1)) \<and>
     ex_p s < ex_p s1 \<and> ex_p s1 - ex_p s \<le> int (length cs) \<and>
     (wp_require (ex_parser s1) \<noteq> 0 \<longrightarrow> ex_p s1 - ex_p s = int (length cs) \<and> wp_state (ex_parser s1) = s_length)"
  using assms(1-3) unfolding s1_def
proof (induction cs arbitrary: s)
  case Nil
  then show ?case by simp
next
  case (Cons c cs)
  let ?s = "(upd_parser (\<lambda>q. q\<lparr>wp_length := push_bit 8 (wp_length q) OR ucast c,
               wp_require := wp_require q - 1\<rparr>) s)
           \<lparr>ex_frame_offset := ex_frame_offset s + 1, ex_p := ex_p s + 1\<rparr>"
  have loop: "ws_length_loop (c # cs) s = ws_length_loop cs ?s" using Cons.prems by simp
  have step: "byte_step hdr body fin c (start_of s) =
     (if wp_require (ex_parser ?s) = 0 then byte_length_done hdr fin (start_of ?s) else Some (start_of ?s))"
    using Cons.prems by (simp add: byte_step_def start_of_def Let_def)
  show ?case
  proof (cases "wp_require (ex_parser ?s) = 0 \<or> cs = []")
    case True
    then show ?thesis
      unfolding loop using step Cons.prems
      by (cases cs) (auto simp: ws_loops_stop)
  next
    case False
    then have feed: "byte_feed hdr body fin (c # cs) (start_of s) = byte_feed hdr body fin cs (start_of ?s)"
      using step by simp
    define s2 where "s2 = ws_length_loop cs ?s"
    have IH: "byte_feed hdr body fin cs (start_of ?s) =
        (if wp_require (ex_parser s2) = 0 then
           Option.bind (byte_length_done hdr fin (start_of s2))
             (byte_feed hdr body fin (drop (nat (ex_p s2 - (ex_p s + 1))) cs))
         else Some (start_of s2))"
      "ex_p s + 1 < ex_p s2" "ex_p s2 - (ex_p s + 1) \<le> int (length cs)"
      "wp_require (ex_parser s2) \<noteq> 0 \<longrightarrow> ex_p s2 - (ex_p s + 1) = int (length cs) \<and>
         wp_state (ex_parser s2) = s_length"
      using Cons.IH [of ?s] False Cons.prems unfolding s2_def by simp_all
    have "drop (nat (ex_p s2 - ex_p s)) (c # cs) = drop (nat (ex_p s2 - (ex_p s + 1))) cs"
      using IH(2) by (intro drop_nat_Cons) simp
    then show ?thesis
      unfolding loop feed s2_def [symmetric] using IH by auto
  qed
qed

lemma mask_loop:
  assumes "wp_state (ex_parser s) = s_mask" and "wp_require (ex_parser s) \<noteq> 0" and "cs \<noteq> []"
  defines "s1 \<equiv> ws_mask_loop cs s"
  shows "byte_feed hdr body fin cs (start_of s) =
     (if wp_require (ex_parser s1) = 0 then
        Option.bind (byte_header_done hdr fin (start_of s1))
          (byte_feed hdr body fin (drop (nat (ex_p s1 - ex_p s)) cs))
      else Some (start_of s1)) \<and>
     ex_p s < ex_p s1 \<and> ex_p s1 - ex_p s \<le> int (length cs) \<and>
     (wp_require (ex_parser s1) \<noteq> 0 \<longrightarrow> ex_p s1 - ex_p s = int (length cs) \<and> wp_state (ex_parser s1) = s_mask)"
  using assms(1-3) unfolding s1_def
proof (induction cs arbitrary: s)
  case Nil
  then show ?case by simp
next
  case (Cons c cs)
  let ?s = "(upd_parser (\<lambda>q. q\<lparr>wp_mask := (wp_mask q)[4 - unat (wp_require q) := c],
               wp_require := wp_require q - 1\<rparr>) s)
           \<lparr>ex_frame_offset := ex_frame_offset s + 1, ex_p := ex_p s + 1\<rparr>"
  have loop: "ws_mask_loop (c # cs) s = ws_mask_loop cs ?s" using Cons.prems by simp
  have step: "byte_step hdr body fin c (start_of s) =
     (if wp_require (ex_parser ?s) = 0 then byte_header_done hdr fin (start_of ?s) else Some (start_of ?s))"
    using Cons.prems by (simp add: byte_step_def start_of_def Let_def)
  show ?case
  proof (cases "wp_require (ex_parser ?s) = 0 \<or> cs = []")
    case True
    then show ?thesis
      unfolding loop using step Cons.prems
      by (cases cs) (auto simp: ws_loops_stop)
  next
    case False
    then have feed: "byte_feed hdr body fin (c # cs) (start_of s) = byte_feed hdr body fin cs (start_of ?s)"
      using step by simp
    define s2 where "s2 = ws_mask_loop cs ?s"
    have IH: "byte_feed hdr body fin cs (start_of ?s) =
        (if wp_require (ex_parser s2) = 0 then
           Option.bind (byte_header_done hdr fin (start_of s2))
             (byte_feed hdr body fin (drop (nat (ex_p s2 - (ex_p s + 1))) cs))
         else Some (start_of s2))"
      "ex_p s + 1 < ex_p s2" "ex_p s2 - (ex_p s + 1) \<le> int (length cs)"
      "wp_require (ex_parser s2) \<noteq> 0 \<longrightarrow> ex_p s2 - (ex_p s + 1) = int (length cs) \<and>
         wp_state (ex_parser s2) = s_mask"
      using Cons.IH [of ?s] False Cons.prems unfolding s2_def by simp_all
    have "drop (nat (ex_p s2 - ex_p s)) (c # cs) = drop (nat (ex_p s2 - (ex_p s + 1))) cs"
      using IH(2) by (intro drop_nat_Cons) simp
    then show ?thesis
      unfolding loop feed s2_def [symmetric] using IH by auto
  qed
qed

lemma body_bytes:
  assumes "wp_state q = s_body" and "bs \<noteq> []" and "int (length bs) \<le> uint (wp_require q)"
  shows "byte_feed hdr body fin bs (q, u) =
     (case body q bs u of (m, u') \<Rightarrow>
        let q' = q\<lparr>wp_mask_offset := m, wp_require := wp_require q - of_nat (length bs)\<rparr>
        in if wp_require q' = 0 then byte_notify fin (q'\<lparr>wp_state := s_start\<rparr>, u') else Some (q', u'))"
  using assms
proof (induction bs arbitrary: q u)
  case Nil
  then show ?case by simp
next
  case (Cons c cs)
  obtain m u' where b: "body q [c] u = (m, u')" by fastforce
  show ?case
  proof (cases "cs = []")
    case True
    then show ?thesis using Cons.prems(1) b by (simp add: byte_step_def)
  next
    case False
    have long: "2 \<le> uint (wp_require q)" using Cons.prems(3) False by (cases cs) auto
    then have "wp_require q \<noteq> 1" by auto
    then have r1: "wp_require q - 1 \<noteq> 0" by simp
    have u1: "uint (wp_require q - 1) = uint (wp_require q) - 1"
      using long by (simp add: uint_sub_if')
    let ?q = "q\<lparr>wp_mask_offset := m, wp_require := wp_require q - 1\<rparr>"
    have "byte_feed hdr body fin (c # cs) (q, u) = byte_feed hdr body fin cs (?q, u')"
      using Cons.prems(1) b r1 by (simp add: byte_step_def)
    also have "\<dots> = (case body ?q cs u' of (m', u'') \<Rightarrow>
        let q' = ?q\<lparr>wp_mask_offset := m', wp_require := wp_require ?q - of_nat (length cs)\<rparr>
        in if wp_require q' = 0 then byte_notify fin (q'\<lparr>wp_state := s_start\<rparr>, u'') else Some (q', u''))"
      using Cons.prems False u1 by (intro Cons.IH) auto
    also have "body ?q cs u' = body q (c # cs) u"
      using body_append [of "[c]" cs q u] False b body_require [where q = "q\<lparr>wp_mask_offset := m\<rparr>"] by simp
    finally show ?thesis by (simp add: diff_diff_eq)
  qed
qed

text \<open>One pass of the C loop: it either throws, or it consumes at least one byte, moves \<open>p\<close>
  accordingly and leaves the parser where the byte machine is after those bytes.\<close>

definition pass_ok :: "byte list \<Rightarrow> 'u ws_exec \<Rightarrow> 'u ws_step \<Rightarrow> bool" where
  "pass_ok data s r \<longleftrightarrow> (case r of
     Inl (e, s') \<Rightarrow> e = Thrown \<and> byte_feed hdr body fin (drop (nat (ex_p s)) data) (start_of s) = None
   | Inr s' \<Rightarrow> ex_p s < ex_p s' + 1 \<and> ex_p s' + 1 \<le> int (length data) \<and> ws_wf (ex_parser s') \<and>
       byte_feed hdr body fin (drop (nat (ex_p s)) data) (start_of s) =
       byte_feed hdr body fin (drop (nat (ex_p s' + 1)) data) (start_of s'))"

lemma pass_okI:
  assumes r: "agrees r st" and p: "\<And>s'. r = Inr s' \<Longrightarrow> ex_p s' + 1 = int n \<and> ws_wf (ex_parser s')"
    and n: "ex_p s < int n" "n \<le> length data"
    and feed: "byte_feed hdr body fin (drop (nat (ex_p s)) data) (start_of s) =
      Option.bind st (byte_feed hdr body fin (drop n data))"
  shows "pass_ok data s r"
proof (cases r)
  case (Inl es)
  then show ?thesis using r feed by (cases es) (auto simp: pass_ok_def agrees_def)
next
  case (Inr s')
  with r p have "st = Some (start_of s')" "ex_p s' + 1 = int n" "ws_wf (ex_parser s')"
    by (auto simp: agrees_def start_of_def)
  moreover from this have "nat (ex_p s' + 1) = n" by simp
  ultimately show ?thesis using Inr n feed by (auto simp: pass_ok_def)
qed

lemma header_done_wf:
  "ws_header_done settings s = Inr s' \<Longrightarrow> ws_wf (ex_parser s')"
  by (auto simp: ws_header_done_def ws_wf_def ret_simps split: if_splits dest!: ws_cb_Inr)

lemma length_done_wf:
  "ws_length_done settings s = Inr s' \<Longrightarrow> ws_wf (ex_parser s')"
  by (auto simp: ws_length_done_def ws_wf_def split: if_splits dest!: header_done_wf [unfolded ws_wf_def])

lemma single_byte:
  assumes "agrees r (byte_step hdr body fin (data ! nat (ex_p s)) (start_of s))"
    and "\<And>s'. r = Inr s' \<Longrightarrow> ex_p s' = ex_p s \<and> ws_wf (ex_parser s')"
    and "0 \<le> ex_p s" "ex_p s < int (length data)"
  shows "pass_ok data s r"
proof (rule pass_okI [where n = "Suc (nat (ex_p s))"])
  have "drop (nat (ex_p s)) data = data ! nat (ex_p s) # drop (Suc (nat (ex_p s))) data"
    using assms(3,4) by (intro drop_nth_Cons) simp
  then show "byte_feed hdr body fin (drop (nat (ex_p s)) data) (start_of s) =
      Option.bind (byte_step hdr body fin (data ! nat (ex_p s)) (start_of s))
        (byte_feed hdr body fin (drop (Suc (nat (ex_p s))) data))" by simp
qed (use assms in auto)

lemma pass_start:
  assumes "wp_state (ex_parser s) = s_start" "0 \<le> ex_p s" "ex_p s < int (length data)"
  shows "pass_ok data s (ws_case_start (data ! nat (ex_p s)) s)"
  using case_start [OF assms(1)] assms(2,3)
  by (intro single_byte) (auto simp: ws_case_start_def Let_def ws_wf_def)

lemma case_head_wf: "ws_case_head settings c s = Inr s' \<Longrightarrow> ws_wf (ex_parser s')"
  by (auto simp: ws_case_head_def Let_def ret_simps ws_wf_def split: if_splits
      dest!: length_done_wf [unfolded ws_wf_def])

lemma pass_head:
  assumes "wp_state (ex_parser s) = s_head" "0 \<le> ex_p s" "ex_p s < int (length data)"
  shows "pass_ok data s (ws_case_head settings (data ! nat (ex_p s)) s)"
  using case_head [OF assms(1)] assms(2,3)
  by (intro single_byte) (auto dest: ws_case_head_progress case_head_wf)

lemma pass_length:
  assumes st: "wp_state (ex_parser s) = s_length" "wp_require (ex_parser s) \<noteq> 0"
    and p: "0 \<le> ex_p s" "ex_p s < int (length data)"
  shows "pass_ok data s (ws_case_length settings data s)"
proof -
  let ?cs = "drop (nat (ex_p s)) data"
  define s2 where "s2 = ws_length_loop ?cs s"
  have ne: "?cs \<noteq> []" using p by simp
  note L = length_loop [OF st ne, folded s2_def]
  have start: "start_of (step_back s2) = start_of s2" by (simp add: start_of_def)
  have p2: "ex_p s < ex_p s2" "ex_p s2 \<le> int (length data)" using L p by (auto simp: of_nat_diff)
  have dr: "drop (nat (ex_p s2 - ex_p s)) ?cs = drop (nat (ex_p s2)) data"
    using p p2 by (simp add: nat_diff_distrib)
  show ?thesis
  proof (cases "wp_require (ex_parser s2) = 0")
    case True
    then have r: "ws_case_length settings data s = ws_length_done settings (step_back s2)"
      by (simp add: ws_case_length_def s2_def Let_def)
    show ?thesis unfolding r
    proof (rule pass_okI [where n = "nat (ex_p s2)"])
      show "agrees (ws_length_done settings (step_back s2)) (byte_length_done hdr fin (start_of s2))"
        using length_done [of "step_back s2"] by (simp add: start)
    qed (use p p2 L True dr in \<open>auto dest: ws_length_done_Inr length_done_wf\<close>)
  next
    case False
    then have r: "ws_case_length settings data s = Inr (step_back s2)"
      by (simp add: ws_case_length_def s2_def Let_def)
    show ?thesis unfolding r
    proof (rule pass_okI [where n = "length data"])
      show "agrees (Inr (step_back s2)) (Some (start_of s2))" by (simp add: agrees_def start_of_def)
    qed (use p p2 L False in \<open>auto simp: ws_wf_def of_nat_diff\<close>)
  qed
qed


lemma pass_mask:
  assumes st: "wp_state (ex_parser s) = s_mask" "wp_require (ex_parser s) \<noteq> 0"
    and p: "0 \<le> ex_p s" "ex_p s < int (length data)"
  shows "pass_ok data s (ws_case_mask settings data s)"
proof -
  let ?cs = "drop (nat (ex_p s)) data"
  define s2 where "s2 = ws_mask_loop ?cs s"
  have ne: "?cs \<noteq> []" using p by simp
  note L = mask_loop [OF st ne, folded s2_def]
  have start: "start_of (step_back s2) = start_of s2" by (simp add: start_of_def)
  have p2: "ex_p s < ex_p s2" "ex_p s2 \<le> int (length data)" using L p by (auto simp: of_nat_diff)
  have dr: "drop (nat (ex_p s2 - ex_p s)) ?cs = drop (nat (ex_p s2)) data"
    using p p2 by (simp add: nat_diff_distrib)
  show ?thesis
  proof (cases "wp_require (ex_parser s2) = 0")
    case True
    then have r: "ws_case_mask settings data s = ws_header_done settings (step_back s2)"
      by (simp add: ws_case_mask_def s2_def Let_def)
    show ?thesis unfolding r
    proof (rule pass_okI [where n = "nat (ex_p s2)"])
      show "agrees (ws_header_done settings (step_back s2)) (byte_header_done hdr fin (start_of s2))"
        using header_done [of "step_back s2"] by (simp add: start)
    qed (use p p2 L True dr in \<open>auto dest: ws_header_done_Inr header_done_wf\<close>)
  next
    case False
    then have r: "ws_case_mask settings data s = Inr (step_back s2)"
      by (simp add: ws_case_mask_def s2_def Let_def)
    show ?thesis unfolding r
    proof (rule pass_okI [where n = "length data"])
      show "agrees (Inr (step_back s2)) (Some (start_of s2))" by (simp add: agrees_def start_of_def)
    qed (use p p2 L False in \<open>auto simp: ws_wf_def of_nat_diff\<close>)
  qed
qed


lemma EMIT_body:
  "EMIT_DATA_CB (on_frame_body settings) bs s =
     (case body (ex_parser s) bs (ex_user s) of (m, u') \<Rightarrow>
        Inr (s\<lparr>ex_parser := (ex_parser s)\<lparr>wp_mask_offset := m\<rparr>, ex_user := u'\<rparr>))"
  by (auto simp: EMIT_DATA_CB_def body_cb ws_callback_def Let_def split: prod.splits)

lemma pass_body:
  assumes st: "wp_state (ex_parser s) = s_body" "wp_require (ex_parser s) \<noteq> 0"
    and p: "0 \<le> ex_p s" "ex_p s < int (length data)"
  shows "pass_ok data s (ws_case_body settings data s)"
proof -
  let ?rest = "drop (nat (ex_p s)) data" and ?req = "wp_require (ex_parser s)"
  let ?stop = "int (length data)"
  have req: "0 < uint ?req" using st(2) by (simp add: word_neq_0_conv word_less_def)
  show ?thesis
  proof (cases "ex_p s + uint ?req \<le> ?stop")
    case True
    let ?bs = "take (unat ?req) ?rest"
    obtain m u' where b: "body (ex_parser s) ?bs (ex_user s) = (m, u')" by fastforce
    have fits: "nat (ex_p s) + unat ?req \<le> length data"
    proof -
      have "int (nat (ex_p s) + unat ?req) = ex_p s + uint ?req" using p(1) by simp
      then show ?thesis using True by linarith
    qed
    then have len: "length ?bs = unat ?req" by simp
    define s2 where "s2 = upd_parser (\<lambda>q. q\<lparr>wp_mask_offset := m, wp_require := 0, wp_state := s_start\<rparr>)
       (s\<lparr>ex_user := u', ex_frame_offset := word_of_int (ex_p s + uint ?req), ex_p := ex_p s + uint ?req - 1\<rparr>)"
    have r: "ws_case_body settings data s = NOTIFY_CB (on_frame_end settings) s2"
      using True st b by (simp add: ws_case_body_def EMIT_body Let_def s2_def upd_parser_def step_back_def)
    have spec: "byte_feed hdr body fin ?bs (start_of s) = byte_notify fin (start_of s2)"
      using body_bytes [of "strip_offset (ex_parser s)" ?bs "ex_user s"] st b len req p
      by (simp add: start_of_def s2_def unat_gt_0)
    show ?thesis unfolding r
    proof (rule pass_okI [OF NOTIFY_end, where n = "nat (ex_p s + uint ?req)"])
      have "?rest = ?bs @ drop (nat (ex_p s + uint ?req)) data"
      proof -
        have "nat (ex_p s + uint ?req) = unat ?req + nat (ex_p s)"
          using p(1) req by (simp add: nat_add_distrib)
        then show ?thesis by (metis append_take_drop_id drop_drop)
      qed
      then show "byte_feed hdr body fin ?rest (start_of s) =
         Option.bind (byte_notify fin (start_of s2)) (byte_feed hdr body fin (drop (nat (ex_p s + uint ?req)) data))"
        by (metis byte_feed_append spec)
    qed (use p True req in \<open>auto simp: s2_def ws_wf_def nat_le_iff dest!: NOTIFY_CB_Inr_simps\<close>)
  next
    case False
    obtain m u' where b: "body (ex_parser s) ?rest (ex_user s) = (m, u')" by fastforce
    define k where "k = ?stop - ex_p s"
    have k: "0 < k" "k < uint ?req" "k = int (length ?rest)" using False p by (simp_all add: k_def of_nat_diff)
    have rest: "?rest \<noteq> []" using p by simp
    define s2 where "s2 = upd_parser (\<lambda>q. q\<lparr>wp_mask_offset := m, wp_require := ?req - word_of_int k,
         wp_offset := wp_offset q + (word_of_int ?stop - ex_frame_offset s)\<rparr>)
       (s\<lparr>ex_user := u', ex_frame_offset := 0, ex_p := ?stop - 1\<rparr>)"
    have left: "?req - word_of_int k \<noteq> 0"
    proof
      assume "?req - word_of_int k = 0"
      then have "uint ?req = uint (word_of_int k :: u64)" by simp
      also have "\<dots> \<le> k" using k(1) by (simp add: uint_word_of_int zmod_le_nonneg_dividend)
      finally show False using k(2) by simp
    qed
    have r: "ws_case_body settings data s = Inr s2"
      using False st b left
      by (simp add: ws_case_body_def EMIT_body Let_def s2_def upd_parser_def step_back_def k_def)
    have k': "word_of_int k = (of_nat (length ?rest) :: u64)" using k(3) by (simp del: length_drop)
    have "int (length ?rest) \<le> uint (wp_require (strip_offset (ex_parser s)))" using k by simp
    then have "byte_feed hdr body fin ?rest (start_of s) = Some (start_of s2)"
      using body_bytes [of "strip_offset (ex_parser s)" ?rest "ex_user s"] st b rest left
      by (simp add: start_of_def s2_def k' del: length_drop drop_eq_Nil)
    then show ?thesis unfolding r
      using p left st by (intro pass_okI [where n = "length data" and st = "Some (start_of s2)"])
        (auto simp: agrees_def start_of_def s2_def ws_wf_def)
  qed
qed

lemma pass_switch:
  assumes "ws_wf (ex_parser s)" and "0 \<le> ex_p s" and "ex_p s < int (length data)"
  shows "pass_ok data s (ws_switch settings data s)"
  using assms pass_start [of s data] pass_head [of s data] pass_length [of s data]
    pass_mask [of s data] pass_body [of s data]
  by (auto simp: ws_switch_def ws_wf_def split: ws_state.splits)

lemma loop_feed:
  assumes "ws_wf (ex_parser s)" and "0 \<le> ex_p s" and "ex_p s \<le> int (length data)"
  shows "case byte_feed hdr body fin (drop (nat (ex_p s)) data) (start_of s) of
      None \<Rightarrow> fst (ws_loop settings data s) = Thrown
    | Some (q, u) \<Rightarrow> (\<exists>s'. ws_loop settings data s = (Returned (int (length data)), s') \<and>
        start_of s' = (q, u) \<and> ws_wf (ex_parser s'))"
  using assms
proof (induction "nat (int (length data) - ex_p s)" arbitrary: s rule: less_induct)
  case less
  show ?case
  proof (cases "ex_p s < int (length data)")
    case False
    then have "ex_p s = int (length data)" using less.prems by simp
    then show ?thesis using less.prems
      by (simp add: ws_loop.simps [of settings data s] start_of_def)
  next
    case True
    have pass: "pass_ok data s (ws_switch settings data s)" using less.prems True by (intro pass_switch)
    show ?thesis
    proof (cases "ws_switch settings data s")
      case (Inl es)
      then show ?thesis using pass True less.prems
        by (cases es) (simp add: pass_ok_def ws_loop.simps [of settings data s])
    next
      case (Inr s')
      let ?s = "s'\<lparr>ex_p := ex_p s' + 1\<rparr>"
      have "ex_p s < ex_p ?s" "ex_p ?s \<le> int (length data)" "ws_wf (ex_parser ?s)" and
        feed: "byte_feed hdr body fin (drop (nat (ex_p s)) data) (start_of s) =
          byte_feed hdr body fin (drop (nat (ex_p ?s)) data) (start_of ?s)"
        using pass Inr by (simp_all add: pass_ok_def start_of_def)
      moreover have loop: "ws_loop settings data s = ws_loop settings data ?s"
        using Inr True less.prems by (simp add: ws_loop.simps [of settings data s])
      ultimately show ?thesis
        unfolding loop feed using less.prems True by (intro less.hyps) auto
    qed
  qed
qed

text \<open>The refinement: one call of the C parser is the byte machine over the bytes of the call.\<close>

theorem execute_feed:
  assumes "ws_wf q"
  shows "case byte_feed hdr body fin data (strip_offset q, u) of
      None \<Rightarrow> fst (websocket_parser_execute q u settings data) = Thrown
    | Some (q', u') \<Rightarrow> (\<exists>q''. websocket_parser_execute q u settings data =
        (Returned (int (length data)), q'', u') \<and> strip_offset q'' = q' \<and> ws_wf q'')"
  using loop_feed [of "\<lparr>ex_parser = q, ex_user = u, ex_p = 0, ex_frame_offset = 0\<rparr>" data] assms
  by (auto simp: websocket_parser_execute_def start_of_def split: option.splits prod.splits)

text \<open>Cutting the stream: two calls are one call on the concatenation, up to \<open>offset\<close>.\<close>

theorem execute_append:
  assumes wf: "ws_wf q" and first: "websocket_parser_execute q u settings xs = (Returned n, q1, u1)"
  shows "case websocket_parser_execute q1 u1 settings ys of
      (Returned m, q2, u2) \<Rightarrow> \<exists>q3. websocket_parser_execute q u settings (xs @ ys) =
          (Returned (n + m), q3, u2) \<and> strip_offset q3 = strip_offset q2
    | (Thrown, _, _) \<Rightarrow> fst (websocket_parser_execute q u settings (xs @ ys)) = Thrown"
proof -
  from execute_feed [OF wf, where data = xs and u = u] first
  have xs: "byte_feed hdr body fin xs (strip_offset q, u) = Some (strip_offset q1, u1)"
    and n: "n = int (length xs)" and wf1: "ws_wf q1"
    by (auto split: option.splits)
  from execute_feed [OF wf, where data = "xs @ ys" and u = u]
    execute_feed [OF wf1, where data = ys and u = u1]
  show ?thesis
    by (auto simp: byte_feed_append xs n split: option.splits)
qed

end

end
