(* ===== verification/WS_Roundtrip.thy ===== *)
theory WS_Roundtrip imports WS_Message begin

text \<open>
  What \<^verbatim>\<open>websocket_build_frame\<close> writes, \<^verbatim>\<open>websocket_parser_execute\<close> reads: the frame header in its
  three length formats, the mask and the payload, for every consumer of the parser (inside the
  locale \<open>frame_consumer\<close>) and then for the message layer.
\<close>

subsection \<open>Big-endian lengths\<close>

lemma and_mask_id: 
  fixes l :: u64
  assumes "l < 126" shows "l AND 0x7F = l"
proof -
  have "unat l < 2 ^ 7" using assms by (simp add: word_less_nat_alt)
  then have "take_bit 7 l = l" by (rule take_bit_small)
  then show ?thesis by (simp add: take_bit_eq_mask mask_eq_exp_minus_1)
qed

lemma ucast_low7: 
  fixes l :: u64
  assumes "l < 126" shows "ucast (ucast l OR (0x80::byte)) AND 0x7F = l" "ucast (ucast l::byte) AND 0x7F = l" "\<not> bit (ucast l :: byte) 7"
proof -
  have "ucast (ucast l OR (0x80::byte)) AND 0x7F = l AND 0x7F" "ucast (ucast l::byte) AND 0x7F = l AND 0x7F"
    by (rule bit_word_eqI; auto simp: bit_lits bit_simps)+
  then show "ucast (ucast l OR (0x80::byte)) AND 0x7F = l" "ucast (ucast l::byte) AND 0x7F = l" by (simp_all add: and_mask_id assms)
  have "\<not> bit (l AND 0x7F) 7" by (simp add: bit_lits bit_simps)
  then show "\<not> bit (ucast l :: byte) 7" by (simp add: and_mask_id assms bit_simps)
qed


lemma be_step:
  fixes l :: u64
  shows "push_bit 8 (drop_bit (k + 8) l) OR ucast (ucast (drop_bit k l AND 0xFF) :: byte) = drop_bit k l"
proof (rule bit_word_eqI)
  fix n assume n: "n < LENGTH(64)"
  show "bit (push_bit 8 (drop_bit (k + 8) l) OR ucast (ucast (drop_bit k l AND 0xFF) :: byte)) n = bit (drop_bit k l) n"
  proof (cases "n < 8")
    case True
    then show ?thesis by (simp add: bit_lits bit_simps)
  next
    case False
    then obtain j where "n = j + 8" by (metis le_add_diff_inverse2 not_less)
    then show ?thesis using n by (simp add: bit_lits bit_simps ac_simps)
  qed
qed

lemma be8:
  fixes l :: u64
  shows "fold (\<lambda>c a. push_bit 8 a OR ucast c) [ucast (drop_bit 56 l AND 0xFF) :: byte, ucast (drop_bit 48 l AND 0xFF),
         ucast (drop_bit 40 l AND 0xFF), ucast (drop_bit 32 l AND 0xFF),
         ucast (drop_bit 24 l AND 0xFF), ucast (drop_bit 16 l AND 0xFF),
         ucast (drop_bit 8 l AND 0xFF), ucast (l AND 0xFF)] 0 = l"
proof -
  have top: "drop_bit 64 l = 0" by (rule bit_word_eqI) (auto simp: bit_simps dest: bit_imp_le_length)
  show ?thesis
    using be_step [of 0 l] be_step [of 8 l] be_step [of 16 l] be_step [of 24 l] be_step [of 32 l]
      be_step [of 40 l] be_step [of 48 l] be_step [of 56 l] top
    by simp
qed

lemma be2:
  fixes l :: u64
  assumes "l \<le> 0xFFFF"
  shows "fold (\<lambda>c a. push_bit 8 a OR ucast c) [ucast (drop_bit 8 l) :: byte, ucast (l AND 0xFF)] 0 = l"
proof -
  have "unat l < 2 ^ 16" using assms by (simp add: word_le_nat_alt)
  then have t: "take_bit 16 l = l" by (rule take_bit_small)
  have "drop_bit 8 l AND 0xFF = drop_bit 8 (take_bit 16 l)" "drop_bit 16 (take_bit 16 l) = 0"
    by (rule bit_word_eqI; auto simp: bit_lits bit_simps)+
  then have "drop_bit 8 l AND 0xFF = drop_bit 8 l" "drop_bit 16 l = 0" unfolding t by auto
  then show ?thesis using be_step [of 0 l] be_step [of 8 l] by simp
qed

text \<open>The flags of a frame as its receiver sees them.\<close>

lemma head_flags:
  fixes fl :: u32
  defines "b0 \<equiv> (if fl AND WS_FIN \<noteq> 0 then 0x80 else 0) OR ucast (fl AND WS_OP_MASK) :: byte"
  shows "((ucast b0 AND WS_OP_MASK) OR (if b0 AND 0x80 \<noteq> 0 then WS_FIN else 0)) OR
       (if fl AND WS_HAS_MASK \<noteq> 0 then WS_HAS_MASK else 0) = fl AND 0x3F"
proof -
  have b7: "bit b0 7 \<longleftrightarrow> bit fl 4" by (simp add: b0_def ws_flag_defs bit_lits bit_simps)
  show ?thesis
  proof (rule bit_word_eqI)
    fix n :: nat
    consider "n < 4" | "n = 4" | "n = 5" | "6 \<le> n" by linarith
    then show "bit (((ucast b0 AND WS_OP_MASK) OR (if b0 AND 0x80 \<noteq> 0 then WS_FIN else 0)) OR
       (if fl AND WS_HAS_MASK \<noteq> 0 then WS_HAS_MASK else 0)) n = bit (fl AND 0x3F) n"
      by cases (simp_all add: b7 ws_flag_defs bit_lits bit_simps, simp_all add: b0_def ws_flag_defs bit_lits bit_simps)
  qed
qed

definition header_parsed :: "u32 \<Rightarrow> byte list \<Rightarrow> u64 \<Rightarrow> websocket_parser \<Rightarrow> bool" where
  "header_parsed fl k len q \<longleftrightarrow> wp_flags q = fl AND 0x3F \<and> wp_mask_offset q = 0 \<and> wp_length q = len \<and>
     length (wp_mask q) = 4 \<and> (fl AND WS_HAS_MASK \<noteq> 0 \<longrightarrow> wp_mask q = k)"

lemma ws_frame_head_split:
  "ws_frame_head fl len = [(if fl AND WS_FIN \<noteq> 0 then 0x80 else 0) OR ucast (fl AND WS_OP_MASK),
     (if fl AND WS_HAS_MASK \<noteq> 0 then 0x80 else 0) OR
       (if len < 126 then ucast len else if len \<le> 0xFFFF then 126 else 127)] @
     (if len < 126 then [] else if len \<le> 0xFFFF then [ucast (drop_bit 8 len), ucast (len AND 0xFF)]
      else [ucast (drop_bit 56 len AND 0xFF), ucast (drop_bit 48 len AND 0xFF),
         ucast (drop_bit 40 len AND 0xFF), ucast (drop_bit 32 len AND 0xFF),
         ucast (drop_bit 24 len AND 0xFF), ucast (drop_bit 16 len AND 0xFF),
         ucast (drop_bit 8 len AND 0xFF), ucast (len AND 0xFF)])"
  by (simp add: ws_frame_head_def Let_def)

lemma second_byte:
  fixes n :: u64 and m :: byte
  assumes "n \<le> 127" and "m = 0 \<or> m = 0x80"
  shows "ucast (m OR ucast n) AND 0x7F = n" "(m OR ucast n) AND 0x80 = 0 \<longleftrightarrow> m = 0"
proof -
  have "unat n < 2 ^ 7" using assms by (simp add: word_le_nat_alt)
  then have t: "take_bit 7 n = n" by (rule take_bit_small)
  have "ucast (m OR ucast n) AND 0x7F = take_bit 7 n"
    using assms(2) by (intro bit_word_eqI) (auto simp: bit_lits bit_simps)
  then show "ucast (m OR ucast n) AND 0x7F = n" by (simp only: t)
  have "\<not> bit (take_bit 7 n) 7" by (simp add: bit_simps)
  then show "(m OR ucast n) AND 0x80 = 0 \<longleftrightarrow> m = 0"
    using assms(2) unfolding t by (auto simp: bit_lits bit_simps)
qed

context frame_consumer begin

lemma feed_length_bytes:
  assumes "wp_state q = s_length" and "wp_require q = of_nat (length cs)" and "cs \<noteq> []" and "length cs \<le> 8"
  shows "byte_feed hdr body fin cs (q, u) =
     byte_length_done hdr fin (q\<lparr>wp_length := fold (\<lambda>c a. push_bit 8 a OR ucast c) cs (wp_length q), wp_require := 0\<rparr>, u)"
  using assms
proof (induction cs arbitrary: q)
  case (Cons c cs)
  let ?q = "q\<lparr>wp_length := push_bit 8 (wp_length q) OR ucast c, wp_require := of_nat (length cs)\<rparr>"
  have zero: "(of_nat (length cs) :: u64) = 0 \<longleftrightarrow> cs = []"
    using Cons.prems(4) by (auto simp: word_of_nat_eq_0_iff dest!: dvd_imp_le)
  have step: "byte_step hdr body fin c (q, u) =
     (if cs = [] then byte_length_done hdr fin (?q, u) else Some (?q, u))"
    using Cons.prems(1,2) zero by (simp add: byte_step_def Let_def)
  show ?case
  proof (cases "cs = []")
    case True
    then show ?thesis using step Cons.prems by simp
  next
    case False
    then show ?thesis using step Cons.prems Cons.IH [of ?q] by simp
  qed
qed simp


lemma feed_mask_bytes:
  assumes "wp_state q = s_mask" and "wp_require q = 4" and "length (wp_mask q) = 4" and "length k = 4"
  shows "byte_feed hdr body fin k (q, u) = byte_header_done hdr fin (q\<lparr>wp_mask := k, wp_require := 0\<rparr>, u)"
proof -
  obtain a b c d where k: "k = [a, b, c, d]"
    using assms(4) by (auto simp: length_Suc_conv numeral_eq_Suc)
  obtain a' b' c' d' where m: "wp_mask q = [a', b', c', d']"
    using assms(3) by (auto simp: length_Suc_conv numeral_eq_Suc)
  show ?thesis using assms(1,2) by (simp add: byte_step_def Let_def k m)
qed

lemma feed_after_length:
  assumes "wp_flags q = fl AND 0x3F" and "wp_mask_offset q = 0" and "wp_length q = len"
    and "length (wp_mask q) = 4" and "length k = 4"
  shows "\<exists>q1. Option.bind (byte_length_done hdr fin (q, u)) (byte_feed hdr body fin
       (if fl AND WS_HAS_MASK \<noteq> 0 then k else [])) = byte_header_done hdr fin (q1, u) \<and> header_parsed fl k len q1"
proof -
  have m: "wp_flags q AND WS_HAS_MASK = 0 \<longleftrightarrow> fl AND WS_HAS_MASK = 0"
    using assms(1) by (simp add: ws_flag_defs and.assoc)
  show ?thesis
  proof (cases "fl AND WS_HAS_MASK = 0")
    case True
    then show ?thesis using assms m
      by (intro exI [of _ q]) (simp add: byte_length_done_def header_parsed_def)
  next
    case False
    then show ?thesis using assms m
      by (intro exI [of _ "q\<lparr>wp_state := s_mask, wp_mask := k, wp_require := 0\<rparr>"])
        (simp add: byte_length_done_def header_parsed_def feed_mask_bytes)
  qed
qed

lemma feed_head:
  assumes st: "wp_state q = s_start" and mq: "length (wp_mask q) = 4" and k: "length k = 4"
  shows "\<exists>q1. byte_feed hdr body fin (ws_frame_head fl len @ (if fl AND WS_HAS_MASK \<noteq> 0 then k else [])) (q, u) =
     byte_header_done hdr fin (q1, u) \<and> header_parsed fl k len q1"
proof -
  define b0 :: byte where "b0 = (if fl AND WS_FIN \<noteq> 0 then 0x80 else 0) OR ucast (fl AND WS_OP_MASK)"
  define n where "n = (if len < 126 then len else if len \<le> 0xFFFF then 126 else 127)"
  define m :: byte where "m = (if fl AND WS_HAS_MASK \<noteq> 0 then 0x80 else 0)"
  have "n \<le> 127"
    by (auto simp: n_def word_le_nat_alt word_less_nat_alt)
  from second_byte [OF this, of m]
  have n: "ucast (m OR ucast n) AND 0x7F = n" "(m OR ucast n) AND 0x80 = 0 \<longleftrightarrow> fl AND WS_HAS_MASK = 0"
    by (auto simp: m_def)
  define q1 where "q1 = q\<lparr>wp_mask_offset := 0, wp_state := s_head, wp_length := n, wp_flags := fl AND 0x3F\<rparr>"
  have two: "byte_feed hdr body fin [b0, m OR ucast n] (q, u) =
     (if n \<ge> 126 then Some (q1\<lparr>wp_require := (if n = 127 then 8 else 2), wp_length := 0, wp_state := s_length\<rparr>, u)
      else byte_length_done hdr fin (q1, u))"
    using st head_flags [of fl, folded b0_def] n by (simp add: byte_step_def Let_def q1_def)
  let ?k = "if fl AND WS_HAS_MASK \<noteq> 0 then k else []"
  define ext :: "byte list" where "ext = drop 2 (ws_frame_head fl len)"
  have head: "ws_frame_head fl len = [b0, m OR ucast n] @ ext"
    by (simp add: ext_def ws_frame_head_split b0_def m_def n_def)
  have "\<exists>q2. byte_feed hdr body fin (ws_frame_head fl len) (q, u) = byte_length_done hdr fin (q2, u) \<and>
      wp_flags q2 = fl AND 0x3F \<and> wp_mask_offset q2 = 0 \<and> wp_length q2 = len \<and> wp_mask q2 = wp_mask q"
  proof (cases "len < 126")
    case True
    then have "ext = []" "n = len" "\<not> n \<ge> 126" by (auto simp: ext_def ws_frame_head_split n_def)
    then show ?thesis unfolding head using two by (intro exI [of _ q1]) (simp add: q1_def)
  next
    case False
    let ?q = "q1\<lparr>wp_require := (if n = 127 then 8 else 2), wp_length := 0, wp_state := s_length\<rparr>"
    have ext: "fold (\<lambda>c a. push_bit 8 a OR ucast c) ext 0 = len \<and> wp_require ?q = of_nat (length ext) \<and>
        ext \<noteq> [] \<and> length ext \<le> 8"
      using False be2 [of len] be8 [of len] by (auto simp: ext_def ws_frame_head_split n_def)
    have "byte_feed hdr body fin (ws_frame_head fl len) (q, u) = byte_feed hdr body fin ext (?q, u)"
      using False two by (simp only: head byte_feed_append) (simp add: n_def)
    also have "\<dots> = byte_length_done hdr fin (?q\<lparr>wp_length := len, wp_require := 0\<rparr>, u)"
      using ext feed_length_bytes [of ?q ext u] by simp
    finally show ?thesis
      by (intro exI [of _ "?q\<lparr>wp_length := len, wp_require := 0\<rparr>"]) (simp add: q1_def)
  qed
  then obtain q2 where q2: "byte_feed hdr body fin (ws_frame_head fl len) (q, u) = byte_length_done hdr fin (q2, u)"
    "wp_flags q2 = fl AND 0x3F" "wp_mask_offset q2 = 0" "wp_length q2 = len" "wp_mask q2 = wp_mask q" by blast
  show ?thesis
    unfolding byte_feed_append q2(1) using q2 mq k by (intro feed_after_length) auto
qed


end

subsection \<open>The message layer reads what the sender builds\<close>

text \<open>
  The specification of the receiver, one whole frame at a time: a message starts afresh after a
  final frame, a continuation frame keeps the opcode.
\<close>

record ws_frame =
  fr_fin :: bool
  fr_opcode :: nat
  fr_mask :: "byte list option"
  fr_payload :: "byte list"

definition frame_ok :: "ws_frame \<Rightarrow> bool" where
  "frame_ok f \<longleftrightarrow> fr_opcode f < 16 \<and> (case fr_mask f of None \<Rightarrow> True | Some k \<Rightarrow> length k = 4) \<and>
     int (length (fr_payload f)) < 2 ^ 31 - 1"

definition frame_flags :: "ws_frame \<Rightarrow> u32" where
  "frame_flags f = (of_nat (fr_opcode f) OR (if fr_fin f then WS_FIN else 0)) OR
     (if fr_mask f \<noteq> None then WS_HAS_MASK else 0)"

definition frame_bytes :: "ws_frame \<Rightarrow> byte list" where
  "frame_bytes f = websocket_build_frame [] (frame_flags f) (fr_mask f) (fr_payload f)"

definition deliver_frame :: "'w on_message \<Rightarrow> ws_frame \<Rightarrow> 'w ws_owner \<Rightarrow> 'w ws_owner" where
  "deliver_frame onMessage f w =
     (let opcode = (if fr_opcode f \<noteq> 0 then int (fr_opcode f) else own_opcode w);
          msg = (if own_state w \<in> {WS_FRAME_BEGIN, WS_FRAME_FIN} then [] else own_message w) @ fr_payload f
      in \<lparr>own_state = (if fr_fin f then WS_FRAME_FIN else WS_FRAME_END), own_opcode = opcode,
         own_message = msg,
         own_world = (case onMessage of Some g \<Rightarrow> if fr_fin f then g opcode msg (own_world w) else own_world w
                      | None \<Rightarrow> own_world w)\<rparr>)"

lemma decode_encode:
  assumes "wp_mask_offset q = 0" and "wp_mask q = k"
  shows "fst (websocket_parser_decode (fst (websocket_decode data k 0)) q) = data"
  using assms by (intro nth_equalityI) (auto simp: websocket_parser_decode_def websocket_decode_def xor.assoc)

lemma frame_flags_bits:
  assumes "fr_opcode f < 16"
  shows "frame_flags f AND 0x3F = frame_flags f" "uint (frame_flags f AND WS_OP_MASK) = int (fr_opcode f)"
    "frame_flags f AND WS_FIN = 0 \<longleftrightarrow> \<not> fr_fin f" "frame_flags f AND WS_HAS_MASK = 0 \<longleftrightarrow> fr_mask f = None"
proof -
  have "take_bit 4 (fr_opcode f) = fr_opcode f" using assms by (simp add: take_bit_nat_eq_self)
  then have small: "n < 4" if "bit (fr_opcode f) n" for n using that by (metis bit_take_bit_iff)
  show "frame_flags f AND 0x3F = frame_flags f"
    by (rule bit_word_eqI) (auto simp: frame_flags_def ws_flag_defs bit_lits bit_simps dest: small split: if_splits)
  have "frame_flags f AND WS_OP_MASK = of_nat (fr_opcode f)"
    by (rule bit_word_eqI) (auto simp: frame_flags_def ws_flag_defs bit_lits bit_simps dest: small split: if_splits)
  then show "uint (frame_flags f AND WS_OP_MASK) = int (fr_opcode f)"
    using assms by (simp add: unsigned_of_nat take_bit_nat_eq_self)
  show "frame_flags f AND WS_FIN = 0 \<longleftrightarrow> \<not> fr_fin f" "frame_flags f AND WS_HAS_MASK = 0 \<longleftrightarrow> fr_mask f = None"
    using small [of 4] small [of 5] by (auto simp: frame_flags_def ws_flag_defs bit_lits bit_simps split: if_splits)
qed

lemma reserve_small:
  assumes "int n < 2 ^ 31 - 1" shows "\<not> reserve_throws (of_nat n)"
proof -
  have "ucast (of_nat n :: u64) = (of_nat n :: u32)" by (rule bit_word_eqI) (auto simp: bit_simps)
  then have "ucast (of_nat n :: u64) + 1 = (of_nat (Suc n) :: u32)" by (simp add: add.commute)
  moreover have "sint (of_nat (Suc n) :: u32) = int (Suc n)"
    using assms by (simp add: signed_of_nat signed_take_bit_int_eq_self del: of_nat_Suc)
  ultimately have "reserve_length (of_nat n) = min (int n + 1) (2 ^ 24)"
    by (simp add: reserve_length_def add.commute)
  then have "0 \<le> reserve_length (of_nat n)" "reserve_length (of_nat n) \<le> 2 ^ 24" by auto
  then show ?thesis
    by (simp add: reserve_throws_def not_less word_le_def uint_word_of_int)
qed


text \<open>A parser between two frames.\<close>

definition at_frame_start :: "websocket_parser \<Rightarrow> bool" where
  "at_frame_start q \<longleftrightarrow> wp_state q = s_start \<and> length (wp_mask q) = 4"

lemma frame_payload_len: "frame_ok f \<Longrightarrow> unat (of_nat (length (fr_payload f)) :: u64) = length (fr_payload f)"
  by (auto simp: frame_ok_def unat_of_nat take_bit_nat_eq_self)

lemma frame_payload_uint: "frame_ok f \<Longrightarrow> uint (of_nat (length (fr_payload f)) :: u64) = int (length (fr_payload f))"
  by (auto simp: frame_ok_def unsigned_of_nat take_bit_nat_eq_self)

definition wire_payload :: "ws_frame \<Rightarrow> byte list" where
  "wire_payload f = (case fr_mask f of None \<Rightarrow> fr_payload f | Some k \<Rightarrow> fst (websocket_decode (fr_payload f) k 0))"

lemma length_wire_payload [simp]: "length (wire_payload f) = length (fr_payload f)"
  by (auto simp: wire_payload_def websocket_decode_def split: option.split)

lemma frame_bytes_split:
  assumes "frame_ok f"
  shows "frame_bytes f = (ws_frame_head (frame_flags f) (of_nat (length (fr_payload f))) @
     (if frame_flags f AND WS_HAS_MASK \<noteq> 0 then (case fr_mask f of Some k \<Rightarrow> k | None \<Rightarrow> [0, 0, 0, 0]) else [])) @ wire_payload f"
  using assms
  by (auto simp: frame_bytes_def websocket_build_frame_def Let_def wire_payload_def frame_flags_bits frame_ok_def
      split: option.splits)

lemma deliver_header:
  assumes f: "frame_ok f" and q: "header_parsed (frame_flags f) k (of_nat (length (fr_payload f))) q"
    and k: "fr_mask f = Some k \<or> fr_mask f = None"
  shows "\<exists>q'. Option.bind (byte_header_done hdr_eff (end_eff onMessage) (q, w))
      (byte_feed hdr_eff owner_body (end_eff onMessage) (wire_payload f)) = Some (q', deliver_frame onMessage f w) \<and>
      at_frame_start q'"
proof -
  have fl: "wp_flags q = frame_flags f"
    using q f by (simp add: header_parsed_def frame_flags_bits frame_ok_def)
  have nothrow: "\<not> reserve_throws (wp_length q)"
    using f q reserve_small by (simp add: header_parsed_def frame_ok_def)
  note bits = frame_flags_bits [of f]
  show ?thesis
  proof (cases "fr_payload f = []")
    case True
    then have "wire_payload f = []" using length_wire_payload [of f] by (simp del: length_wire_payload)
    then show ?thesis
      using True q f nothrow bits fl
      by (auto simp: byte_header_done_def byte_notify_def hdr_eff_def end_eff_def header_parsed_def at_frame_start_def
          deliver_frame_def owner_header_def owner_end_def Let_def frame_ok_def split: option.splits)
  next
    case False
    let ?q = "q\<lparr>wp_state := s_body, wp_require := wp_length q\<rparr>"
    have ne: "wire_payload f \<noteq> []" "of_nat (length (fr_payload f)) \<noteq> (0 :: u64)"
    proof -
      have pos: "length (wire_payload f) \<noteq> 0" using False by simp
      then show "wire_payload f \<noteq> []" by (metis list.size(3))
      show "of_nat (length (fr_payload f)) \<noteq> (0 :: u64)"
        using False frame_payload_len [OF f] by (metis length_0_conv unat_0)
    qed
    have hd: "byte_header_done hdr_eff (end_eff onMessage) (q, w) = Some (?q, owner_header q w)"
      using q nothrow ne
      by (simp add: byte_header_done_def byte_notify_def hdr_eff_def header_parsed_def owner_header_def Let_def)
    have len: "uint (wp_require ?q) = int (length (wire_payload f))"
    proof -
      have "wp_require ?q = of_nat (length (fr_payload f))" using q by (simp add: header_parsed_def)
      then show ?thesis by (simp only: frame_payload_uint [OF f] length_wire_payload)
    qed
    have st: "wp_state ?q = s_body" by simp
    have le: "int (length (wire_payload f)) \<le> uint (wp_require ?q)" unfolding len by (rule order_refl)
    have left: "wp_length q = of_nat (length (wire_payload f))"
      using q by (simp add: header_parsed_def)
    obtain m u' where b: "owner_body ?q (wire_payload f) (owner_header q w) = (m, u')" by fastforce
    have "byte_feed hdr_eff owner_body (end_eff onMessage) (wire_payload f) (?q, owner_header q w) =
      byte_notify (end_eff onMessage) (?q\<lparr>wp_mask_offset := m, wp_require := 0, wp_state := s_start\<rparr>, u')"
      unfolding owner.body_bytes [OF st ne(1) le] b using left by simp
    moreover have "u' = (owner_header q w)\<lparr>own_state := WS_FRAME_BODY,
        own_message := own_message (owner_header q w) @ fr_payload f\<rparr>"
      using b fl q k bits f decode_encode [of ?q k "fr_payload f"]
      by (auto simp: owner_body_def Let_def header_parsed_def wire_payload_def frame_ok_def
          split: if_splits prod.splits)
    ultimately show ?thesis
      using hd q f bits fl
      by (auto simp: byte_notify_def end_eff_def header_parsed_def at_frame_start_def
          deliver_frame_def owner_header_def owner_end_def Let_def frame_ok_def split: option.splits)
  qed
qed

lemma feed_frame:
  assumes "frame_ok f" and "at_frame_start q"
  shows "\<exists>q'. byte_feed hdr_eff owner_body (end_eff onMessage) (frame_bytes f) (q, w) =
      Some (q', deliver_frame onMessage f w) \<and> at_frame_start q'"
proof -
  define k where "k = (case fr_mask f of Some k \<Rightarrow> k | None \<Rightarrow> [0, 0, 0, 0])"
  have k: "length k = 4" "fr_mask f = Some k \<or> fr_mask f = None"
    using assms(1) by (auto simp: k_def frame_ok_def split: option.splits)
  obtain q1 where q1: "byte_feed hdr_eff owner_body (end_eff onMessage)
      (ws_frame_head (frame_flags f) (of_nat (length (fr_payload f))) @
        (if frame_flags f AND WS_HAS_MASK \<noteq> 0 then k else [])) (q, w) =
      byte_header_done hdr_eff (end_eff onMessage) (q1, w)"
    "header_parsed (frame_flags f) k (of_nat (length (fr_payload f))) q1"
    using owner.feed_head [of q k onMessage] assms(2) k(1) unfolding at_frame_start_def by blast
  show ?thesis
    using deliver_header [OF assms(1) q1(2) k(2)]
    unfolding frame_bytes_split [OF assms(1)] byte_feed_append [of _ _ _ _ "wire_payload f"] k_def [symmetric] q1(1) .
qed

lemma feed_frames:
  assumes "\<forall>f \<in> set fs. frame_ok f" and "at_frame_start q"
  shows "\<exists>q'. byte_feed hdr_eff owner_body (end_eff onMessage) (concat (map frame_bytes fs)) (q, w) =
      Some (q', fold (deliver_frame onMessage) fs w) \<and> at_frame_start q'"
  using assms
proof (induction fs arbitrary: q w)
  case (Cons f fs)
  obtain q1 where "byte_feed hdr_eff owner_body (end_eff onMessage) (frame_bytes f) (q, w) =
      Some (q1, deliver_frame onMessage f w)" "at_frame_start q1"
    using feed_frame [of f q onMessage w] Cons.prems by auto
  then show ?case using Cons.IH [of q1] Cons.prems by (auto simp: byte_feed_append)
qed simp

lemma feed_reads_feed:
  assumes "ws_wf q"
  shows "case byte_feed hdr_eff owner_body (end_eff onMessage) (concat rs) (strip_offset q, w) of
      None \<Rightarrow> feed_reads onMessage rs (q, w) = None
    | Some (q', w') \<Rightarrow> \<exists>q''. feed_reads onMessage rs (q, w) = Some (q'', w') \<and> strip_offset q'' = q' \<and> ws_wf q''"
  using assms
proof (induction rs arbitrary: q w)
  case (Cons r rs)
  from owner.execute_feed [OF Cons.prems, where data = r and u = w and onMessage = onMessage]
  show ?case
  proof (cases "byte_feed hdr_eff owner_body (end_eff onMessage) r (strip_offset q, w)")
    case None
    then show ?thesis
      using owner.execute_feed [OF Cons.prems, where data = r and u = w and onMessage = onMessage]
      by (auto simp: byte_feed_append FeedRecvData_def split: prod.splits)
  next
    case (Some st)
    then obtain q1 w1 q2 where st: "st = (q1, w1)" "strip_offset q2 = q1" "ws_wf q2"
      "websocket_parser_execute q w (cbs onMessage) r = (Returned (int (length r)), q2, w1)"
      using owner.execute_feed [OF Cons.prems, where data = r and u = w and onMessage = onMessage]
      by (cases st) auto
    then show ?thesis
      using Cons.IH [OF st(3), of w1] Some
      by (auto simp: byte_feed_append FeedRecvData_def split: option.splits)
  qed
qed (simp add: assms)

lemma receive_reads:
  assumes "\<forall>f \<in> set fs. frame_ok f" and "concat rs = concat (map frame_bytes fs)" and "at_frame_start q"
  shows "\<exists>q'. feed_reads onMessage rs (q, w) = Some (q', fold (deliver_frame onMessage) fs w) \<and> at_frame_start q'"
proof -
  have "at_frame_start (strip_offset q)" "ws_wf q"
    using assms(3) by (auto simp: at_frame_start_def strip_offset_def ws_wf_def)
  then obtain q1 where "byte_feed hdr_eff owner_body (end_eff onMessage) (concat rs) (strip_offset q, w) =
      Some (q1, fold (deliver_frame onMessage) fs w)" "at_frame_start q1"
    using feed_frames [OF assms(1)] assms(2) by metis
  then show ?thesis
    using feed_reads_feed [OF \<open>ws_wf q\<close>, where rs = rs and w = w and onMessage = onMessage]
    by (auto simp: at_frame_start_def strip_offset_def)
qed

lemma receive_whole:
  assumes "\<forall>f \<in> set fs. frame_ok f" and "at_frame_start q"
  shows "\<exists>q'. feed_reads onMessage (map frame_bytes fs) (q, w) = Some (q', fold (deliver_frame onMessage) fs w) \<and>
    at_frame_start q'"
  by (rule receive_reads [OF assms(1) refl assms(2)])

subsection \<open>Properties\<close>



text \<open>C2: A receiver fed with the frames that \<^verbatim>\<open>websocket_build_frame\<close> writes, in whatever reads,
  throws nothing, reports every byte as parsed and sees exactly the sequence of frames sent:
  payloads unmasked, messages split at the FIN bit, \<open>onMessage\<close> called once per message with the
  opcode of its first frame.\<close>

theorem receive_frames:
  assumes "\<forall>f \<in> set fs. frame_ok f" and "concat rs = concat (map frame_bytes fs)" and "at_frame_start q"
  shows "\<exists>q'. feed_reads onMessage rs (q, w) = Some (q', fold (deliver_frame onMessage) fs w) \<and> at_frame_start q'"
  using receive_reads [OF assms] .

definition collect :: "int \<Rightarrow> byte list \<Rightarrow> (int \<times> byte list) list \<Rightarrow> (int \<times> byte list) list" where
  "collect opcode msg log = log @ [(opcode, msg)]"

theorem receive_frames_witness:
  "\<exists>q'. feed_reads (Some collect) [[1, 0x82, 1], [2, 3, 4, 0x49], [0x6b, 0x80], [1, 33]]
      (WebSocketParser_new 7 []) =
    Some (q', \<lparr>own_state = WS_FRAME_FIN, own_opcode = 1, own_message = [72, 105, 33],
      own_world = [(1, [72, 105, 33])]\<rparr>)"
proof -
  let ?fs = "[\<lparr>fr_fin = False, fr_opcode = 1, fr_mask = Some [1, 2, 3, 4], fr_payload = [72, 105]\<rparr>,
     \<lparr>fr_fin = True, fr_opcode = 0, fr_mask = None, fr_payload = [33]\<rparr>]"
  have "\<forall>f \<in> set ?fs. frame_ok f" by (simp add: frame_ok_def)
  moreover have "concat [[1, 0x82, 1], [2, 3, 4, 0x49], [0x6b, 0x80], [1, 33]] = concat (map frame_bytes ?fs)"
    by code_simp
  moreover have "at_frame_start websocket_parser_init"
    by (simp add: at_frame_start_def websocket_parser_init_def)
  ultimately show ?thesis
    using receive_frames [of ?fs _ websocket_parser_init "Some collect"
        "\<lparr>own_state = WS_FRAME_BEGIN, own_opcode = 7, own_message = [], own_world = []\<rparr>"]
    by (fastforce simp: WebSocketParser_new_def deliver_frame_def collect_def Let_def)
qed

lemma reserve_big:
  assumes "2 ^ 31 - 1 \<le> unat len mod 2 ^ 32" and "unat len mod 2 ^ 32 < 2 ^ 32 - 1"
  shows "reserve_throws len"
proof -
  define m where "m = unat len mod 2 ^ 32"
  have "(ucast len :: u32) = of_nat m"
  proof -
    have "(of_nat m :: u32) = of_nat (unat len)"
      unfolding m_def by (subst word_of_nat_eq_iff) (simp add: take_bit_eq_mod)
    also have "\<dots> = ucast len" by (rule bit_word_eqI) (simp add: bit_simps)
    finally show ?thesis by simp
  qed
  then have "ucast len + 1 = (of_nat (Suc m) :: u32)" by (simp add: add.commute)
  moreover have "sint (of_nat (Suc m) :: u32) = int (Suc m) - 2 ^ 32"
  proof -
    have "sint (of_nat (Suc m) :: u32) = signed_take_bit 31 (int (Suc m))"
      by (simp add: signed_of_nat del: of_nat_Suc)
    also have "\<dots> = (int (Suc m) + 2 ^ 31) mod 2 ^ 32 - 2 ^ 31"
      by (simp add: signed_take_bit_eq_take_bit_shift take_bit_eq_mod del: of_nat_Suc)
    also have "(int (Suc m) + 2 ^ 31) mod 2 ^ 32 = (int (Suc m) + 2 ^ 31 - 2 ^ 32) mod 2 ^ 32"
      by (simp only: minus_mod_self2)
    also have "\<dots> = int (Suc m) + 2 ^ 31 - 2 ^ 32"
      using assms unfolding m_def [symmetric] by (intro mod_pos_pos_trivial) auto
    finally show ?thesis by simp
  qed
  ultimately have r: "reserve_length len = int (Suc m) - 2 ^ 32"
    using assms unfolding reserve_length_def m_def [symmetric] by (simp add: add.commute)
  have neg: "- (2 ^ 31) \<le> reserve_length len" "reserve_length len < 0"
    using assms unfolding m_def [symmetric] r by auto
  have "uint (word_of_int (reserve_length len) :: u64) = reserve_length len + 2 ^ 64"
  proof -
    have "uint (word_of_int (reserve_length len) :: u64) = (reserve_length len + 2 ^ 64) mod 2 ^ 64"
      by (simp add: uint_word_of_int)
    also have "\<dots> = reserve_length len + 2 ^ 64" using neg by (intro mod_pos_pos_trivial) auto
    finally show ?thesis .
  qed
  then show ?thesis using neg unfolding reserve_throws_def word_less_def by simp
qed

lemma owner_header_throws:
  assumes "reserve_throws (wp_length q)" shows "byte_header_done hdr_eff fin (q, w) = None"
  using assms by (auto simp: byte_header_done_def byte_notify_def hdr_eff_def)




end
