(* ===== verification/HTTP1.thy ===== *)
theory HTTP1 imports HTTP_Dump HTTP_Safe WS_Roundtrip begin

text \<open>
  \<open>Http1Parser\<close>, \<^verbatim>\<open>lib/libhv/http/Http1Parser.cpp\<close> and \<^verbatim>\<open>Http1Parser.h\<close>: the owner of the HTTP parser
  that collects its callbacks into a message, as a client and as a server.
\<close>

subsection \<open>The owner\<close>

datatype (plugins only: code size) http_parser_state = HP_START_REQ_OR_RES | HP_MESSAGE_BEGIN | HP_URL | HP_STATUS
  | HP_HEADER_FIELD | HP_HEADER_VALUE | HP_HEADERS_COMPLETE | HP_CHUNK_HEADER | HP_BODY | HP_CHUNK_COMPLETE
  | HP_MESSAGE_COMPLETE | HP_ERROR

text \<open>\<open>h1_world\<close> is what a message callback acts on. A message callback gets the message, the state, the data (or the
  null pointer) and the size. \<open>flags\<close> only ever holds \<open>F_SKIPBODY\<close>.\<close>

record ('j, 'w) http1 =
  h1_flags :: byte
  h1_state :: http_parser_state
  h1_submited :: "'j http_message option"
  h1_parsed :: "'j http_message"
  h1_url :: "byte list"
  h1_header_field :: "byte list"
  h1_header_value :: "byte list"
  h1_world :: 'w

type_synonym ('j, 'w) message_cb =
  "'j http_message \<Rightarrow> http_parser_state \<Rightarrow> byte list option \<Rightarrow> int \<Rightarrow> 'w \<Rightarrow> 'j http_message \<times> 'w"

text \<open>The result tells whether there is a callback; the code returns 0 and -1.\<close>

definition invokeHttpCb ::
  "('j, 'w) message_cb option \<Rightarrow> byte list option \<Rightarrow> int \<Rightarrow> ('j, 'w) http1 \<Rightarrow> int \<times> ('j, 'w) http1" where
  "invokeHttpCb cb dat sz hp = (case cb of None \<Rightarrow> (-1, hp)
     | Some f \<Rightarrow> (case f (h1_parsed hp) (h1_state hp) dat sz (h1_world hp) of
         (m, w) \<Rightarrow> (0, hp\<lparr>h1_parsed := m, h1_world := w\<rparr>)))"

definition handle_header :: "('j, 'w) http1 \<Rightarrow> ('j, 'w) http1" where
  "handle_header hp =
     (if h1_header_field hp \<noteq> [] then
        let field = h1_header_field hp; value = h1_header_value hp; m = h1_parsed hp;
            m = (if stricmp field (ascii ''Set-CooKie'') = 0 \<or> stricmp field (ascii ''Cookie'') = 0
                 then (case cookie_parse value of (ok, ck) \<Rightarrow>
                   if ok then m\<lparr>msg_cookies := msg_cookies m @ [ck]\<rparr> else m) else m);
            m = SetHeader field value m
        in hp\<lparr>h1_parsed := m, h1_header_field := [], h1_header_value := []\<rparr>
      else hp)"

subsection \<open>The callbacks\<close>

definition h1_on_url :: "('j, 'w) http1 http_data_cb" where
  "h1_on_url parser at hp = (CbReturn 0, parser, hp\<lparr>h1_state := HP_URL, h1_url := h1_url hp @ at\<rparr>)"

definition h1_on_status :: "('j, 'w) http1 http_data_cb" where
  "h1_on_status parser at hp = (CbReturn 0, parser, hp\<lparr>h1_state := HP_STATUS\<rparr>)"

definition h1_on_header_field :: "('j, 'w) http1 http_data_cb" where
  "h1_on_header_field parser at hp =
     (let hp = (handle_header hp)\<lparr>h1_state := HP_HEADER_FIELD\<rparr>
      in (CbReturn 0, parser, hp\<lparr>h1_header_field := h1_header_field hp @ at\<rparr>))"

definition h1_on_header_value :: "('j, 'w) http1 http_data_cb" where
  "h1_on_header_value parser at hp =
     (let hp = hp\<lparr>h1_state := HP_HEADER_VALUE\<rparr>
      in (CbReturn 0, parser, hp\<lparr>h1_header_value := h1_header_value hp @ at\<rparr>))"

definition h1_on_body :: "('j, 'w) message_cb option \<Rightarrow> ('j, 'w) http1 http_data_cb" where
  "h1_on_body cb parser at hp =
     (let hp = hp\<lparr>h1_state := HP_BODY\<rparr> in
      case invokeHttpCb cb (Some at) (int (length at)) hp of (r, hp) \<Rightarrow>
        (CbReturn 0, parser,
         if r \<noteq> 0 then hp\<lparr>h1_parsed := (h1_parsed hp)\<lparr>msg_body := msg_body (h1_parsed hp) @ at\<rparr>\<rparr> else hp))"

text \<open>The callbacks that only set the state and call the message callback.\<close>

definition h1_notify :: "('j, 'w) message_cb option \<Rightarrow> http_parser_state \<Rightarrow> ('j, 'w) http1 http_cb" where
  "h1_notify cb st parser hp = (CbReturn 0, parser, snd (invokeHttpCb cb None 0 (hp\<lparr>h1_state := st\<rparr>)))"

definition take_status :: "http_parser \<Rightarrow> ('j, 'w) http1 \<Rightarrow> bool \<times> ('j, 'w) http1" where
  "take_status parser hp =
     (let m = (h1_parsed hp)\<lparr>msg_http_major := hp_http_major parser, msg_http_minor := hp_http_minor parser\<rparr> in
      if msg_type m = HTTP_REQUEST then
        (False, hp\<lparr>h1_parsed := m\<lparr>req_method := hp_method parser, req_url := h1_url hp\<rparr>\<rparr>)
      else if msg_type m = HTTP_RESPONSE then
        (h1_flags hp AND F_SKIPBODY \<noteq> 0, hp\<lparr>h1_parsed := m\<lparr>res_status_code := unat (hp_status_code parser)\<rparr>\<rparr>)
      else (False, hp\<lparr>h1_parsed := m\<rparr>))"

text \<open>\<open>reserve\<close> is asked for at most \<open>1 << 24\<close> bytes here, so it does not throw.\<close>

definition take_content_headers :: "'j http_message \<Rightarrow> 'j http_message" where
  "take_content_headers m =
     (let m = (case find_header (ascii ''content-type'') m of
            Some v \<Rightarrow> m\<lparr>msg_content_type := http_content_type_enum (Some (to_chars (c_str v)))\<rparr> | None \<Rightarrow> m)
      in case find_header (ascii ''content-length'') m of
           Some v \<Rightarrow> m\<lparr>msg_content_length := word_of_int (atoll v)\<rparr> | None \<Rightarrow> m)"

definition h1_on_headers_complete :: "('j, 'w) message_cb option \<Rightarrow> ('j, 'w) http1 http_cb" where
  "h1_on_headers_complete cb parser hp =
     (case take_status parser (handle_header hp) of (skip_body, hp) \<Rightarrow>
        let hp = hp\<lparr>h1_parsed := take_content_headers (h1_parsed hp)\<rparr>;
            hp = hp\<lparr>h1_state := HP_HEADERS_COMPLETE\<rparr>
        in (CbReturn (if skip_body then 1 else 0), parser, snd (invokeHttpCb cb None 0 hp)))"

text \<open>The size is truncated to an \<open>int\<close>, and \<open>chunk_size + 1\<close> wraps; a negative size is converted to \<open>size_t\<close>, above
  every capacity and above \<open>max_size()\<close>, so that \<open>reserve\<close> throws.\<close>

definition chunk_reserve :: "u64 \<Rightarrow> int" where
  "chunk_reserve content_length = min (sint ((ucast content_length :: u32) + 1)) (2 ^ 24)"

definition h1_on_chunk_header :: "('j, 'w) message_cb option \<Rightarrow> ('j, 'w) http1 http_cb" where
  "h1_on_chunk_header cb parser hp =
     (let len = hp_content_length parser in
      if (word_of_int (chunk_reserve len) :: u64) > 0x7FFFFFFFFFFFFFFF then (CbThrow, parser, hp)
      else (CbReturn 0, parser,
        snd (invokeHttpCb cb None (uint (scast (ucast len :: u32) :: u64)) (hp\<lparr>h1_state := HP_CHUNK_HEADER\<rparr>))))"

definition http1_cbs :: "('j, 'w) message_cb option \<Rightarrow> ('j, 'w) http1 http_parser_settings" where
  "http1_cbs cb =
     \<lparr>on_message_begin = Some (h1_notify cb HP_MESSAGE_BEGIN), on_url = Some h1_on_url, on_status = Some h1_on_status,
      on_header_field = Some h1_on_header_field, on_header_value = Some h1_on_header_value,
      on_headers_complete = Some (h1_on_headers_complete cb), on_body = Some (h1_on_body cb),
      on_message_complete = Some (h1_notify cb HP_MESSAGE_COMPLETE), on_chunk_header = Some (h1_on_chunk_header cb),
      on_chunk_complete = Some (h1_notify cb HP_CHUNK_COMPLETE)\<rparr>"

subsection \<open>The operations\<close>

definition Http1Parser_new :: "'j content_lib \<Rightarrow> 'w \<Rightarrow> http_parser \<times> ('j, 'w) http1" where
  "Http1Parser_new lib w = (http_parser_init HTTP_BOTH,
     \<lparr>h1_flags = 0, h1_state = HP_START_REQ_OR_RES, h1_submited = None, h1_parsed = blank_message lib HTTP_BOTH,
      h1_url = [], h1_header_field = [], h1_header_value = [], h1_world = w\<rparr>)"

definition http1_FeedRecvData :: "u32 \<Rightarrow> ('j, 'w) message_cb option \<Rightarrow> byte list \<Rightarrow>
    http_parser \<Rightarrow> ('j, 'w) http1 \<Rightarrow> ('j, 'w) http1 http_result" where
  "http1_FeedRecvData mx cb dat parser hp = http_parser_execute mx (http1_cbs cb) dat parser hp"

definition http1_IsComplete :: "('j, 'w) http1 \<Rightarrow> bool" where
  "http1_IsComplete hp \<longleftrightarrow> h1_state hp = HP_MESSAGE_COMPLETE"

definition http1_WantRecv :: "('j, 'w) http1 \<Rightarrow> bool" where
  "http1_WantRecv hp \<longleftrightarrow> h1_state hp \<noteq> HP_MESSAGE_COMPLETE"

definition http1_WantSend :: "('j, 'w) http1 \<Rightarrow> bool" where
  "http1_WantSend hp \<longleftrightarrow> h1_state hp = HP_MESSAGE_COMPLETE"

definition http1_GetError :: "http_parser \<Rightarrow> http_errno" where
  "http1_GetError parser = hp_http_errno parser"

definition clear_tmp :: "('j, 'w) http1 \<Rightarrow> ('j, 'w) http1" where
  "clear_tmp hp = hp\<lparr>h1_url := [], h1_header_field := [], h1_header_value := []\<rparr>"

text \<open>\<open>InitResponse\<close> does not set \<open>state\<close> back, \<open>InitRequest\<close> does.\<close>

definition InitResponse :: "'j content_lib \<Rightarrow> 'j http_message \<Rightarrow> ('j, 'w) http1 \<Rightarrow> http_parser \<times> ('j, 'w) http1" where
  "InitResponse lib res hp = (http_parser_init HTTP_RESPONSE, clear_tmp (hp\<lparr>h1_parsed := response_Reset lib res\<rparr>))"

definition InitRequest :: "'j content_lib \<Rightarrow> 'j http_message \<Rightarrow> ('j, 'w) http1 \<Rightarrow> http_parser \<times> ('j, 'w) http1" where
  "InitRequest lib req hp =
     (http_parser_init HTTP_REQUEST, clear_tmp (hp\<lparr>h1_parsed := request_Reset lib req, h1_state := HP_START_REQ_OR_RES\<rparr>))"

definition SubmitRequest :: "'j http_message option \<Rightarrow> ('j, 'w) http1 \<Rightarrow> ('j, 'w) http1" where
  "SubmitRequest req hp =
     (let hp = hp\<lparr>h1_submited := req\<rparr> in
      case req of None \<Rightarrow> hp
      | Some r \<Rightarrow> if req_method r = HTTP_HEAD then hp\<lparr>h1_flags := h1_flags hp OR F_SKIPBODY\<rparr>
          else hp\<lparr>h1_flags := h1_flags hp AND NOT F_SKIPBODY\<rparr>)"

definition SubmitResponse :: "'j http_message option \<Rightarrow> ('j, 'w) http1 \<Rightarrow> ('j, 'w) http1" where
  "SubmitResponse res hp = hp\<lparr>h1_submited := res\<rparr>"

text \<open>The data to send, empty if nothing was submitted; \<open>date\<close> as in \<open>response_Dump\<close>.\<close>

definition GetSendData :: "'j content_lib \<Rightarrow> byte list \<Rightarrow> ('j, 'w) http1 \<Rightarrow> (byte list \<times> ('j, 'w) http1) option" where
  "GetSendData lib date hp = (case h1_submited hp of None \<Rightarrow> Some ([], hp)
     | Some m \<Rightarrow> map_option (\<lambda>(str, m). (str, hp\<lparr>h1_submited := None\<rparr>))
         (if msg_type m = HTTP_REQUEST then request_Dump lib True True m
          else if msg_type m = HTTP_RESPONSE then response_Dump lib date True True m
          else message_Dump lib True True m))"

subsection \<open>The contract with the parser\<close>

text \<open>No callback touches the parser, so that the owner satisfies the contract under which the parser is safe.\<close>

lemma calm_http1: "calm_settings (http1_cbs cb)"
  by (auto simp: calm_settings_def http1_cbs_def calm_cb_def calm_data_cb_def calm_def h1_notify_def h1_on_url_def
      h1_on_status_def h1_on_header_field_def h1_on_header_value_def h1_on_headers_complete_def h1_on_body_def
      h1_on_chunk_header_def Let_def split: prod.splits)

interpretation http1: http_owner
  "\<lparr>en_settings = http1_cbs cb, en_data = dat, en_max_header_size = mx, en_lenient = l\<rparr>"
  for cb :: "('j, 'w) message_cb option" and dat :: "byte list" and mx :: u32 and l :: bool
  by unfold_locales (simp add: calm_http1)

lemma http1_feed_ok:
  assumes "parser_ok mx parser"
  shows "case http1_FeedRecvData mx cb dat parser hp of
      Parsed n parser' hp' \<Rightarrow> n \<le> max 1 (length dat) \<and> parser_ok mx parser'
    | Threw parser' hp' \<Rightarrow> True | Faulted \<Rightarrow> False"
  using http1.http_parser_flow_ok [where mx = mx and parser = parser and cb = cb and dat = dat
      and l = "hp_lenient_http_headers parser" and u = hp] assms
  by (cases "http_parser_flow \<lparr>en_settings = http1_cbs cb, en_data = dat, en_max_header_size = mx,
             en_lenient = hp_lenient_http_headers parser\<rparr> parser hp")
    (simp_all add: http1_FeedRecvData_def http_parser_execute_def)

text \<open>The reads of a response, one \<open>FeedRecvData\<close> each.\<close>

fun http1_feeds :: "u32 \<Rightarrow> ('j, 'w) message_cb option \<Rightarrow> byte list list \<Rightarrow>
    http_parser \<Rightarrow> ('j, 'w) http1 \<Rightarrow> ('j, 'w) http1 http_result" where
  "http1_feeds mx cb [] parser hp = Parsed 0 parser hp"
| "http1_feeds mx cb (dat # reads) parser hp = (case http1_FeedRecvData mx cb dat parser hp of
     Parsed n parser hp \<Rightarrow> http1_feeds mx cb reads parser hp | r \<Rightarrow> r)"

lemma http1_feeds_ok:
  "parser_ok mx parser \<Longrightarrow> case http1_feeds mx cb reads parser hp of
      Parsed n parser' hp' \<Rightarrow> parser_ok mx parser' | Threw parser' hp' \<Rightarrow> True | Faulted \<Rightarrow> False"
proof (induction reads arbitrary: parser hp)
  case (Cons dat reads)
  show ?case
    using http1_feed_ok [OF Cons.prems, where cb = cb and dat = dat and hp = hp] Cons.IH
    by (cases "http1_FeedRecvData mx cb dat parser hp") simp_all
qed simp

subsection \<open>Chunk sizes\<close>

lemma ucast_mod:
  fixes len :: u64 shows "(ucast len :: u32) = of_nat (unat len mod 2 ^ 32)"
proof -
  have "(of_nat (unat len mod 2 ^ 32) :: u32) = of_nat (unat len)"
    by (subst word_of_nat_eq_iff) (simp add: take_bit_eq_mod)
  also have "\<dots> = ucast len" by (rule bit_word_eqI) (simp add: bit_simps)
  finally show ?thesis by simp
qed

lemma chunk_reserve_eq: "chunk_reserve = reserve_length"
  by (rule ext) (simp add: chunk_reserve_def reserve_length_def)

lemma reserve_throws_iff:
  "reserve_throws len \<longleftrightarrow> 2 ^ 31 - 1 \<le> unat len mod 2 ^ 32 \<and> unat len mod 2 ^ 32 \<noteq> 2 ^ 32 - 1"
proof -
  define m where "m = unat len mod 2 ^ 32"
  have m: "m < 2 ^ 32" by (simp add: m_def)
  consider (big) "2 ^ 31 - 1 \<le> m" "m < 2 ^ 32 - 1" | (last) "m = 2 ^ 32 - 1" | (small) "m < 2 ^ 31 - 1"
    using m by linarith
  then show ?thesis
  proof cases
    case big
    then show ?thesis using reserve_big [of len] by (simp add: m_def)
  next
    case last
    then have "(ucast len :: u32) = of_nat (2 ^ 32 - 1)" using ucast_mod [of len] by (simp only: m_def)
    then have "ucast len + 1 = (0 :: u32)" by simp
    then show ?thesis using last by (simp add: m_def reserve_throws_def reserve_length_def)
  next
    case small
    have "unat (of_nat m :: u64) = m" using m by (simp add: unat_of_nat take_bit_nat_eq_self)
    then have "(ucast (of_nat m :: u64) :: u32) = ucast len"
      using ucast_mod [of "of_nat m"] m by (simp add: ucast_mod [of len] m_def)
    then have "reserve_throws len = reserve_throws (of_nat m)"
      by (simp add: reserve_throws_def reserve_length_def)
    then show ?thesis using small reserve_small [of m] by (simp add: m_def)
  qed
qed

lemma chunk_header_throws:
  "fst (h1_on_chunk_header cb parser hp) =
     (if 2 ^ 31 - 1 \<le> unat (hp_content_length parser) mod 2 ^ 32
         \<and> unat (hp_content_length parser) mod 2 ^ 32 \<noteq> 2 ^ 32 - 1 then CbThrow else CbReturn 0)"
  using reserve_throws_iff [of "hp_content_length parser"]
  by (simp add: h1_on_chunk_header_def chunk_reserve_eq reserve_throws_def Let_def)

subsection \<open>Collecting headers\<close>

text \<open>The calls for one header: the name in one piece, the value in any number of them.\<close>

definition header_calls :: "http_parser \<Rightarrow> byte list \<times> byte list list \<Rightarrow> ('j, 'w) http1 \<Rightarrow> ('j, 'w) http1" where
  "header_calls parser h hp =
     fold (\<lambda>v hp. snd (snd (h1_on_header_value parser v hp))) (snd h) (snd (snd (h1_on_header_field parser (fst h) hp)))"

lemma header_value_calls:
  "vs \<noteq> [] \<Longrightarrow> fold (\<lambda>v hp. snd (snd (h1_on_header_value parser v hp))) vs hp =
     hp\<lparr>h1_state := HP_HEADER_VALUE, h1_header_value := h1_header_value hp @ concat vs\<rparr>"
proof (induction vs rule: rev_nonempty_induct)
  case (single v)
  then show ?case by (simp add: h1_on_header_value_def Let_def)
next
  case (snoc v vs)
  then show ?case by (simp add: h1_on_header_value_def Let_def)
qed

lemma header_calls_eq:
  assumes "vs \<noteq> []"
  shows "header_calls parser (name, vs) hp =
     (handle_header hp)\<lparr>h1_state := HP_HEADER_VALUE, h1_header_field := h1_header_field (handle_header hp) @ name,
        h1_header_value := h1_header_value (handle_header hp) @ concat vs\<rparr>"
  by (simp add: header_calls_def header_value_calls [OF assms] h1_on_header_field_def Let_def)

text \<open>What a header does to a message.\<close>

definition add_header :: "byte list \<Rightarrow> byte list \<Rightarrow> 'j http_message \<Rightarrow> 'j http_message" where
  "add_header name value m =
     SetHeader name value
       (if stricmp name (ascii ''Set-CooKie'') = 0 \<or> stricmp name (ascii ''Cookie'') = 0
        then (case cookie_parse value of (ok, ck) \<Rightarrow> if ok then m\<lparr>msg_cookies := msg_cookies m @ [ck]\<rparr> else m)
        else m)"

lemma handle_header_eq:
  "handle_header hp = (if h1_header_field hp = [] then hp
     else hp\<lparr>h1_parsed := add_header (h1_header_field hp) (h1_header_value hp) (h1_parsed hp),
             h1_header_field := [], h1_header_value := []\<rparr>)"
  by (simp add: handle_header_def add_header_def Let_def)

lemma header_calls_pending:
  assumes "\<forall>h\<in>set hs. fst h \<noteq> [] \<and> snd h \<noteq> []" and "h1_header_field hp = [] \<longrightarrow> h1_header_value hp = []"
  shows "h1_parsed (handle_header (fold (header_calls parser) hs hp)) =
    fold (\<lambda>(name, vs). add_header name (concat vs)) hs (h1_parsed (handle_header hp))"
  using assms
proof (induction hs arbitrary: hp)
  case (Cons h hs)
  obtain name vs where h: "h = (name, vs)" by (cases h)
  have ne: "name \<noteq> []" "vs \<noteq> []" using Cons.prems(1) by (simp_all add: h)
  define q where "q = handle_header hp"
  have clean: "h1_header_field q = []" "h1_header_value q = []"
    using Cons.prems(2) by (simp_all add: q_def handle_header_eq)
  have eq: "header_calls parser h hp = q\<lparr>h1_state := HP_HEADER_VALUE, h1_header_field := name, h1_header_value := concat vs\<rparr>"
    using clean by (simp add: h header_calls_eq [OF ne(2)] q_def [symmetric])
  then have "h1_header_field (header_calls parser h hp) = name" by simp
  moreover have "h1_parsed (handle_header (header_calls parser h hp)) = add_header name (concat vs) (h1_parsed q)"
    unfolding eq using ne by (simp add: handle_header_eq)
  ultimately show ?case using Cons.IH [of "header_calls parser h hp"] Cons.prems(1) ne by (simp add: h q_def)
qed simp

text \<open>A content library without JSON and files, for the examples.\<close>

definition plain_lib :: "unit content_lib" where
  "plain_lib = \<lparr>cl_json_empty = (), cl_json_size = (\<lambda>_. 0), cl_dump_json = (\<lambda>_. []), cl_read_file = (\<lambda>_. None)\<rparr>"

subsection \<open>Properties\<close>

text \<open>C28: From \<open>InitResponse\<close> or \<open>InitRequest\<close>, whatever bytes the peer sends in whatever reads, \<open>Http1Parser\<close> fails no
  assertion and reads nothing outside of the data, and the header counter of a parser without error is
  within the limit.\<close>

theorem http1_connection_safe:
  "(case InitResponse lib res hp of (parser, hp) \<Rightarrow> case http1_feeds mx cb reads parser hp of
      Parsed n parser hp \<Rightarrow> hp_http_errno parser = HPE_OK \<longrightarrow> hp_nread parser \<le> mx
    | Threw parser hp \<Rightarrow> True | Faulted \<Rightarrow> False) \<and>
   (case InitRequest lib req hp of (parser, hp) \<Rightarrow> case http1_feeds mx cb reads parser hp of
      Parsed n parser hp \<Rightarrow> hp_http_errno parser = HPE_OK \<longrightarrow> hp_nread parser \<le> mx
    | Threw parser hp \<Rightarrow> True | Faulted \<Rightarrow> False)"
proof -
  have "case http1_feeds mx cb reads (http_parser_init t) hp of
      Parsed n parser hp \<Rightarrow> hp_http_errno parser = HPE_OK \<longrightarrow> hp_nread parser \<le> mx
    | Threw parser hp \<Rightarrow> True | Faulted \<Rightarrow> False" for t and hp :: "('a, 'b) http1"
    using http1_feeds_ok [OF parser_ok_init, of mx cb reads t hp]
    by (cases "http1_feeds mx cb reads (http_parser_init t) hp") (simp_all add: parser_ok_def)
  then show ?thesis by (simp add: InitResponse_def InitRequest_def)
qed

theorem http1_connection_safe_witness:
  "case InitResponse plain_lib (HttpResponse_new plain_lib) (snd (Http1Parser_new plain_lib ())) of (parser, hp) \<Rightarrow>
     case http1_feeds 4 None [[72, 84], [84, 80, 47]] parser hp of
      Parsed n parser hp \<Rightarrow> hp_http_errno parser = HPE_OK \<longrightarrow> hp_nread parser \<le> 4
    | Threw parser hp \<Rightarrow> True | Faulted \<Rightarrow> False"
  by (rule http1_connection_safe [THEN conjunct1])

lemma same_stricmp: "header_order.same a b \<longleftrightarrow> stricmp a b = 0"
  using strcasecmp_flip [of "c_str b" "c_str a"] by (auto simp: header_order.same_def StringCaseLess_def stricmp_def)

lemma add_header_headers: "msg_headers (add_header name value m) = map_set StringCaseLess name value (msg_headers m)"
  by (auto simp: add_header_def SetHeader_def split: prod.splits)

lemma add_headers_find:
  assumes "header_order.map_ok (msg_headers m)"
  shows "header_order.map_ok (msg_headers (fold (\<lambda>(name, vs). add_header name (concat vs)) hs m)) \<and>
    find_header key (fold (\<lambda>(name, vs). add_header name (concat vs)) hs m) =
     (case List.find (\<lambda>h. stricmp key (fst h) = 0) (rev hs) of Some h \<Rightarrow> Some (concat (snd h)) | None \<Rightarrow> find_header key m)"
proof (induction hs rule: rev_induct)
  case (snoc h hs)
  obtain name vs where h: "h = (name, vs)" by (cases h)
  show ?case
    using snoc header_order.map_set_ok
    by (auto simp: h add_header_headers header_order.map_find_set same_stricmp)
qed (use assms in simp)

text \<open>C29: Headers are collected faithfully: if the parser delivers every field name in one piece, then, however the values are cut,
  looking up a name in any case gives the whole value of its last occurrence, or what the message held before.\<close>

theorem headers_collected:
  assumes "\<forall>h\<in>set hs. fst h \<noteq> [] \<and> snd h \<noteq> []"
    and "h1_header_field hp = []" and "h1_header_value hp = []" and "header_order.map_ok (msg_headers (h1_parsed hp))"
  shows "find_header key (h1_parsed (handle_header (fold (header_calls parser) hs hp))) =
     (case List.find (\<lambda>h. stricmp key (fst h) = 0) (rev hs) of Some h \<Rightarrow> Some (concat (snd h))
      | None \<Rightarrow> find_header key (h1_parsed hp))"
  using header_calls_pending [OF assms(1), of hp parser] add_headers_find [OF assms(4)] assms(2,3)
  by (simp add: handle_header_eq)

theorem headers_collected_witness:
  "find_header (ascii ''UPGRADE'') (h1_parsed (handle_header (fold (header_calls (http_parser_init HTTP_RESPONSE))
       [(ascii ''Upgrade'', [ascii ''web'', ascii ''socket'']), (ascii ''Server'', [ascii ''x''])]
       (snd (Http1Parser_new plain_lib ()))))) =
     (case List.find (\<lambda>h. stricmp (ascii ''UPGRADE'') (fst h) = 0)
         (rev [(ascii ''Upgrade'', [ascii ''web'', ascii ''socket'']), (ascii ''Server'', [ascii ''x''])])
      of Some h \<Rightarrow> Some (concat (snd h)) | None \<Rightarrow> find_header (ascii ''UPGRADE'') (h1_parsed (snd (Http1Parser_new plain_lib ()))))"
  by (rule headers_collected)
    (simp_all add: ascii_def Http1Parser_new_def blank_message_def message_Init_def header_order.map_ok_def)

text \<open>A field name that is cut by the end of a read is not put together again: each piece becomes a header of its own, the first
  with an empty value. The same response, read at once and in two reads, therefore gives different headers.\<close>

definition example_response :: "byte list" where
  "example_response = [72, 84, 84, 80, 47, 49, 46, 49, 32, 50, 48, 48, 13, 10, 65, 66, 58, 67, 13, 10, 13, 10]"

definition response_headers :: "('j, 'w) http1 http_result \<Rightarrow> byte list strmap option" where
  "response_headers r = (case r of Parsed n parser hp \<Rightarrow> Some (msg_headers (h1_parsed hp)) | _ \<Rightarrow> None)"

definition example_start :: "http_parser \<times> (unit, unit) http1" where
  "example_start = InitResponse plain_lib (HttpResponse_new plain_lib) (snd (Http1Parser_new plain_lib ()))"

theorem header_name_split:
  "response_headers (http1_feeds 1000 None [example_response] (fst example_start) (snd example_start)) =
     Some [([65, 66], [67])] \<and>
   response_headers (http1_feeds 1000 None [take 15 example_response, drop 15 example_response]
       (fst example_start) (snd example_start)) = Some [([65], []), ([66], [67])]"
  by code_simp


end
