(* ===== verification/HMath.thy ===== *)
theory HMath imports Prelude begin

text \<open>
  The arithmetic helpers of \<^verbatim>\<open>lib/libhv/base/hmath.h\<close>: rounding to powers of two, which sizes
  the send buffers and the table of file descriptors, and the varint codec used by the packet
  splitter.
\<close>

subsection \<open>Powers of two\<close>

text \<open>\<open>while (n >>= 1) ++e;\<close> and \<open>while (e--) ret <<= 1;\<close>.\<close>

function shift_count :: "u64 \<Rightarrow> nat \<Rightarrow> nat" where
  "shift_count n e = (if drop_bit 1 n \<noteq> 0 then shift_count (drop_bit 1 n) (Suc e) else e)"
  by pat_completeness auto
termination
proof (relation "measure (\<lambda>(n, e). unat n)", goal_cases)
  case (2 n e)
  then have "unat (drop_bit 1 n) < unat n"
    by (cases "n = 0") (auto simp: drop_bit_eq_div unat_div unat_gt_0)
  then show ?case by simp
qed simp

declare shift_count.simps [simp del]

fun double_loop :: "nat \<Rightarrow> u64 \<Rightarrow> u64" where
  "double_loop 0 ret = ret"
| "double_loop (Suc e) ret = double_loop e (push_bit 1 ret)"

definition floor2e :: "u64 \<Rightarrow> u64" where
  "floor2e num = double_loop (shift_count num 0) 1"

definition ceil2e :: "u64 \<Rightarrow> u64" where
  "ceil2e num = (if num = 0 \<or> num = 1 then 1 else double_loop (shift_count (num - 1) 1) 1)"

lemma double_loop_eq: "double_loop e ret = push_bit e ret"
  by (induction e arbitrary: ret) (simp_all add: push_bit_push_bit)

lemma shift_count_bounds:
  assumes "n \<noteq> 0"
  shows "\<exists>k. shift_count n e = e + k \<and> 2 ^ k \<le> unat n \<and> unat n < 2 ^ Suc k"
  using assms
proof (induction n e rule: shift_count.induct)
  case (1 n e)
  have half: "unat (drop_bit 1 n) = unat n div 2" by (simp add: drop_bit_eq_div unat_div)
  show ?case
  proof (cases "drop_bit 1 n = 0")
    case True
    then have "unat n div 2 = 0" using half by simp
    then have "unat n = 1" using "1.prems" unat_gt_0 [of n] by (auto simp: div_eq_0_iff)
    then show ?thesis using True by (intro exI [of _ 0]) (simp add: shift_count.simps [of n e])
  next
    case False
    then obtain k where k: "shift_count (drop_bit 1 n) (Suc e) = Suc e + k"
      "2 ^ k \<le> unat n div 2" "unat n div 2 < 2 ^ Suc k" using "1.IH" half by auto
    then have "2 ^ Suc k \<le> unat n" "unat n < 2 ^ Suc (Suc k)"
      by (simp_all add: less_eq_div_iff_mult_less_eq div_less_iff_less_mult)
    then show ?thesis using False k(1)
      by (intro exI [of _ "Suc k"]) (simp add: shift_count.simps [of n e])
  qed
qed

lemma unat_power2:
  assumes "k < 64" shows "unat (2 ^ k :: u64) = 2 ^ k"
proof -
  have "unat (of_nat (2 ^ k) :: u64) = 2 ^ k mod 2 ^ 64"
    by (subst unat_of_nat) (simp add: take_bit_eq_mod)
  also have "\<dots> = 2 ^ k" using assms by (intro mod_less power_strict_increasing) auto
  finally show ?thesis by simp
qed

lemma ceil2e_bounds:
  assumes "1 < unat num" and "unat num \<le> 2 ^ 63"
  shows "\<exists>k \<le> 63. unat (ceil2e num) = 2 ^ k \<and> unat num \<le> 2 ^ k \<and> 2 ^ k < 2 * unat num"
proof -
  have ne: "num \<noteq> 0" "num \<noteq> 1" using assms(1) by auto
  have pred: "unat (num - 1) = unat num - 1" using ne(1) by (simp add: unat_minus_one)
  then have "num - 1 \<noteq> 0" using ne by auto
  from shift_count_bounds [OF this, of 1] obtain k where k: "shift_count (num - 1) 1 = Suc k"
    "2 ^ k \<le> unat num - 1" "unat num - 1 < 2 ^ Suc k" by (auto simp: pred)
  then have "(2::nat) ^ k < 2 ^ 63" using assms by linarith
  then have "k < 63" by (rule power_less_imp_less_exp [rotated]) simp
  then have "Suc k \<le> 63" by simp
  moreover from this have "unat (ceil2e num) = 2 ^ Suc k"
    using k(1) ne unat_power2 [of "Suc k"]
    by (simp add: ceil2e_def double_loop_eq push_bit_eq_mult del: power_Suc)
  ultimately show ?thesis using k assms(1) by (intro exI [of _ "Suc k"]) auto
qed

subsection \<open>Varints\<close>

text \<open>
  \<open>value >>= 7\<close> on a \<open>long long\<close> is the arithmetic shift, so the loop ends only for
  non-negative values: \<open>None\<close> is "does not return".
\<close>

partial_function (option) varint_encode :: "u64 \<Rightarrow> byte list option" where
  "varint_encode value =
     (let ch = ucast (value AND 0x7F); value' = signed_drop_bit 7 value in
      if value' = 0 then Some [ch]
      else Option.bind (varint_encode value') (\<lambda>bs. Some ((ch OR 0x80) # bs)))"

text \<open>
  \<open>len\<close> is the value of \<open>*len\<close> at the call (0: no limit). The result is the return value
  and \<open>*len\<close> on return; \<open>None\<close> is a read past the end of \<open>buf\<close>.
\<close>

function varint_loop :: "byte list \<Rightarrow> int \<Rightarrow> u64 \<Rightarrow> nat \<Rightarrow> nat \<Rightarrow> (u64 \<times> int) option" where
  "varint_loop buf len ret bytes bits =
     (if len \<noteq> 0 \<and> int bytes = len then Some (0, 0)
      else if length buf \<le> bytes then None
      else
        (let p = buf ! bytes; ret' = ret OR push_bit bits (ucast (p AND 0x7F)) in
         if p AND 0x80 = 0 then Some (ret', int (Suc bytes))
         else if Suc bytes < 10 then varint_loop buf len ret' (Suc bytes) (bits + 7)
         else Some (ret', -1)))"
  by pat_completeness auto
termination
  by (relation "measure (\<lambda>(buf, len, ret, bytes, bits). 10 - bytes)") auto

declare varint_loop.simps [simp del]

definition varint_decode :: "byte list \<Rightarrow> int \<Rightarrow> (u64 \<times> int) option" where
  "varint_decode buf len = varint_loop buf len 0 0 0"

text \<open>One 7-bit group at a time.\<close>

lemma varint_group:
  fixes v :: u64
  shows "(ret OR push_bit b (v AND 0x7F)) OR push_bit (b + 7) (drop_bit 7 v) = ret OR push_bit b v"
proof -
  have "v = (v AND 0x7F) OR push_bit 7 (drop_bit 7 v)"
    by (rule bit_word_eqI) (auto simp: bit_lits bit_simps, metis le_add_diff_inverse not_less)
  then have "push_bit b v = push_bit b (v AND 0x7F) OR push_bit (b + 7) (drop_bit 7 v)"
    by (metis add.commute push_bit_or push_bit_push_bit)
  then show ?thesis by (simp add: or.assoc)
qed

lemma varint_low7_plain:
  fixes v :: u64
  shows "ucast ((ucast (v AND 0x7F) :: byte) AND 0x7F) = v AND 0x7F"
  by (rule bit_word_eqI) (auto simp: bit_lits bit_simps)

lemma varint_low7_more:
  fixes v :: u64
  shows "ucast (((ucast (v AND 0x7F) :: byte) OR 0x80) AND 0x7F) = v AND 0x7F"
  by (rule bit_word_eqI) (auto simp: bit_lits bit_simps)

lemma varint_bit7:
  fixes v :: u64
  shows "(ucast (v AND 0x7F) :: byte) AND 0x80 = 0"
    and "((ucast (v AND 0x7F) :: byte) OR 0x80) AND 0x80 \<noteq> 0"
  by (simp_all add: bit_lits bit_simps)

lemmas varint_low7 = varint_low7_plain varint_low7_more varint_bit7

lemma signed_shift_nonneg:
  fixes v :: u64
  assumes "0 \<le> sint v" shows "signed_drop_bit 7 v = drop_bit 7 v"
proof -
  have "\<not> bit v 63" using assms bit_last_iff [of v] by simp
  then show ?thesis
    by (intro bit_word_eqI) (auto simp: bit_simps not_less dest: bit_imp_le_length)
qed

lemma sint_eq_uint_small:
  fixes v :: u64
  assumes "uint v < 2 ^ 63" shows "sint v = uint v"
proof -
  have "sint v = signed_take_bit 63 (uint v)" by (simp add: sint_uint)
  also have "\<dots> = uint v"
    using assms by (intro signed_take_bit_int_eq_self order_trans [OF _ uint_ge_0 [of v]]) simp_all
  finally show ?thesis .
qed

lemma sint_nonneg_small:
  fixes v :: u64
  assumes "0 \<le> sint v" shows "uint v < 2 ^ 63"
proof -
  have "uint v = take_bit 64 (sint v)" using uint_sint [of v] by simp
  also have "\<dots> = sint v" using assms sint_lt [of v] by (intro take_bit_int_eq_self) auto
  finally show ?thesis using sint_lt [of v] by simp
qed

text \<open>The decoder, at any position of its buffer, reads \<open>bs\<close> as \<open>v\<close>.\<close>

definition varint_reads :: "byte list \<Rightarrow> u64 \<Rightarrow> bool" where
  "varint_reads bs v \<longleftrightarrow> bs \<noteq> [] \<and>
    (\<forall>pre rest ret len. length pre + length bs \<le> 9 \<longrightarrow> (len = 0 \<or> int (length pre + length bs) \<le> len) \<longrightarrow>
       varint_loop (pre @ bs @ rest) len ret (length pre) (7 * length pre) =
         Some (ret OR push_bit (7 * length pre) v, int (length pre + length bs)))"

lemma varint_readsD:
  "varint_reads bs v \<Longrightarrow> length pre + length bs \<le> 9 \<Longrightarrow> len = 0 \<or> int (length pre + length bs) \<le> len \<Longrightarrow>
   varint_loop (pre @ bs @ rest) len ret (length pre) (7 * length pre) =
     Some (ret OR push_bit (7 * length pre) v, int (length pre + length bs))"
  unfolding varint_reads_def by blast

lemma varint_reads_last:
  assumes "drop_bit 7 v = 0" shows "varint_reads [ucast (v AND 0x7F)] v"
proof -
  have "v AND 0x7F = v" using varint_group [of 0 0 v] assms by simp
  then show ?thesis
    using varint_low7(1,3) [of v]
    by (auto simp: varint_reads_def varint_loop.simps Let_def nth_append)
qed

lemma varint_reads_more:
  assumes "varint_reads bs (drop_bit 7 v)"
  shows "varint_reads ((ucast (v AND 0x7F) OR 0x80) # bs) v"
proof -
  let ?ch = "ucast (v AND 0x7F) OR 0x80 :: byte"
  have ne: "bs \<noteq> []" using assms by (simp add: varint_reads_def)
  have "varint_loop (pre @ (?ch # bs) @ rest) len ret (length pre) (7 * length pre) =
        Some (ret OR push_bit (7 * length pre) v, int (length pre + length (?ch # bs)))"
    if le: "length pre + length (?ch # bs) \<le> 9" and
      len: "len = 0 \<or> int (length pre + length (?ch # bs)) \<le> len" for pre rest ret len
  proof -
    have "varint_loop (pre @ (?ch # bs) @ rest) len ret (length pre) (7 * length pre) =
       varint_loop ((pre @ [?ch]) @ bs @ rest) len (ret OR push_bit (7 * length pre) (v AND 0x7F))
         (length (pre @ [?ch])) (7 * length (pre @ [?ch]))"
      using le len varint_low7(2,4) [of v] ne
      by (subst varint_loop.simps) (auto simp: nth_append Let_def Suc_le_eq add.commute [of 7])
    also have "\<dots> = Some ((ret OR push_bit (7 * length pre) (v AND 0x7F)) OR
        push_bit (7 * length (pre @ [?ch])) (drop_bit 7 v), int (length (pre @ [?ch]) + length bs))"
      using le len by (intro varint_readsD [OF assms]) auto
    finally show ?thesis using varint_group [of ret "7 * length pre" v] by (simp add: add.commute)
  qed
  then show ?thesis by (simp add: varint_reads_def)
qed

lemma varint_roundtrip_aux:
  assumes "uint v < 2 ^ (7 * n)" and "n \<le> 9" and "0 < n"
  shows "\<exists>bs. varint_encode v = Some bs \<and> length bs \<le> n \<and> varint_reads bs v"
  using assms
proof (induction n arbitrary: v)
  case 0
  then show ?case by simp
next
  case (Suc n)
  have "(2::int) ^ (7 * Suc n) \<le> 2 ^ 63" using Suc.prems(2) by (intro power_increasing) auto
  then have "0 \<le> sint v" using Suc.prems(1) by (simp add: sint_eq_uint_small)
  then have sh: "signed_drop_bit 7 v = drop_bit 7 v" by (rule signed_shift_nonneg)
  show ?case
  proof (cases "drop_bit 7 v = 0")
    case True
    then have "varint_encode v = Some [ucast (v AND 0x7F)]"
      by (simp add: varint_encode.simps [of v] sh Let_def)
    then show ?thesis using varint_reads_last [OF True] by auto
  next
    case False
    have "uint (drop_bit 7 v) = uint v div 2 ^ 7" by (simp add: drop_bit_eq_div uint_div)
    moreover have "uint v < 2 ^ (7 * n) * 2 ^ 7" using Suc.prems(1) by (simp add: power_add)
    ultimately have small: "uint (drop_bit 7 v) < 2 ^ (7 * n)" by (simp add: div_less_iff_less_mult)
    have "0 < n"
    proof (rule ccontr)
      assume "\<not> 0 < n"
      then have "uint (drop_bit 7 v) < 1" using small by simp
      moreover have "0 \<le> uint (drop_bit 7 v)" by (rule uint_ge_0)
      ultimately have "uint (drop_bit 7 v) = 0" by linarith
      then show False using False by (simp add: uint_0_iff)
    qed
    with Suc.IH [OF small] Suc.prems(2) obtain bs where bs: "varint_encode (drop_bit 7 v) = Some bs"
      "length bs \<le> n" "varint_reads bs (drop_bit 7 v)" by auto
    then have "varint_encode v = Some ((ucast (v AND 0x7F) OR 0x80) # bs)"
      using False by (simp add: varint_encode.simps [of v] sh Let_def)
    then show ?thesis using bs varint_reads_more [OF bs(3)] by auto
  qed
qed

lemma varint_encode_Some_nonneg:
  assumes "varint_encode v = Some bs" shows "0 \<le> sint v"
proof (rule varint_encode.raw_induct [where P = "\<lambda>v bs. 0 \<le> sint v", OF _ assms])
  fix f v bs
  assume IH: "\<And>v bs. f v = Some bs \<Longrightarrow> 0 \<le> sint v"
    and eq: "(let ch = ucast (v AND 0x7F); value' = signed_drop_bit 7 v in
      if value' = 0 then Some [ch] else Option.bind (f value') (\<lambda>bs. Some ((ch OR 0x80) # bs))) = Some bs"
  have "0 \<le> sint (signed_drop_bit 7 v)"
    using eq IH [of "signed_drop_bit 7 v"] by (auto simp: Let_def split: if_splits Option.bind_splits)
  then show "0 \<le> sint v" by (simp add: sint_signed_drop_bit_eq)
qed

lemma varint_encode_negative: "sint v < 0 \<Longrightarrow> varint_encode v = None"
  using varint_encode_Some_nonneg [of v] by (cases "varint_encode v") auto

lemma varint_roundtrip:
  assumes "0 \<le> sint v"
  shows "\<exists>bs. varint_encode v = Some bs \<and> 1 \<le> length bs \<and> length bs \<le> 9 \<and>
    (\<forall>rest len. len = 0 \<or> int (length bs) \<le> len \<longrightarrow>
       varint_decode (bs @ rest) len = Some (v, int (length bs)))"
proof -
  have "uint v < 2 ^ 63" by (rule sint_nonneg_small [OF assms])
  then have "uint v < 2 ^ (7 * 9)" by simp
  from varint_roundtrip_aux [OF this] obtain bs where
    bs: "varint_encode v = Some bs" "length bs \<le> 9" "varint_reads bs v" by auto
  have "varint_decode (bs @ rest) len = Some (v, int (length bs))" if "len = 0 \<or> int (length bs) \<le> len" for rest len
    using varint_readsD [OF bs(3), of "[]" len rest 0] bs(2) that by (simp add: varint_decode_def)
  then show ?thesis using bs by (auto simp: varint_reads_def Suc_le_eq)
qed

text \<open>\<open>varint_encode\<close> returns exactly for the non-negative values: for a negative one the arithmetic shift never reaches
  zero, and the loop goes on storing bytes.\<close>

theorem varint_encode_returns: "(\<exists>bs. varint_encode v = Some bs) = (0 \<le> sint v)"
  using varint_encode_Some_nonneg varint_roundtrip by blast

text \<open>C19: A non-negative value is encoded in one to nine bytes, and decodes to itself and its length whatever follows in the
  buffer, for any limit that includes it and for none (0).\<close>

theorem varint_decode_encode:
  "case varint_encode v of None \<Rightarrow> sint v < 0
   | Some bs \<Rightarrow> 1 \<le> length bs \<and> length bs \<le> 9 \<and> varint_decode (bs @ rest) 0 = Some (v, int (length bs)) \<and>
       varint_decode (bs @ rest) (int (length bs + k)) = Some (v, int (length bs))"
proof (cases "0 \<le> sint v")
  case True
  from varint_roundtrip [OF True] show ?thesis by auto
next
  case False
  then show ?thesis by (simp add: varint_encode_negative)
qed

text \<open>\<open>ceil2e\<close> is the least power of two that is not below its argument, for arguments up to \<open>2 ^ 63\<close>.\<close>

theorem ceil2e_least:
  assumes "unat num \<le> 2 ^ 63"
  shows "\<exists>k \<le> 63. unat (ceil2e num) = 2 ^ k \<and> unat num \<le> 2 ^ k \<and> (k = 0 \<or> 2 ^ (k - 1) < unat num)"
proof (cases "1 < unat num")
  case True
  from ceil2e_bounds [OF True assms] obtain k
    where k: "k \<le> 63" "unat (ceil2e num) = 2 ^ k" "unat num \<le> 2 ^ k" "2 ^ k < 2 * unat num" by auto
  then show ?thesis by (intro exI [of _ k]) (cases k; simp)
next
  case False
  then have "num = 0 \<or> num = 1" by (metis One_nat_def less_one linorder_neqE_nat unat_1 unat_eq_zero word_unat_eq_iff)
  then show ?thesis by (intro exI [of _ 0]) (auto simp: ceil2e_def)
qed

theorem ceil2e_least_witness:
  "\<exists>k \<le> 63. unat (ceil2e 1000) = 2 ^ k \<and> unat (1000 :: u64) \<le> 2 ^ k \<and> (k = 0 \<or> 2 ^ (k - 1) < unat (1000 :: u64))"
  by (rule ceil2e_least) simp

end
