(* ===== verification/WS_Channel.thy ===== *)
theory WS_Channel imports WS_Roundtrip HMath begin

text \<open>
  The sending side: \<^verbatim>\<open>http/wsdef.c\<close>, \<^verbatim>\<open>http/wsdef.h\<close> and \<^verbatim>\<open>http/WebSocketChannel.cpp\<close>. A channel
  builds each frame in its send buffer, which it grows to a power of two, and writes it out;
  long messages are cut into fragments. The theory shows that no frame overruns the send buffer
  and that the peer's message layer reassembles exactly what was sent.
\<close>

subsection \<open>Frames from wsdef.c\<close>

datatype ws_session_type = WS_CLIENT | WS_SERVER

datatype ws_opcode = WS_OPCODE_CONTINUE | WS_OPCODE_TEXT | WS_OPCODE_BINARY | WS_OPCODE_CLOSE
  | WS_OPCODE_PING | WS_OPCODE_PONG

fun ws_opcode_value :: "ws_opcode \<Rightarrow> u32" where
  "ws_opcode_value WS_OPCODE_CONTINUE = 0x0"
| "ws_opcode_value WS_OPCODE_TEXT = 0x1"
| "ws_opcode_value WS_OPCODE_BINARY = 0x2"
| "ws_opcode_value WS_OPCODE_CLOSE = 0x8"
| "ws_opcode_value WS_OPCODE_PING = 0x9"
| "ws_opcode_value WS_OPCODE_PONG = 0xA"

text \<open>\<open>int\<close> is a 32-bit word read as signed by \<open>sint\<close>.\<close>

definition ws_calc_frame_size :: "u32 \<Rightarrow> bool \<Rightarrow> u32" where
  "ws_calc_frame_size data_len has_mask =
     (let size1 = data_len + 2;
          size2 = (if sint data_len \<ge> 126 then
                     (if sint data_len > 0xFFFF then size1 + 8 else size1 + 2) else size1)
      in if has_mask then size2 + 4 else size2)"

definition ws_build_frame ::
  "byte list \<Rightarrow> byte list \<Rightarrow> byte list \<Rightarrow> bool \<Rightarrow> ws_opcode \<Rightarrow> bool \<Rightarrow> byte list" where
  "ws_build_frame out data msk has_mask opcode fin =
     (let fl = ws_opcode_value opcode;
          fl = (if fin then fl OR WS_FIN else fl);
          fl = (if has_mask then fl OR WS_HAS_MASK else fl)
      in websocket_build_frame out fl (Some msk) data)"

text \<open>\<open>*(int* )mask = r\<close> on a little-endian machine.\<close>

definition store_int :: "u32 \<Rightarrow> byte list" where
  "store_int r = [ucast r, ucast (drop_bit 8 r), ucast (drop_bit 16 r), ucast (drop_bit 24 r)]"

definition ws_client_build_frame :: "u32 \<Rightarrow> byte list \<Rightarrow> byte list \<Rightarrow> ws_opcode \<Rightarrow> bool \<Rightarrow> byte list" where
  "ws_client_build_frame r out data opcode fin = ws_build_frame out data (store_int r) True opcode fin"

definition ws_server_build_frame :: "byte list \<Rightarrow> byte list \<Rightarrow> ws_opcode \<Rightarrow> bool \<Rightarrow> byte list" where
  "ws_server_build_frame out data opcode fin = ws_build_frame out data [0, 0, 0, 0] False opcode fin"

definition WS_SERVER_PING_FRAME :: "byte list" where "WS_SERVER_PING_FRAME = [0x89, 0]"
definition WS_SERVER_PONG_FRAME :: "byte list" where "WS_SERVER_PONG_FRAME = [0x8A, 0]"
definition WS_CLIENT_PING_FRAME :: "byte list" where
  "WS_CLIENT_PING_FRAME = [0x89, 0x80, 0x57, 0x53, 0x57, 0x53]"
definition WS_CLIENT_PONG_FRAME :: "byte list" where
  "WS_CLIENT_PONG_FRAME = [0x8A, 0x80, 0x57, 0x53, 0x57, 0x53]"

subsection \<open>The channel\<close>

text \<open>
  \<open>rand\<close> of the C library and the socket's \<open>write\<close> (\<^verbatim>\<open>Channel.h\<close>, on \<open>hio_write\<close>) are parameters over
  a state \<open>'io\<close>. \<open>None\<close> is a read or a write outside of a buffer, or a loop that does not end.
\<close>

record ws_channel =
  ch_type :: ws_session_type
  ch_sendbuf :: "byte list"

type_synonym 'io rand_fn = "'io \<Rightarrow> u32 \<times> 'io"
type_synonym 'io write_fn = "byte list \<Rightarrow> 'io \<Rightarrow> int \<times> 'io"
type_synonym 'io send_result = "(int \<times> ws_channel \<times> 'io) option"

text \<open>\<open>HBuf::resize\<close>: \<open>hv_realloc\<close> keeps the old bytes and clears the new ones.\<close>

definition hbuf_resize :: "nat \<Rightarrow> byte list \<Rightarrow> byte list" where
  "hbuf_resize cap base = (if cap = length base then base
     else take cap base @ replicate (cap - length base) 0)"

definition overwrite :: "byte list \<Rightarrow> byte list \<Rightarrow> byte list option" where
  "overwrite buf bs = (if length bs \<le> length buf then Some (bs @ drop (length bs) buf) else None)"

definition sendFrame ::
  "'io rand_fn \<Rightarrow> 'io write_fn \<Rightarrow> byte list \<Rightarrow> int \<Rightarrow> ws_opcode \<Rightarrow> bool \<Rightarrow> ws_channel \<times> 'io \<Rightarrow> 'io send_result" where
  "sendFrame rand wr buf len opcode fin = (\<lambda>(ch, io).
     if len < 0 \<or> int (length buf) < len then None
     else
       (let data = take (nat len) buf;
            (msk, has_mask, io) = (if ch_type ch = WS_CLIENT
               then (case rand io of (r, io') \<Rightarrow> (store_int r, True, io')) else ([0, 0, 0, 0], False, io));
            frame_size = ws_calc_frame_size (word_of_int len) has_mask;
            size = (scast frame_size :: u64);
            ch = (if of_nat (length (ch_sendbuf ch)) < size
                  then ch\<lparr>ch_sendbuf := hbuf_resize (unat (ceil2e size)) (ch_sendbuf ch)\<rparr> else ch)
        in case overwrite (ch_sendbuf ch) (ws_build_frame (ch_sendbuf ch) data msk has_mask opcode fin) of
             None \<Rightarrow> None
           | Some base \<Rightarrow>
               if sint frame_size < 0 \<or> int (length base) < sint frame_size then None
               else (case wr (take (nat (sint frame_size)) base) io of
                       (n, io) \<Rightarrow> Some (n, ch\<lparr>ch_sendbuf := base\<rparr>, io))))"

text \<open>The fragment loop of \<open>send\<close>, on the bytes from \<open>p\<close>.\<close>

partial_function (option) send_fragments ::
  "'io rand_fn \<Rightarrow> 'io write_fn \<Rightarrow> byte list \<Rightarrow> int \<Rightarrow> int \<Rightarrow> ws_channel \<times> 'io \<Rightarrow>
   (int option \<times> byte list \<times> int \<times> ws_channel \<times> 'io) option" where
  "send_fragments rand wr p remain fragment st =
     (if fragment < remain then
        Option.bind (sendFrame rand wr p fragment WS_OPCODE_CONTINUE False st) (\<lambda>(nsend, ch, io).
          if nsend < 0 then Some (Some nsend, p, remain, ch, io)
          else send_fragments rand wr (drop (nat fragment) p) (remain - fragment) fragment (ch, io))
      else Some (None, p, remain, st))"

definition send_fragmented ::
  "'io rand_fn \<Rightarrow> 'io write_fn \<Rightarrow> byte list \<Rightarrow> int \<Rightarrow> int \<Rightarrow> ws_opcode \<Rightarrow> ws_channel \<times> 'io \<Rightarrow> 'io send_result" where
  "send_fragmented rand wr buf len fragment opcode st =
     (if len \<le> fragment then sendFrame rand wr buf len opcode True st
      else
        Option.bind (sendFrame rand wr buf fragment opcode False st) (\<lambda>(nsend, ch, io).
          if nsend < 0 then Some (nsend, ch, io)
          else
            Option.bind (send_fragments rand wr (drop (nat fragment) buf) (len - fragment) fragment (ch, io))
              (\<lambda>(ret, p, remain, ch, io).
                case ret of Some nsend \<Rightarrow> Some (nsend, ch, io)
                | None \<Rightarrow>
                    Option.bind (sendFrame rand wr p remain WS_OPCODE_CONTINUE True (ch, io))
                      (\<lambda>(nsend, ch, io). if nsend < 0 then Some (nsend, ch, io) else Some (len, ch, io)))))"

definition channel_send ::
  "'io rand_fn \<Rightarrow> 'io write_fn \<Rightarrow> byte list \<Rightarrow> int \<Rightarrow> ws_opcode \<Rightarrow> bool \<Rightarrow> ws_channel \<times> 'io \<Rightarrow> 'io send_result" where
  "channel_send rand wr buf len opcode fin st =
     (if len > 0xFFFF then send_fragmented rand wr buf len 0xFFFF opcode st
      else sendFrame rand wr buf len opcode fin st)"

definition sendPing :: "'io write_fn \<Rightarrow> ws_channel \<times> 'io \<Rightarrow> int \<times> ws_channel \<times> 'io" where
  "sendPing wr = (\<lambda>(ch, io).
     let (n, io) = wr (if ch_type ch = WS_CLIENT then WS_CLIENT_PING_FRAME else WS_SERVER_PING_FRAME) io
     in (n, ch, io))"

definition sendPong :: "'io write_fn \<Rightarrow> ws_channel \<times> 'io \<Rightarrow> int \<times> ws_channel \<times> 'io" where
  "sendPong wr = (\<lambda>(ch, io).
     let (n, io) = wr (if ch_type ch = WS_CLIENT then WS_CLIENT_PONG_FRAME else WS_SERVER_PONG_FRAME) io
     in (n, ch, io))"

subsection \<open>Frame sizes\<close>

lemma ws_opcode_value_small: "unat (ws_opcode_value opcode) < 16"
  by (cases opcode) simp_all

lemma length_store_int [simp]: "length (store_int r) = 4"
  by (simp add: store_int_def)

lemma sint_word_of_int_small:
  assumes "0 \<le> n" and "n < 2 ^ 31" shows "sint (word_of_int n :: u32) = n"
  using assms by (simp add: signed_of_int signed_take_bit_int_eq_self)

lemma sint_add_numeral:
  fixes w :: u32
  assumes "0 \<le> sint w" and "sint w + numeral k < 2 ^ 31" shows "sint (w + numeral k) = sint w + numeral k"
proof -
  have "w + numeral k = word_of_int (sint w + numeral k)" by simp
  moreover have "0 \<le> sint w + numeral k" using assms(1) by simp
  ultimately show ?thesis using assms(2) by (simp only: sint_word_of_int_small)
qed

lemma calc_frame_size:
  assumes "0 \<le> len" and "len \<le> 2 ^ 31 - 15"
  shows "sint (ws_calc_frame_size (word_of_int len) has_mask) =
     len + 2 + (if len < 126 then 0 else if len \<le> 0xFFFF then 2 else 8) + (if has_mask then 4 else 0)"
proof -
  have s: "sint (word_of_int len :: u32) = len" using assms by (intro sint_word_of_int_small) auto
  have plus: "sint (numeral k + word_of_int len :: u32) = numeral k + len" if "numeral k \<le> (14 :: int)" for k
  proof -
    have "len + numeral k < 2 ^ 31" using assms(2) that by linarith
    then show ?thesis using sint_add_numeral [of "word_of_int len" k] assms(1) unfolding s by (simp add: add.commute)
  qed
  show ?thesis
    using assms unfolding ws_calc_frame_size_def Let_def s
    by (simp add: plus plus [simplified add.commute [where 'a = u32]])
qed

text \<open>The three computations of a frame's length agree.\<close>

lemma length_ws_frame_head:
  "length (ws_frame_head fl len) = (if len < 126 then 2 else if len \<le> 0xFFFF then 4 else 10)"
  by (simp add: ws_frame_head_def Let_def)

lemma length_ws_build_frame:
  assumes "length msk = 4" and "int (length data) \<le> 2 ^ 31 - 15"
  shows "int (length (ws_build_frame out data msk has_mask opcode fin)) =
     sint (ws_calc_frame_size (word_of_int (int (length data))) has_mask)"
proof -
  have n: "unat (of_nat (length data) :: u64) = length data"
    using assms(2) by (simp add: unat_of_nat take_bit_nat_eq_self)
  have small: "\<not> bit (ws_opcode_value opcode) 5" by (cases opcode) (simp_all)
  have "((if has_mask then fl OR WS_HAS_MASK else fl) AND WS_HAS_MASK \<noteq> 0) = has_mask"
    if "fl = ws_opcode_value opcode \<or> fl = ws_opcode_value opcode OR WS_FIN" for fl
    using that small by (auto simp: ws_flag_defs bit_lits bit_simps)
  then show ?thesis
    using assms(1) calc_frame_size [of "int (length data)" has_mask] assms(2)
    by (auto simp: ws_build_frame_def websocket_build_frame_def Let_def length_ws_frame_head websocket_decode_def
        word_less_nat_alt word_le_nat_alt n)
qed


text \<open>The frame a call of \<open>sendFrame\<close> builds, as the frame record of the receiver's specification.\<close>

definition sent_frame :: "byte list \<Rightarrow> ws_opcode \<Rightarrow> bool \<Rightarrow> byte list option \<Rightarrow> ws_frame" where
  "sent_frame data opcode fin msk =
     \<lparr>fr_fin = fin, fr_opcode = unat (ws_opcode_value opcode), fr_mask = msk, fr_payload = data\<rparr>"

lemma ws_build_frame_bytes:
  assumes "length msk = 4"
  shows "ws_build_frame out data msk has_mask opcode fin =
     frame_bytes (sent_frame data opcode fin (if has_mask then Some msk else None))"
proof -
  have "\<not> bit (ws_opcode_value opcode) 5" by (cases opcode) (simp_all)
  then show ?thesis
    using assms
    by (auto simp: ws_build_frame_def frame_bytes_def sent_frame_def frame_flags_def websocket_build_frame_def
        Let_def ws_flag_defs bit_lits bit_simps)
qed

lemma sent_frame_ok:
  "(case msk of None \<Rightarrow> True | Some k \<Rightarrow> length k = 4) \<Longrightarrow> int (length data) \<le> 2 ^ 31 - 15 \<Longrightarrow>
   frame_ok (sent_frame data opcode fin msk)"
  using ws_opcode_value_small [of opcode] by (simp add: frame_ok_def sent_frame_def)

text \<open>The mask of the next frame and the state after drawing it.\<close>

definition next_mask :: "'io rand_fn \<Rightarrow> ws_channel \<Rightarrow> 'io \<Rightarrow> byte list option \<times> 'io" where
  "next_mask rand ch io = (if ch_type ch = WS_CLIENT
     then (case rand io of (r, io') \<Rightarrow> (Some (store_int r), io')) else (None, io))"

lemma sendbuf_grows:
  fixes frame_size :: u32
  assumes size: "sint frame_size = int n" and n: "2 \<le> n"
    and buf: "buf' = (if of_nat (length buf) < (scast frame_size :: u64)
       then hbuf_resize (unat (ceil2e (scast frame_size))) buf else buf)"
    and len: "length buf < 2 ^ 64"
  shows "n \<le> length buf'"
proof -
  have lt: "n < 2 ^ 31" using size sint_lt [of frame_size] by simp
  have "(scast frame_size :: u64) = of_nat n" using size by (metis of_int_of_nat_eq of_int_sint)
  then have s: "unat (scast frame_size :: u64) = n" using lt by (simp add: unat_of_nat take_bit_nat_eq_self)
  have b: "unat (of_nat (length buf) :: u64) = length buf"
    using len by (simp add: unat_of_nat take_bit_nat_eq_self)
  have "n \<le> unat (ceil2e (scast frame_size))"
    using ceil2e_bounds [of "scast frame_size"] s n lt by auto
  then show ?thesis using buf s b by (auto simp: hbuf_resize_def word_less_nat_alt split: if_splits)
qed


lemma sendFrame_spec:
  assumes len: "len = int (length buf)" "len \<le> 2 ^ 31 - 15" and sb: "length (ch_sendbuf ch) < 2 ^ 64"
  shows "\<exists>sb. sendFrame rand wr buf len opcode fin (ch, io) =
     (case next_mask rand ch io of (msk, io1) \<Rightarrow>
        case wr (frame_bytes (sent_frame buf opcode fin msk)) io1 of
          (n, io2) \<Rightarrow> Some (n, ch\<lparr>ch_sendbuf := sb\<rparr>, io2)) \<and> length sb < 2 ^ 64"
proof -
  define client where "client = (ch_type ch = WS_CLIENT)"
  obtain msk io1 where m: "next_mask rand ch io = (msk, io1)" by fastforce
  define k where "k = (case msk of Some k \<Rightarrow> k | None \<Rightarrow> [0, 0, 0, 0])"
  have k: "length k = 4" "msk = (if client then Some k else None)"
    and draw: "(if ch_type ch = WS_CLIENT then (case rand io of (r, io') \<Rightarrow> (store_int r, True, io'))
      else ([0, 0, 0, 0], False, io)) = (k, client, io1)"
    using m by (auto simp: next_mask_def k_def client_def split: if_splits prod.splits)
  define frame_size where "frame_size = ws_calc_frame_size (word_of_int len) client"
  define out where "out = (if of_nat (length (ch_sendbuf ch)) < (scast frame_size :: u64)
     then hbuf_resize (unat (ceil2e (scast frame_size))) (ch_sendbuf ch) else ch_sendbuf ch)"
  define bs where "bs = frame_bytes (sent_frame buf opcode fin msk)"
  have built: "ws_build_frame out' buf k client opcode fin = bs" for out'
    using ws_build_frame_bytes [OF k(1)] k(2) by (simp add: bs_def)
  have n: "sint frame_size = int (length bs)"
    using length_ws_build_frame [OF k(1), of buf "[]" client opcode fin] len built [of "[]"]
    by (simp add: frame_size_def)
  have big: "2 \<le> length bs"
    using built [of "[]", symmetric] by (simp add: ws_build_frame_def websocket_build_frame_def Let_def length_ws_frame_head)
  have fits: "length bs \<le> length out" using sendbuf_grows [OF n big _ sb] by (simp add: out_def)
  have out: "length out < 2 ^ 64"
    using sb unsigned_less [of "ceil2e (scast frame_size)", where 'a = nat] by (auto simp: out_def hbuf_resize_def)
  obtain r io2 where w: "wr bs io1 = (r, io2)" by fastforce
  have "sendFrame rand wr buf len opcode fin (ch, io) =
    Some (r, ch\<lparr>ch_sendbuf := bs @ drop (length bs) out\<rparr>, io2)"
  proof -
    have eq: "(if of_nat (length (ch_sendbuf ch)) < (scast frame_size :: u64)
        then ch\<lparr>ch_sendbuf := hbuf_resize (unat (ceil2e (scast frame_size))) (ch_sendbuf ch)\<rparr> else ch) =
        ch\<lparr>ch_sendbuf := out\<rparr>"
      by (simp add: out_def)
    show ?thesis
      using len(1) fits n w
      unfolding sendFrame_def prod.case Let_def draw frame_size_def [symmetric] eq
      by (simp add: overwrite_def built)
  qed
  then show ?thesis
    using m w out fits by (intro exI [of _ "bs @ drop (length bs) out"]) (simp add: bs_def)
qed


subsection \<open>Sending over a transport that accepts every byte\<close>

text \<open>
  What the code relies on in the socket layer: while the connection is \<open>good\<close>, a write is accepted
  whole and in order (\<open>out\<close> is what has been accepted), and drawing a mask does not touch it.
\<close>

definition transport :: "'io rand_fn \<Rightarrow> 'io write_fn \<Rightarrow> ('io \<Rightarrow> bool) \<Rightarrow> ('io \<Rightarrow> byte list) \<Rightarrow> bool" where
  "transport rand wr good out \<longleftrightarrow>
     (\<forall>io. good io \<longrightarrow> good (snd (rand io)) \<and> out (snd (rand io)) = out io) \<and>
     (\<forall>bs io. good io \<longrightarrow> 0 \<le> fst (wr bs io) \<and> good (snd (wr bs io)) \<and> out (snd (wr bs io)) = out io @ bs)"

definition frame_of :: "byte list \<Rightarrow> ws_opcode \<Rightarrow> bool \<Rightarrow> ws_frame \<Rightarrow> bool" where
  "frame_of data opcode fin f \<longleftrightarrow> frame_ok f \<and> fr_payload f = data \<and> fr_fin f = fin \<and>
     fr_opcode f = unat (ws_opcode_value opcode)"

definition sent :: "('io \<Rightarrow> bool) \<Rightarrow> ('io \<Rightarrow> byte list) \<Rightarrow> 'io \<Rightarrow> ws_frame list \<Rightarrow> ws_channel \<times> 'io \<Rightarrow> bool" where
  "sent good out io fs = (\<lambda>(ch', io'). good io' \<and> length (ch_sendbuf ch') < 2 ^ 64 \<and>
     out io' = out io @ concat (map frame_bytes fs))"

lemma sent_trans:
  "sent good out io fs (ch1, io1) \<Longrightarrow> sent good out io1 gs st \<Longrightarrow> sent good out io (fs @ gs) st"
  by (auto simp: sent_def)

lemma sendFrame_sent:
  assumes t: "transport rand wr good out" and st: "sent good out io fs (ch1, io1)"
    and len: "len = int (length buf)" "len \<le> 2 ^ 31 - 15"
  shows "\<exists>n ch2 io2 f. sendFrame rand wr buf len opcode fin (ch1, io1) = Some (n, ch2, io2) \<and> 0 \<le> n \<and>
     sent good out io (fs @ [f]) (ch2, io2) \<and> frame_of buf opcode fin f"
proof -
  obtain msk io' where m: "next_mask rand ch1 io1 = (msk, io')" by fastforce
  define f where "f = sent_frame buf opcode fin msk"
  obtain n io2 where w: "wr (frame_bytes f) io' = (n, io2)" by fastforce
  have "case msk of None \<Rightarrow> True | Some k \<Rightarrow> length k = 4"
    using m by (auto simp: next_mask_def split: if_splits prod.splits)
  from sent_frame_ok [OF this] have f: "frame_of buf opcode fin f"
    using len by (simp add: frame_of_def f_def sent_frame_def)
  have io': "good io'" "out io' = out io1"
    using t m st by (auto simp: transport_def sent_def next_mask_def split: if_splits prod.splits)
  have io2: "0 \<le> n" "good io2" "out io2 = out io1 @ frame_bytes f"
    using t w io' by (metis (no_types, lifting) fst_conv snd_conv transport_def)+
  have "length (ch_sendbuf ch1) < 2 ^ 64" using st by (simp add: sent_def)
  from sendFrame_spec [OF len this, of rand wr opcode fin io1] obtain sb where
    "sendFrame rand wr buf len opcode fin (ch1, io1) = Some (n, ch1\<lparr>ch_sendbuf := sb\<rparr>, io2)" "length sb < 2 ^ 64"
    using m w by (auto simp: f_def)
  then show ?thesis using io2 st f by (auto simp: sent_def)
qed

lemma send_fragments_sent:
  assumes t: "transport rand wr good out" and st: "sent good out io fs (ch1, io1)"
    and len: "remain = int (length p)" "remain \<le> 2 ^ 31 - 15" and k: "0 < fragment"
  shows "\<exists>p' ch2 io2 gs. send_fragments rand wr p remain fragment (ch1, io1) =
      Some (None, p', int (length p'), ch2, io2) \<and> sent good out io (fs @ gs) (ch2, io2) \<and>
      (\<forall>g \<in> set gs. \<exists>d. frame_of d WS_OPCODE_CONTINUE False g) \<and>
      p = concat (map fr_payload gs) @ p' \<and> int (length p') \<le> fragment"
  using st len
proof (induction "length p" arbitrary: p remain ch1 io1 fs rule: less_induct)
  case less
  show ?case
  proof (cases "fragment < remain")
    case False
    then show ?thesis using less.prems
      by (subst send_fragments.simps) (auto intro!: exI [of _ "[]"])
  next
    case True
    have sp: "sendFrame rand wr p fragment WS_OPCODE_CONTINUE False st =
       sendFrame rand wr (take (nat fragment) p) fragment WS_OPCODE_CONTINUE False st" for st
      using True less.prems(2) k by (auto simp: sendFrame_def split: prod.splits)
    have l: "fragment = int (length (take (nat fragment) p))" using True less.prems(2) k by auto
    obtain n ch2 io2 g where g: "sendFrame rand wr p fragment WS_OPCODE_CONTINUE False (ch1, io1) = Some (n, ch2, io2)"
      "0 \<le> n" "sent good out io (fs @ [g]) (ch2, io2)"
      "frame_of (take (nat fragment) p) WS_OPCODE_CONTINUE False g"
      using sendFrame_sent [OF t less.prems(1) l, of WS_OPCODE_CONTINUE False] True less.prems unfolding sp by auto
    have "\<exists>p' ch3 io3 gs. send_fragments rand wr (drop (nat fragment) p) (remain - fragment) fragment (ch2, io2) =
      Some (None, p', int (length p'), ch3, io3) \<and> sent good out io ((fs @ [g]) @ gs) (ch3, io3) \<and>
      (\<forall>g \<in> set gs. \<exists>d. frame_of d WS_OPCODE_CONTINUE False g) \<and>
      drop (nat fragment) p = concat (map fr_payload gs) @ p' \<and> int (length p') \<le> fragment"
      using k True less.prems(2,3) by (intro less.hyps g(3)) auto
    then obtain p' ch3 io3 gs where r: "send_fragments rand wr (drop (nat fragment) p) (remain - fragment) fragment (ch2, io2) =
      Some (None, p', int (length p'), ch3, io3)" "sent good out io ((fs @ [g]) @ gs) (ch3, io3)"
      "\<forall>g \<in> set gs. \<exists>d. frame_of d WS_OPCODE_CONTINUE False g"
      "drop (nat fragment) p = concat (map fr_payload gs) @ p'" "int (length p') \<le> fragment" by blast
    have "send_fragments rand wr p remain fragment (ch1, io1) = Some (None, p', int (length p'), ch3, io3)"
      using True g(1,2) r(1) by (subst send_fragments.simps) simp
    moreover have "p = concat (map fr_payload (g # gs)) @ p'"
      using g(4) r(4) append_take_drop_id [of "nat fragment" p] by (simp add: frame_of_def)
    ultimately show ?thesis
      using r g(4) by (intro exI [of _ p'] exI [of _ ch3] exI [of _ io3] exI [of _ "g # gs"]) auto
  qed
qed


text \<open>What the receiver makes of the pieces of one message.\<close>

definition in_message :: "int \<Rightarrow> byte list \<Rightarrow> 'w \<Rightarrow> 'w ws_owner \<Rightarrow> bool" where
  "in_message opcode msg world w \<longleftrightarrow> own_state w = WS_FRAME_END \<and> own_opcode w = opcode \<and>
     own_message w = msg \<and> own_world w = world"

lemma deliver_continue:
  assumes "\<forall>g \<in> set gs. \<exists>d. frame_of d WS_OPCODE_CONTINUE False g" and "in_message opcode msg world w"
  shows "in_message opcode (msg @ concat (map fr_payload gs)) world (fold (deliver_frame onMessage) gs w)"
  using assms
proof (induction gs arbitrary: msg w)
  case (Cons g gs)
  then have "in_message opcode (msg @ fr_payload g) world (deliver_frame onMessage g w)"
    by (auto simp: in_message_def deliver_frame_def frame_of_def Let_def split: option.splits)
  from Cons.IH [OF _ this] Cons.prems show ?case by simp
qed simp

lemma deliver_single:
  assumes "frame_of buf opcode True f" and "opcode \<noteq> WS_OPCODE_CONTINUE"
    and "own_state w \<in> {WS_FRAME_BEGIN, WS_FRAME_FIN}"
  shows "deliver_frame (Some g) f w = \<lparr>own_state = WS_FRAME_FIN, own_opcode = uint (ws_opcode_value opcode),
     own_message = buf, own_world = g (uint (ws_opcode_value opcode)) buf (own_world w)\<rparr>"
  using assms by (cases opcode) (auto simp: deliver_frame_def frame_of_def Let_def)

lemma deliver_pieces:
  assumes "frame_of first opcode False f" and "opcode \<noteq> WS_OPCODE_CONTINUE"
    and "own_state w \<in> {WS_FRAME_BEGIN, WS_FRAME_FIN}"
    and "\<forall>g \<in> set gs. \<exists>d. frame_of d WS_OPCODE_CONTINUE False g" and "frame_of lst WS_OPCODE_CONTINUE True h"
    and "buf = first @ concat (map fr_payload gs) @ lst"
  shows "fold (deliver_frame (Some g)) (f # gs @ [h]) w = \<lparr>own_state = WS_FRAME_FIN,
     own_opcode = uint (ws_opcode_value opcode), own_message = buf,
     own_world = g (uint (ws_opcode_value opcode)) buf (own_world w)\<rparr>"
proof -
  have "in_message (uint (ws_opcode_value opcode)) first (own_world w) (deliver_frame (Some g) f w)"
    using assms(1-3) by (cases opcode) (auto simp: in_message_def deliver_frame_def frame_of_def Let_def)
  from deliver_continue [OF assms(4) this, of "Some g"] show ?thesis
    using assms(5,6) by (auto simp: in_message_def deliver_frame_def frame_of_def Let_def)
qed

text \<open>The whole of \<open>send\<close>: the frames it writes are one message.\<close>

definition one_message :: "ws_opcode \<Rightarrow> byte list \<Rightarrow> ws_frame list \<Rightarrow> bool" where
  "one_message opcode buf fs \<longleftrightarrow> (\<forall>f \<in> set fs. frame_ok f) \<and>
     (\<exists>f gs h first lst. fs = [f] \<and> frame_of buf opcode True f \<or>
        fs = f # gs @ [h] \<and> frame_of first opcode False f \<and> frame_of lst WS_OPCODE_CONTINUE True h \<and>
        (\<forall>g \<in> set gs. \<exists>d. frame_of d WS_OPCODE_CONTINUE False g) \<and>
        buf = first @ concat (map fr_payload gs) @ lst)"

lemma one_message_delivered:
  assumes "one_message opcode buf fs" and "opcode \<noteq> WS_OPCODE_CONTINUE"
    and "own_state w \<in> {WS_FRAME_BEGIN, WS_FRAME_FIN}"
  shows "fold (deliver_frame (Some g)) fs w = \<lparr>own_state = WS_FRAME_FIN,
     own_opcode = uint (ws_opcode_value opcode), own_message = buf,
     own_world = g (uint (ws_opcode_value opcode)) buf (own_world w)\<rparr>"
  using assms(1) deliver_single [OF _ assms(2,3), of buf _ g] deliver_pieces [OF _ assms(2,3), of _ _ _ _ _ buf g]
  unfolding one_message_def by (elim conjE exE disjE) auto

lemma send_fragmented_sent:
  assumes t: "transport rand wr good out" and st: "sent good out io [] (ch, io)"
    and len: "len = int (length buf)" "len \<le> 2 ^ 31 - 15" and k: "0 < fragment"
  shows "\<exists>n ch' io' fs. send_fragmented rand wr buf len fragment opcode (ch, io) = Some (n, ch', io') \<and> 0 \<le> n \<and>
     sent good out io fs (ch', io') \<and> one_message opcode buf fs"
proof (cases "len \<le> fragment")
  case True
  obtain n ch1 io1 f where "sendFrame rand wr buf len opcode True (ch, io) = Some (n, ch1, io1)" "0 \<le> n"
    "sent good out io [f] (ch1, io1)" "frame_of buf opcode True f"
    using sendFrame_sent [OF t st len] by force
  then show ?thesis using True
    by (intro exI [of _ n] exI [of _ ch1] exI [of _ io1] exI [of _ "[f]"])
      (simp add: send_fragmented_def one_message_def frame_of_def)
next
  case False
  let ?b = "take (nat fragment) buf"
  have sp: "sendFrame rand wr buf fragment opcode False st = sendFrame rand wr ?b fragment opcode False st" for st
    using False len k by (auto simp: sendFrame_def split: prod.splits)
  have l: "fragment = int (length ?b)" using False len k by auto
  obtain n ch1 io1 f where f: "sendFrame rand wr buf fragment opcode False (ch, io) = Some (n, ch1, io1)" "0 \<le> n"
    "sent good out io [f] (ch1, io1)" "frame_of ?b opcode False f"
    using sendFrame_sent [OF t st l, of opcode False] False len unfolding sp by force
  obtain p' ch2 io2 gs where g: "send_fragments rand wr (drop (nat fragment) buf) (len - fragment) fragment (ch1, io1) =
      Some (None, p', int (length p'), ch2, io2)" "sent good out io ([f] @ gs) (ch2, io2)"
      "\<forall>g \<in> set gs. \<exists>d. frame_of d WS_OPCODE_CONTINUE False g"
      "drop (nat fragment) buf = concat (map fr_payload gs) @ p'" "int (length p') \<le> fragment"
    using send_fragments_sent [OF t f(3), of "len - fragment" "drop (nat fragment) buf" fragment] False len k by auto
  obtain m ch3 io3 h where h: "sendFrame rand wr p' (int (length p')) WS_OPCODE_CONTINUE True (ch2, io2) = Some (m, ch3, io3)"
    "0 \<le> m" "sent good out io (([f] @ gs) @ [h]) (ch3, io3)" "frame_of p' WS_OPCODE_CONTINUE True h"
    using sendFrame_sent [OF t g(2) refl, of p' WS_OPCODE_CONTINUE True] g(5) False len by force
  have "send_fragmented rand wr buf len fragment opcode (ch, io) = Some (len, ch3, io3)"
    using False f g h by (simp add: send_fragmented_def)
  moreover have "one_message opcode buf (f # gs @ [h])"
    using f(4) g(3,4) h(4) append_take_drop_id [of "nat fragment" buf]
    unfolding one_message_def by (auto simp: frame_of_def)
  ultimately show ?thesis using h(3) len by (intro exI [of _ len] exI [of _ ch3] exI [of _ io3] exI [of _ "f # gs @ [h]"]) simp
qed


lemma channel_send_sent:
  assumes "transport rand wr good out" and "good io" and "length (ch_sendbuf ch) < 2 ^ 64"
    and "int (length buf) \<le> 2 ^ 31 - 15"
  shows "\<exists>n ch' io' fs. channel_send rand wr buf (int (length buf)) opcode True (ch, io) = Some (n, ch', io') \<and>
     0 \<le> n \<and> sent good out io fs (ch', io') \<and> one_message opcode buf fs"
proof -
  have st: "sent good out io [] (ch, io)" using assms(2,3) by (simp add: sent_def)
  have "channel_send rand wr buf (int (length buf)) opcode True (ch, io) =
      send_fragmented rand wr buf (int (length buf)) 0xFFFF opcode (ch, io)"
    by (simp add: channel_send_def send_fragmented_def)
  then show ?thesis using send_fragmented_sent [OF assms(1) st refl assms(4)] by simp
qed

subsection \<open>Properties\<close>

text \<open>C1: End to end: over a transport that accepts every byte, \<open>WebSocketChannel::send\<close> of a message
  of up to 2^31 - 15 bytes (a client's masked or a server's plain, in one frame or in fragments)
  never overruns the send buffer and succeeds, and whatever reads the written bytes arrive in, the
  peer's \<open>onMessage\<close> runs exactly once, with the opcode and the bytes of the message.\<close>

theorem send_receive:
  assumes "transport rand wr good out" and "good io" and "length (ch_sendbuf ch) < 2 ^ 64"
    and "int (length buf) \<le> 2 ^ 31 - 15" and "opcode \<noteq> WS_OPCODE_CONTINUE"
    and "at_frame_start q" and "own_state w \<in> {WS_FRAME_BEGIN, WS_FRAME_FIN}"
  shows "\<exists>n ch' io' bs. channel_send rand wr buf (int (length buf)) opcode True (ch, io) = Some (n, ch', io') \<and>
     0 \<le> n \<and> out io' = out io @ bs \<and>
     (\<forall>rs. concat rs = bs \<longrightarrow> (\<exists>q'. feed_reads (Some g) rs (q, w) =
        Some (q', \<lparr>own_state = WS_FRAME_FIN, own_opcode = uint (ws_opcode_value opcode), own_message = buf,
          own_world = g (uint (ws_opcode_value opcode)) buf (own_world w)\<rparr>)))"
proof -
  obtain n ch' io' fs where s: "channel_send rand wr buf (int (length buf)) opcode True (ch, io) = Some (n, ch', io')"
    "0 \<le> n" "out io' = out io @ concat (map frame_bytes fs)" "one_message opcode buf fs"
    using channel_send_sent [OF assms(1-4), of opcode] by (auto simp: sent_def)
  moreover have "\<forall>f \<in> set fs. frame_ok f" using s(4) by (simp add: one_message_def)
  ultimately show ?thesis
    using receive_reads [OF _ _ assms(6), of fs _ "Some g" w] one_message_delivered [OF s(4) assms(5,7), of g]
    by (metis (no_types, lifting))
qed

text \<open>A transport that keeps what is written, with the mask 0xDEADBEEF.\<close>

definition log_rand :: "byte list rand_fn" where "log_rand io = (0xDEADBEEF, io)"
definition log_write :: "byte list write_fn" where "log_write bs io = (int (length bs), io @ bs)"

lemma log_transport: "transport log_rand log_write (\<lambda>_. True) (\<lambda>io. io)"
  by (simp add: transport_def log_rand_def log_write_def)

theorem send_receive_witness:
  "\<exists>n ch' io' bs. channel_send log_rand log_write [72, 105] 2 WS_OPCODE_TEXT True
       (\<lparr>ch_type = WS_CLIENT, ch_sendbuf = []\<rparr>, []) = Some (n, ch', io') \<and> 0 \<le> n \<and> io' = [] @ bs \<and>
     (\<forall>rs. concat rs = bs \<longrightarrow> (\<exists>q'. feed_reads (Some collect) rs
        (websocket_parser_init, \<lparr>own_state = WS_FRAME_BEGIN, own_opcode = 0, own_message = [], own_world = []\<rparr>) =
        Some (q', \<lparr>own_state = WS_FRAME_FIN, own_opcode = uint (ws_opcode_value WS_OPCODE_TEXT), own_message = [72, 105],
          own_world = collect (uint (ws_opcode_value WS_OPCODE_TEXT)) [72, 105] []\<rparr>)))"
  using send_receive [OF log_transport, where io = "[]" and ch = "\<lparr>ch_type = WS_CLIENT, ch_sendbuf = []\<rparr>" and buf = "[72, 105]"
      and opcode = WS_OPCODE_TEXT and q = websocket_parser_init and g = collect and
      w = "\<lparr>own_state = WS_FRAME_BEGIN, own_opcode = 0, own_message = [], own_world = []\<rparr>"]
  by (simp add: at_frame_start_def websocket_parser_init_def)

end
