(* ===== verification/Digest.thy ===== *)
theory Digest imports Prelude begin

text \<open>
  What \<^verbatim>\<open>util/sha1.c\<close> and \<^verbatim>\<open>util/md5.c\<close> share: a context absorbs a message in pieces of any size,
  hashes it in blocks of 64 bytes and finishes it with padding and a bit count. The locale
  \<open>streaming_digest\<close> is the contract of the two, the rest of the theory the lemmas on blocks, on the
  64-bit counter kept in two words and on the block loop that both interpretations rest on.
\<close>

subsection \<open>The contract\<close>

locale streaming_digest =
  fixes absorbed :: "'c \<Rightarrow> byte list \<Rightarrow> bool" and init :: 'c
    and update :: "'c \<Rightarrow> byte list \<Rightarrow> 'c option" and final :: "'c \<Rightarrow> byte list option"
    and digest :: "byte list \<Rightarrow> byte list" and limit :: nat
  assumes init: "absorbed init []"
    and update: "absorbed c m \<Longrightarrow> length xs < limit \<Longrightarrow> \<exists>c'. update c xs = Some c' \<and> absorbed c' (m @ xs)"
    and final: "absorbed c m \<Longrightarrow> final c = Some (digest m)"
begin

lemma updates_absorbed:
  assumes "absorbed c m" and "\<forall>xs \<in> set xss. length xs < limit"
  shows "\<exists>c'. feed_all update c xss = Some c' \<and> absorbed c' (m @ concat xss)"
  using assms
proof (induction xss arbitrary: c m)
  case (Cons xs xss)
  obtain c1 where "update c xs = Some c1" "absorbed c1 (m @ xs)" using update Cons.prems by fastforce
  then show ?case using Cons.IH [of c1 "m @ xs"] Cons.prems by auto
qed simp

lemma streamed:
  assumes "\<forall>xs \<in> set xss. length xs < limit"
  shows "Option.bind (feed_all update init xss) final = Some (digest (concat xss))"
  using updates_absorbed [OF init assms] final by auto

lemma one_shot:
  assumes "length m < limit" shows "Option.bind (update init m) final = Some (digest m)"
  using streamed [of "[m]"] assms by (cases "update init m") simp_all

end

subsection \<open>Blocks\<close>

function blocks :: "('s \<Rightarrow> byte list \<Rightarrow> 's) \<Rightarrow> 's \<Rightarrow> byte list \<Rightarrow> 's" where
  "blocks f s m = (if length m < 64 then s else blocks f (f s (take 64 m)) (drop 64 m))"
  by pat_completeness auto
termination by (relation "measure (\<lambda>(f, s, m). length m)") auto

declare blocks.simps [simp del]

lemma blocks_short [simp]: "length m < 64 \<Longrightarrow> blocks f s m = s"
  by (simp add: blocks.simps)

lemma blocks_append:
  "length m mod 64 = 0 \<Longrightarrow> blocks f s (m @ xs) = blocks f (blocks f s m) xs"
proof (induction f s m rule: blocks.induct)
  case (1 f s m)
  show ?case
  proof (cases "length m < 64")
    case True
    then have "m = []" using 1(2) by auto
    then show ?thesis by simp
  next
    case False
    then have "length (drop 64 m) mod 64 = 0" using 1(2) by (simp add: le_mod_geq)
    then show ?thesis using 1(1) False by (simp add: blocks.simps [of f s])
  qed
qed

text \<open>The bytes of the last, incomplete block.\<close>

definition tail :: "byte list \<Rightarrow> byte list" where
  "tail m = drop (length m - length m mod 64) m"

lemma length_tail: "length (tail m) = length m mod 64"
  by (simp add: tail_def)

lemma split_tail: "m = take (length m - length m mod 64) m @ tail m"
  by (simp add: tail_def)

lemma head_multiple: "length (take (length m - length m mod 64) m) mod 64 = 0"
  by (simp add: minus_mod_eq_mult_div)

lemma blocks_tail: "blocks f s (m @ xs) = blocks f (blocks f s m) (tail m @ xs)"
proof -
  let ?h = "take (length m - length m mod 64) m"
  have "blocks f s (m @ xs) = blocks f s (?h @ (tail m @ xs))" using split_tail [of m] by (metis append.assoc)
  moreover have "blocks f s m = blocks f s (?h @ tail m)" using split_tail [of m] by metis
  ultimately show ?thesis
    using length_tail [of m] by (simp add: blocks_append [OF head_multiple])
qed

lemma tail_tail: "tail (m @ xs) = tail (tail m @ xs)"
proof -
  let ?h = "take (length m - length m mod 64) m"
  have m: "m @ xs = ?h @ (tail m @ xs)" using split_tail [of m] by (metis append.assoc)
  have t: "tail (h @ ys) = tail ys" if "length h mod 64 = 0" for h ys :: "byte list"
  proof -
    have "length (h @ ys) mod 64 = length ys mod 64" using that by (simp add: mod_add_eq [symmetric])
    then show ?thesis by (simp add: tail_def)
  qed
  show ?thesis using t [OF head_multiple [of m], of "tail m @ xs"] m by metis
qed

lemma tail_short: "length m < 64 \<Longrightarrow> tail m = m"
  by (simp add: tail_def)

subsection \<open>The bit counter in two words\<close>

definition join_count :: "u32 \<Rightarrow> u32 \<Rightarrow> u64" where
  "join_count hi lo = of_nat (unat hi * 2 ^ 32 + unat lo)"

lemma of_nat_u64_eqI: "m mod 2 ^ 64 = n mod 2 ^ 64 \<Longrightarrow> (of_nat m :: u64) = of_nat n"
  by (subst word_of_nat_eq_iff) (simp add: take_bit_eq_mod)

lemma count_carry:
  fixes hi lo :: u32
  assumes "n < 2 ^ 32"
  shows "join_count ((if lo + push_bit 3 (of_nat n) < lo then hi + 1 else hi) + drop_bit 29 (of_nat n))
     (lo + push_bit 3 (of_nat n)) = join_count hi lo + of_nat (8 * n)"
proof -
  define r q where "r = n mod 2 ^ 29" and "q = n div 2 ^ 29"
  have n: "n = q * 2 ^ 29 + r" "r < 2 ^ 29" by (simp_all add: r_def q_def)
  have un: "unat (of_nat n :: u32) = n" using assms by (simp add: unat_of_nat take_bit_nat_eq_self)
  have w: "unat (push_bit 3 (of_nat n) :: u32) = 8 * r"
  proof -
    have "unat (push_bit 3 (of_nat n) :: u32) = (n * 8) mod 2 ^ 32"
      unfolding unsigned_push_bit_eq un by (simp add: push_bit_eq_mult take_bit_eq_mod)
    also have "\<dots> = (r * 8 + q * 2 ^ 32) mod 2 ^ 32" by (subst n(1)) (simp add: algebra_simps)
    also have "\<dots> = 8 * r" using n(2) by simp
    finally show ?thesis .
  qed
  have d: "drop_bit 29 (of_nat n :: u32) = of_nat q"
    by (rule word_unat_eq_iff [THEN iffD2]) (use assms in \<open>simp add: unat_drop_bit un q_def unat_of_nat take_bit_nat_eq_self\<close>)
  have lo: "unat lo < 2 ^ 32" using unsigned_less [of lo, where 'a = nat] by simp
  define c where "c = (if lo + push_bit 3 (of_nat n) < lo then 1 else 0 :: nat)"
  have lo': "unat (lo + push_bit 3 (of_nat n)) + c * 2 ^ 32 = unat lo + 8 * r"
  proof -
    have u: "unat (lo + push_bit 3 (of_nat n)) = (unat lo + 8 * r) mod 2 ^ 32"
      by (simp add: unat_word_ariths w)
    show ?thesis
    proof (cases "unat lo + 8 * r < 2 ^ 32")
      case True
      then show ?thesis using u by (simp add: c_def word_less_nat_alt)
    next
      case False
      then have "(unat lo + 8 * r) mod 2 ^ 32 = unat lo + 8 * r - 2 ^ 32"
        using lo n(2) by (subst le_mod_geq) auto
      then show ?thesis using u False n(2) by (simp add: c_def word_less_nat_alt)
    qed
  qed
  have hi': "(if lo + push_bit 3 (of_nat n) < lo then hi + 1 else hi) + drop_bit 29 (of_nat n) =
      (of_nat (unat hi + c + q) :: u32)"
    by (simp add: c_def d)
  have "(unat (of_nat (unat hi + c + q) :: u32) * 2 ^ 32) mod 2 ^ 64 = ((unat hi + c + q) * 2 ^ 32) mod 2 ^ 64"
  proof -
    have "(unat (of_nat x :: u32) * 2 ^ 32) mod 2 ^ 64 = (x * 2 ^ 32) mod 2 ^ 64" for x :: nat
    proof -
      have "unat (of_nat x :: u32) = x mod 2 ^ 32" by (subst unat_of_nat) (simp add: take_bit_eq_mod)
      moreover have "(x mod 2 ^ 32) * 2 ^ 32 = (x * 2 ^ 32) mod (2 ^ 32 * 2 ^ 32)" by (rule mult_mod_left)
      ultimately show ?thesis by simp
    qed
    then show ?thesis .
  qed
  then have "(unat (of_nat (unat hi + c + q) :: u32) * 2 ^ 32 + unat (lo + push_bit 3 (of_nat n))) mod 2 ^ 64 =
      ((unat hi + c + q) * 2 ^ 32 + unat (lo + push_bit 3 (of_nat n))) mod 2 ^ 64"
    by (rule mod_add_cong) (rule refl)
  also have "(unat hi + c + q) * 2 ^ 32 + unat (lo + push_bit 3 (of_nat n)) = unat hi * 2 ^ 32 + unat lo + 8 * n"
    using lo' n(1) by (simp add: algebra_simps)
  finally show ?thesis
    unfolding hi' join_count_def of_nat_add [symmetric] by (rule of_nat_u64_eqI)
qed

lemma join_count_parts: "ucast (drop_bit 32 (join_count hi lo)) = hi" "ucast (join_count hi lo) = lo"
proof -
  have "join_count hi lo = push_bit 32 (ucast hi) + ucast lo"
  proof -
    have "(of_nat (unat hi * 2 ^ 32) :: u64) = push_bit 32 (ucast hi)"
      by (simp add: push_bit_eq_mult)
    then show ?thesis by (simp add: join_count_def)
  qed
  also have "\<dots> = push_bit 32 (ucast hi) OR ucast lo"
    by (rule disjunctive_add_eq_or, rule bit_word_eqI) (auto simp: bit_simps dest: bit_imp_le_length)
  finally have j: "join_count hi lo = push_bit 32 (ucast hi) OR ucast lo" .
  show "ucast (drop_bit 32 (join_count hi lo)) = hi" "ucast (join_count hi lo) = lo"
    unfolding j by (rule bit_word_eqI; auto simp: bit_simps dest: bit_imp_le_length)+
qed

lemma count_index:
  assumes "join_count hi lo = of_nat (8 * n)"
  shows "unat (drop_bit 3 lo AND 0x3F) = n mod 64"
proof -
  have m: "drop_bit 3 lo AND 0x3F = take_bit 6 (drop_bit 3 lo)" by (rule bit_word_eqI) (auto simp: bit_lits bit_simps)
  have lo: "unat lo < 2 ^ 32" using unsigned_less [of lo, where 'a = nat] by simp
  have "(unat hi * 2 ^ 32 + unat lo) mod 2 ^ 64 = (8 * n) mod 2 ^ 64"
    using assms unfolding join_count_def by (subst (asm) word_of_nat_eq_iff) (simp add: take_bit_eq_mod)
  then have "(unat hi * 2 ^ 32 + unat lo) mod 2 ^ 64 mod 2 ^ 9 = (8 * n) mod 2 ^ 64 mod 2 ^ 9" by (rule arg_cong)
  then have "(unat hi * 2 ^ 32 + unat lo) mod 2 ^ 9 = (8 * n) mod 2 ^ 9"
    by (simp add: mod_mod_cancel)
  moreover have "(unat hi * 2 ^ 32 + unat lo) mod 2 ^ 9 = unat lo mod 2 ^ 9"
  proof -
    have "unat hi * 2 ^ 32 = (unat hi * 2 ^ 23) * 2 ^ 9" by simp
    then show ?thesis by (metis mod_mult_self3)
  qed
  ultimately have "unat lo mod (8 * 64) = (8 * n) mod (8 * 64)" by simp
  then have "unat lo mod (8 * 64) div 8 = n mod 64" by (simp only: mult_mod_right [symmetric])
  moreover have "unat lo mod (8 * 64) div 8 = unat lo div 8 mod 64" by (simp only: mod_mult2_eq div_mult_self4 div_mult_self2)
  ultimately show ?thesis unfolding m unat_take_bit unat_drop_bit by simp
qed

subsection \<open>The block loop\<close>

text \<open>
  The loop over whole blocks of \<open>data\<close> from \<open>i\<close>, with the loop condition \<open>more\<close> (\<open>i + 63 < len\<close>
  in SHA-1, \<open>i + 64 <= inputlen\<close> in MD5), and the copy of the rest to the buffer. \<open>full\<close> is the
  test whether the buffer fills up.
\<close>

partial_function (option) block_loop ::
  "('s \<Rightarrow> byte list \<Rightarrow> 's) \<Rightarrow> byte list \<Rightarrow> (u32 \<Rightarrow> bool) \<Rightarrow> u32 \<Rightarrow> 's \<Rightarrow> ('s \<times> u32) option" where
  "block_loop f data more i s =
     (if more i then Option.bind (read_range data (unat i) 64) (\<lambda>b. block_loop f data more (i + 64) (f s b))
      else Some (s, i))"

declare block_loop.simps [code]

definition absorb ::
  "('s \<Rightarrow> byte list \<Rightarrow> 's) \<Rightarrow> (u32 \<Rightarrow> bool) \<Rightarrow> bool \<Rightarrow> u32 \<Rightarrow> byte list \<Rightarrow> 's \<times> byte list \<Rightarrow>
   ('s \<times> byte list) option" where
  "absorb f more full j data = (\<lambda>(s, buf).
     let len = of_nat (length data) :: u32 in
     if full then
       Option.bind (read_range data 0 (unat (64 - j))) (\<lambda>part.
       Option.bind (copy_into buf (unat j) part) (\<lambda>buf.
       Option.bind (block_loop f data more (64 - j) (f s buf)) (\<lambda>(s, i).
       Option.bind (read_range data (unat i) (unat (len - i))) (\<lambda>rest.
       map_option (Pair s) (copy_into buf 0 rest)))))
     else map_option (Pair s) (copy_into buf (unat j) data))"

lemma block_loop_blocks:
  assumes "\<forall>i. unat i \<le> length data \<longrightarrow> (more i \<longleftrightarrow> unat i + 64 \<le> length data)" and "length data < 2 ^ 32"
    and "unat i \<le> length data"
  shows "\<exists>i'. block_loop f data more i s = Some (blocks f s (drop (unat i) data), i') \<and>
     unat i' = length data - (length data - unat i) mod 64"
  using assms(3)
proof (induction "length data - unat i" arbitrary: i s rule: less_induct)
  case less
  show ?case
  proof (cases "unat i + 64 \<le> length data")
    case True
    have i: "unat (i + 64) = unat i + 64" using True assms(2) by (subst unat_add_small) auto
    have d: "drop (unat i) data = take 64 (drop (unat i) data) @ drop (unat (i + 64)) data"
      using i by (metis append_take_drop_id drop_drop add.commute)
    obtain i' where "block_loop f data more (i + 64) (f s (take 64 (drop (unat i) data))) =
        Some (blocks f (f s (take 64 (drop (unat i) data))) (drop (unat (i + 64)) data), i')"
      "unat i' = length data - (length data - unat (i + 64)) mod 64"
      using less.hyps [of "i + 64"] i True by fastforce
    moreover have "(length data - unat (i + 64)) mod 64 = (length data - unat i) mod 64"
      using True i by (simp add: le_mod_geq [of 64 "length data - unat i"] diff_diff_eq)
    moreover have "blocks f s (drop (unat i) data) = blocks f (f s (take 64 (drop (unat i) data))) (drop (unat (i + 64)) data)"
    proof -
      have "\<not> length (drop (unat i) data) < 64" using True by simp
      then show ?thesis using i by (simp add: blocks.simps [of f s "drop (unat i) data"] add.commute)
    qed
    ultimately show ?thesis
      using True less.prems assms(1) by (subst block_loop.simps) (simp add: read_range_def)
  next
    case False
    then show ?thesis using less.prems assms(1) by (subst block_loop.simps) auto
  qed
qed

lemma absorb_blocks:
  assumes buf: "length buf = 64" "take (unat j) buf = t" "unat j = length t" "length t < 64"
    and more: "\<forall>i. unat i \<le> length data \<longrightarrow> (more i \<longleftrightarrow> unat i + 64 \<le> length data)" and len: "length data < 2 ^ 32"
    and full: "full \<longleftrightarrow> 64 \<le> length t + length data"
  shows "\<exists>buf'. absorb f more full j data (s, buf) = Some (blocks f s (t @ data), buf') \<and> length buf' = 64 \<and>
     take (length (tail (t @ data))) buf' = tail (t @ data)"
proof (cases full)
  case False
  then have "length (t @ data) < 64" using full by simp
  then show ?thesis
    using False buf full by (auto simp: absorb_def copy_into_def tail_short)
next
  case True
  let ?n = "64 - length t"
  have n: "unat (64 - j) = ?n" using buf by (subst unat_sub) (simp_all add: word_le_nat_alt)
  have le: "?n \<le> length data" using True full by simp
  have b: "copy_into buf (unat j) (take ?n data) = Some (t @ take ?n data)"
    using buf le by (simp add: copy_into_def)
  obtain i where i: "block_loop f data more (64 - j) (f s (t @ take ?n data)) =
      Some (blocks f (f s (t @ take ?n data)) (drop ?n data), i)" "unat i = length data - (length data - ?n) mod 64"
    using block_loop_blocks [OF more len, of "64 - j" f "f s (t @ take ?n data)"] n le by auto
  have ui: "unat (of_nat (length data) - i) = length data - unat i"
    using i(2) len by (subst unat_sub) (auto simp: word_le_nat_alt unat_of_nat take_bit_nat_eq_self)
  have bl: "blocks f s (t @ data) = blocks f (f s (t @ take ?n data)) (drop ?n data)"
  proof -
    have "\<not> length (t @ data) < 64" using True full by simp
    then show ?thesis using buf(4) le by (simp add: blocks.simps [of f s "t @ data"])
  qed
  have tl: "tail (t @ data) = drop (unat i) data"
  proof -
    have "tail (t @ data) = tail ((t @ take ?n data) @ drop ?n data)" by simp
    also have "\<dots> = tail (drop ?n data)"
    proof -
      have "length (t @ take ?n data) = 64" using buf(4) le by simp
      then have "tail (t @ take ?n data) = []" by (simp add: tail_def)
      then show ?thesis using tail_tail [of "t @ take ?n data" "drop ?n data"] by simp
    qed
    also have "\<dots> = drop (unat i) data"
    proof -
      have "r \<le> d - n \<Longrightarrow> n \<le> d \<Longrightarrow> u = d - r \<Longrightarrow> d - n - r + n = u" for r d n u :: nat by simp
      from this [OF mod_less_eq_dividend le i(2)] show ?thesis by (simp only: tail_def drop_drop length_drop)
    qed
    finally show ?thesis .
  qed
  have short: "length data - unat i < 64"
  proof -
    have "(length data - ?n) mod 64 < 64" by simp
    then show ?thesis using i(2) by linarith
  qed
  have "unat i \<le> length data" using i(2) by simp
  then show ?thesis
    using True buf n le b i(1) ui bl tl short
    by (auto simp: absorb_def read_range_def Let_def copy_into_def)
qed

subsection \<open>A context that holds a message\<close>

text \<open>A buffer of 64 bytes with arbitrary contents, as an uninitialised context has it.\<close>

definition buffer64 :: "byte list \<Rightarrow> byte list" where
  "buffer64 junk = take 64 (junk @ replicate 64 0)"

lemma length_buffer64 [simp]: "length (buffer64 junk) = 64"
  by (simp add: buffer64_def)

lemma buffer64_id: "length junk = 64 \<Longrightarrow> buffer64 junk = junk"
  by (simp add: buffer64_def)

definition holds_message ::
  "('s \<Rightarrow> byte list \<Rightarrow> 's) \<Rightarrow> 's \<Rightarrow> 's \<Rightarrow> u32 \<Rightarrow> u32 \<Rightarrow> byte list \<Rightarrow> byte list \<Rightarrow> bool" where
  "holds_message f s0 s hi lo buf m \<longleftrightarrow> s = blocks f s0 m \<and> length buf = 64 \<and>
     take (length m mod 64) buf = tail m \<and> join_count hi lo = of_nat (8 * length m)"

lemma holds_empty: "length junk = 64 \<Longrightarrow> holds_message f s0 s0 0 0 junk []"
  by (simp add: holds_message_def join_count_def tail_def)

lemma holds_index:
  assumes "holds_message f s0 s hi lo buf m"
  shows "unat (drop_bit 3 lo AND 0x3F) = length m mod 64"
  using assms unfolding holds_message_def by (elim conjE) (rule count_index)

lemma word_below_limit:
  assumes "length (xs :: byte list) < 2 ^ 32 - 64"
  shows "unat (of_nat (length xs) :: u32) = length xs" and "length xs < 2 ^ 32"
  using assms by (simp_all add: unat_of_nat take_bit_nat_eq_self)

lemma absorb_message:
  assumes h: "holds_message f s0 s hi lo buf m" and len: "length xs < 2 ^ 32 - 64"
    and full: "full \<longleftrightarrow> 64 \<le> length m mod 64 + length xs"
    and more: "\<forall>i. unat i \<le> length xs \<longrightarrow> (more i \<longleftrightarrow> unat i + 64 \<le> length xs)"
  shows "\<exists>buf'. absorb f more full (drop_bit 3 lo AND 0x3F) xs (s, buf) = Some (blocks f s0 (m @ xs), buf') \<and>
     holds_message f s0 (blocks f s0 (m @ xs))
       ((if lo + push_bit 3 (of_nat (length xs)) < lo then hi + 1 else hi) + drop_bit 29 (of_nat (length xs)))
       (lo + push_bit 3 (of_nat (length xs))) buf' (m @ xs)"
proof -
  let ?j = "drop_bit 3 lo AND 0x3F"
  have j: "unat ?j = length (tail m)" "length (tail m) < 64" using holds_index [OF h] by (simp_all add: length_tail)
  have b: "length buf = 64" "take (unat ?j) buf = tail m" using h j by (simp_all add: holds_message_def length_tail)
  have full': "full \<longleftrightarrow> 64 \<le> length (tail m) + length xs" using full by (simp add: length_tail)
  have s: "s = blocks f s0 m" using h by (simp add: holds_message_def)
  obtain buf' where a: "absorb f more full ?j xs (s, buf) = Some (blocks f s (tail m @ xs), buf')"
    "length buf' = 64" "take (length (tail (tail m @ xs))) buf' = tail (tail m @ xs)"
    using absorb_blocks [OF b j more word_below_limit(2) [OF len] full', of f s] by (elim exE conjE) (rule that)
  have st: "blocks f s (tail m @ xs) = blocks f s0 (m @ xs)" using blocks_tail [of f s0 m xs] s by simp
  have tl: "take (length (m @ xs) mod 64) buf' = tail (m @ xs)"
    using a(3) tail_tail [of m xs] length_tail [of "m @ xs"] by simp
  have "join_count hi lo = of_nat (8 * length m)" using h by (simp add: holds_message_def)
  then have "join_count hi lo + of_nat (8 * length xs) = of_nat (8 * length (m @ xs))"
    by (simp only: of_nat_add [symmetric] length_append distrib_left)
  then show ?thesis
    using a(1,2) tl count_carry [OF word_below_limit(2) [OF len], of lo hi]
    unfolding st holds_message_def by (intro exI [of _ buf'] conjI) simp_all
qed

text \<open>Either operand detects the carry of a sum.\<close>

lemma carry_either: "lo + w < w \<longleftrightarrow> lo + w < (lo :: u32)"
proof -
  have "unat lo < 2 ^ 32" "unat w < 2 ^ 32"
    using unsigned_less [of lo, where 'a = nat] unsigned_less [of w, where 'a = nat] by simp_all
  then show ?thesis by (auto simp: word_less_nat_alt unat_plus_if')
qed

text \<open>The number of zero bytes both algorithms pad with.\<close>

definition pad_zeros :: "nat \<Rightarrow> nat" where
  "pad_zeros n = (119 - n mod 64) mod 64"

lemma pad_zeros_eq: "pad_zeros n = (if n mod 64 < 56 then 55 - n mod 64 else 119 - n mod 64)"
proof -
  have "(119 - r) mod 64 = (if r < 56 then 55 - r else 119 - r)" if "r < 64" for r :: nat
  proof (cases "r < 56")
    case True
    then have "119 - r = 55 - r + 64" by simp
    then have "(119 - r) mod 64 = 55 - r" by (simp only: mod_add_self2) simp
    then show ?thesis using True by simp
  next
    case False
    then show ?thesis using that by simp
  qed
  then show ?thesis by (simp add: pad_zeros_def)
qed

lemma pad_zeros_fills: "(n + (1 + pad_zeros n)) mod 64 = 56"
proof -
  have "n mod 64 + (1 + pad_zeros n) = (if n mod 64 < 56 then 56 else 120)"
    using mod_less_divisor [of 64 n] unfolding pad_zeros_eq by auto
  then have "(n mod 64 + (1 + pad_zeros n)) mod 64 = 56" by simp
  then show ?thesis by (simp only: mod_add_left_eq)
qed

end
