(* ===== verification/SHA1.thy ===== *)
theory SHA1 imports Digest begin

text \<open>
  \<^verbatim>\<open>util/sha1.c\<close>: the context with its 64-byte buffer and two-word bit counter, the transform with
  its circular message schedule, update, padding and the convenience functions. The theory shows
  that the transform is the compression function of FIPS 180-1 and that any sequence of updates
  followed by \<open>HV_SHA1Final\<close> yields the digest of the concatenation.
\<close>

record HV_SHA1_CTX =
  sha1_state :: "u32 list"
  sha1_count0 :: u32
  sha1_count1 :: u32
  sha1_buffer :: "byte list"

subsection \<open>The transform\<close>

definition rol :: "u32 \<Rightarrow> nat \<Rightarrow> u32" where
  "rol value bits = push_bit bits value OR drop_bit (32 - bits) value"

text \<open>The union \<open>CHAR64LONG16\<close> read as words on a little-endian machine.\<close>

definition le_word :: "byte list \<Rightarrow> nat \<Rightarrow> u32" where
  "le_word b i = (ucast (b ! (4 * i)) OR push_bit 8 (ucast (b ! (4 * i + 1)))) OR
     (push_bit 16 (ucast (b ! (4 * i + 2))) OR push_bit 24 (ucast (b ! (4 * i + 3))))"

definition block_words :: "byte list \<Rightarrow> u32 list" where
  "block_words buffer = map (le_word buffer) [0..<16]"

text \<open>\<open>blk0(i)\<close> and \<open>blk(i)\<close>: the value and the block after the assignment in it.\<close>

definition blk0 :: "nat \<Rightarrow> u32 list \<Rightarrow> u32 \<times> u32 list" where
  "blk0 i l = (let v = (rol (l ! i) 24 AND 0xFF00FF00) OR (rol (l ! i) 8 AND 0x00FF00FF) in (v, l[i := v]))"

definition blk :: "nat \<Rightarrow> u32 list \<Rightarrow> u32 \<times> u32 list" where
  "blk i l = (let v = rol (((l ! ((i + 13) mod 16) XOR l ! ((i + 8) mod 16)) XOR l ! ((i + 2) mod 16)) XOR l ! (i mod 16)) 1
     in (v, l[i mod 16 := v]))"

text \<open>
  The working variables in the order of the macro arguments \<open>v, w, x, y, z\<close>. A macro changes \<open>z\<close>
  and \<open>w\<close>, and the next of the unrolled calls names them one place further: its arguments are
  \<open>z, v, w, x, y\<close>. After 80 calls, a multiple of five, the names are back in place.
\<close>

type_synonym sha1_vars = "u32 list \<times> u32 \<times> u32 \<times> u32 \<times> u32 \<times> u32"

definition R0 :: "nat \<Rightarrow> sha1_vars \<Rightarrow> sha1_vars" where
  "R0 i = (\<lambda>(l, v, w, x, y, z). case blk0 i l of (b, l') \<Rightarrow>
     (l', z + (((w AND (x XOR y)) XOR y) + b + 0x5A827999 + rol v 5), v, rol w 30, x, y))"

definition R1 :: "nat \<Rightarrow> sha1_vars \<Rightarrow> sha1_vars" where
  "R1 i = (\<lambda>(l, v, w, x, y, z). case blk i l of (b, l') \<Rightarrow>
     (l', z + (((w AND (x XOR y)) XOR y) + b + 0x5A827999 + rol v 5), v, rol w 30, x, y))"

definition R2 :: "nat \<Rightarrow> sha1_vars \<Rightarrow> sha1_vars" where
  "R2 i = (\<lambda>(l, v, w, x, y, z). case blk i l of (b, l') \<Rightarrow>
     (l', z + (((w XOR x) XOR y) + b + 0x6ED9EBA1 + rol v 5), v, rol w 30, x, y))"

definition R3 :: "nat \<Rightarrow> sha1_vars \<Rightarrow> sha1_vars" where
  "R3 i = (\<lambda>(l, v, w, x, y, z). case blk i l of (b, l') \<Rightarrow>
     (l', z + ((((w OR x) AND y) OR (w AND x)) + b + 0x8F1BBCDC + rol v 5), v, rol w 30, x, y))"

definition R4 :: "nat \<Rightarrow> sha1_vars \<Rightarrow> sha1_vars" where
  "R4 i = (\<lambda>(l, v, w, x, y, z). case blk i l of (b, l') \<Rightarrow>
     (l', z + (((w XOR x) XOR y) + b + 0xCA62C1D6 + rol v 5), v, rol w 30, x, y))"

definition sha1_round :: "nat \<Rightarrow> sha1_vars \<Rightarrow> sha1_vars" where
  "sha1_round i = (if i < 16 then R0 i else if i < 20 then R1 i else if i < 40 then R2 i
     else if i < 60 then R3 i else R4 i)"

definition HV_SHA1Transform :: "u32 list \<Rightarrow> byte list \<Rightarrow> u32 list" where
  "HV_SHA1Transform state buffer =
     (case fold sha1_round [0..<80] (block_words buffer, state ! 0, state ! 1, state ! 2, state ! 3, state ! 4) of
        (l, a, b, c, d, e) \<Rightarrow>
          [state ! 0 + a, state ! 1 + b, state ! 2 + c, state ! 3 + d, state ! 4 + e])"

subsection \<open>Context operations\<close>

definition sha1_init_state :: "u32 list" where
  "sha1_init_state = [0x67452301, 0xEFCDAB89, 0x98BADCFE, 0x10325476, 0xC3D2E1F0]"

text \<open>\<open>junk\<close>: the buffer of the uninitialised context.\<close>

definition HV_SHA1Init :: "byte list \<Rightarrow> HV_SHA1_CTX" where
  "HV_SHA1Init junk = \<lparr>sha1_state = sha1_init_state, sha1_count0 = 0, sha1_count1 = 0, sha1_buffer = junk\<rparr>"

definition HV_SHA1Update :: "HV_SHA1_CTX \<Rightarrow> byte list \<Rightarrow> HV_SHA1_CTX option" where
  "HV_SHA1Update ctx data =
     (let len = of_nat (length data) :: u32; j0 = sha1_count0 ctx;
          count0 = j0 + push_bit 3 len;
          count1 = (if count0 < j0 then sha1_count1 ctx + 1 else sha1_count1 ctx) + drop_bit 29 len;
          j = drop_bit 3 j0 AND 0x3F
      in map_option (\<lambda>(s, buf). \<lparr>sha1_state = s, sha1_count0 = count0, sha1_count1 = count1, sha1_buffer = buf\<rparr>)
        (absorb HV_SHA1Transform (\<lambda>i. i + 63 < len) (j + len > 63) j data (sha1_state ctx, sha1_buffer ctx)))"

definition be_bytes :: "u32 \<Rightarrow> byte list" where
  "be_bytes w = [ucast (drop_bit 24 w AND 0xFF), ucast (drop_bit 16 w AND 0xFF), ucast (drop_bit 8 w AND 0xFF),
     ucast (w AND 0xFF)]"

partial_function (option) sha1_pad :: "HV_SHA1_CTX \<Rightarrow> HV_SHA1_CTX option" where
  "sha1_pad ctx = (if sha1_count0 ctx AND 504 \<noteq> 448 then Option.bind (HV_SHA1Update ctx [0]) sha1_pad else Some ctx)"

declare sha1_pad.simps [code]

text \<open>The digest, and the context wiped by \<open>memset\<close>.\<close>

definition HV_SHA1Final :: "HV_SHA1_CTX \<Rightarrow> (byte list \<times> HV_SHA1_CTX) option" where
  "HV_SHA1Final ctx =
     (let finalcount = be_bytes (sha1_count1 ctx) @ be_bytes (sha1_count0 ctx) in
      Option.bind (HV_SHA1Update ctx [0x80]) (\<lambda>ctx.
      Option.bind (sha1_pad ctx) (\<lambda>ctx.
      Option.bind (HV_SHA1Update ctx finalcount) (\<lambda>ctx.
        Some (concat (map be_bytes (sha1_state ctx)),
          \<lparr>sha1_state = [0, 0, 0, 0, 0], sha1_count0 = 0, sha1_count1 = 0, sha1_buffer = replicate 64 0\<rparr>)))))"

text \<open>\<open>HV_SHA1\<close> hashes byte by byte and terminates its output; \<open>hv_sha1\<close> in one update.\<close>

fun sha1_bytewise :: "HV_SHA1_CTX \<Rightarrow> byte list \<Rightarrow> HV_SHA1_CTX option" where
  "sha1_bytewise ctx [] = Some ctx"
| "sha1_bytewise ctx (b # bs) = Option.bind (HV_SHA1Update ctx [b]) (\<lambda>ctx. sha1_bytewise ctx bs)"

definition HV_SHA1 :: "byte list \<Rightarrow> byte list \<Rightarrow> byte list option" where
  "HV_SHA1 junk str = Option.bind (sha1_bytewise (HV_SHA1Init junk) str) (\<lambda>ctx.
     map_option (\<lambda>(digest, _). digest @ [0]) (HV_SHA1Final ctx))"

definition hv_sha1 :: "byte list \<Rightarrow> byte list \<Rightarrow> byte list option" where
  "hv_sha1 junk input = Option.bind (HV_SHA1Update (HV_SHA1Init junk) input) (\<lambda>ctx.
     map_option fst (HV_SHA1Final ctx))"

definition i2hex :: "byte \<Rightarrow> byte" where
  "i2hex i = (if i < 10 then i + 48 else i - 10 + 97)"

text \<open>The bytes written to \<open>output\<close>.\<close>

definition hv_sha1_hex :: "byte list \<Rightarrow> byte list \<Rightarrow> u32 \<Rightarrow> byte list option" where
  "hv_sha1_hex junk input outputlen =
     (if outputlen < 40 then Some []
      else map_option (\<lambda>digest. concat (map (\<lambda>b. [i2hex (drop_bit 4 b), i2hex (b AND 0xF)]) digest) @
             (if outputlen > 40 then [0] else [])) (hv_sha1 junk input))"

subsection \<open>The compression function of FIPS 180-1\<close>

definition be_word :: "byte list \<Rightarrow> nat \<Rightarrow> u32" where
  "be_word b i = (push_bit 24 (ucast (b ! (4 * i))) OR push_bit 16 (ucast (b ! (4 * i + 1)))) OR
     (push_bit 8 (ucast (b ! (4 * i + 2))) OR ucast (b ! (4 * i + 3)))"

fun fips_W :: "byte list \<Rightarrow> nat \<Rightarrow> u32" where
  "fips_W M t = (if t < 16 then be_word M t
     else rol (((fips_W M (t - 3) XOR fips_W M (t - 8)) XOR fips_W M (t - 14)) XOR fips_W M (t - 16)) 1)"

declare fips_W.simps [simp del]

definition fips_f :: "nat \<Rightarrow> u32 \<Rightarrow> u32 \<Rightarrow> u32 \<Rightarrow> u32" where
  "fips_f t b c d = (if t < 20 then (b AND c) OR (NOT b AND d) else if t < 40 then (b XOR c) XOR d
     else if t < 60 then ((b AND c) OR (b AND d)) OR (c AND d) else (b XOR c) XOR d)"

definition fips_K :: "nat \<Rightarrow> u32" where
  "fips_K t = (if t < 20 then 0x5A827999 else if t < 40 then 0x6ED9EBA1 else if t < 60 then 0x8F1BBCDC
     else 0xCA62C1D6)"

definition fips_step :: "byte list \<Rightarrow> nat \<Rightarrow> u32 \<times> u32 \<times> u32 \<times> u32 \<times> u32 \<Rightarrow> u32 \<times> u32 \<times> u32 \<times> u32 \<times> u32" where
  "fips_step M t = (\<lambda>(a, b, c, d, e). (rol a 5 + fips_f t b c d + e + fips_W M t + fips_K t, a, rol b 30, c, d))"

definition fips_compress :: "u32 list \<Rightarrow> byte list \<Rightarrow> u32 list" where
  "fips_compress H M = (case fold (fips_step M) [0..<80] (H ! 0, H ! 1, H ! 2, H ! 3, H ! 4) of
     (a, b, c, d, e) \<Rightarrow> [H ! 0 + a, H ! 1 + b, H ! 2 + c, H ! 3 + d, H ! 4 + e])"

text \<open>\<open>blk0\<close> swaps the bytes of a little-endian word.\<close>

lemma bit_swap_masks:
  "bit (0xFF00FF00 :: int) n \<longleftrightarrow> 8 \<le> n \<and> n < 16 \<or> 24 \<le> n \<and> n < 32"
  "bit (0x00FF00FF :: int) n \<longleftrightarrow> n < 8 \<or> 16 \<le> n \<and> n < 24"
proof -
  have a: "(0xFF00FF00 :: int) = push_bit 8 0xFF OR push_bit 24 0xFF" and b: "(0x00FF00FF :: int) = 0xFF OR push_bit 16 0xFF"
    by simp_all
  show "bit (0xFF00FF00 :: int) n \<longleftrightarrow> 8 \<le> n \<and> n < 16 \<or> 24 \<le> n \<and> n < 32"
    unfolding a bit_or_iff bit_push_bit_iff bit_lit_mask by auto
  show "bit (0x00FF00FF :: int) n \<longleftrightarrow> n < 8 \<or> 16 \<le> n \<and> n < 24"
    unfolding b bit_or_iff bit_push_bit_iff bit_lit_mask by auto
qed

lemma byte_no_bit: "8 \<le> n \<Longrightarrow> \<not> bit (w :: byte) n"
  using bit_imp_le_length [of w n] by auto

lemma blk0_swaps: "(rol (le_word b i) 24 AND 0xFF00FF00) OR (rol (le_word b i) 8 AND 0x00FF00FF) = be_word b i"
proof (rule bit_word_eqI)
  fix n
  assume "n < LENGTH(32)"
  then consider "n < 8" | "8 \<le> n" "n < 16" | "16 \<le> n" "n < 24" | "24 \<le> n" "n < 32" by fastforce
  then show "bit ((rol (le_word b i) 24 AND 0xFF00FF00) OR (rol (le_word b i) 8 AND 0x00FF00FF)) n = bit (be_word b i) n"
    by cases (simp_all add: rol_def le_word_def be_word_def bit_simps bit_swap_masks byte_no_bit)
qed

text \<open>The circular block holds the last sixteen words of the schedule.\<close>

definition schedule :: "byte list \<Rightarrow> nat \<Rightarrow> u32 list \<Rightarrow> bool" where
  "schedule M t l \<longleftrightarrow> length l = 16 \<and> (\<forall>s < t. t \<le> s + 16 \<longrightarrow> l ! (s mod 16) = fips_W M s) \<and>
     (\<forall>s. t \<le> s \<and> s < 16 \<longrightarrow> l ! s = le_word M s)"

lemma schedule_start: "schedule M 0 (block_words M)"
  by (simp add: schedule_def block_words_def)

lemma schedule_update:
  assumes "schedule M t l"
  shows "schedule M (Suc t) (l[t mod 16 := fips_W M t])"
proof -
  have "(l[t mod 16 := fips_W M t]) ! (s mod 16) = fips_W M s" if "s < Suc t" "Suc t \<le> s + 16" for s
  proof (cases "s = t")
    case True
    then show ?thesis using assms by (simp add: schedule_def)
  next
    case False
    have "s mod 16 \<noteq> t mod 16"
    proof
      assume "s mod 16 = t mod 16"
      then have "16 dvd t - s" using that mod_eq_dvd_iff_nat [of s t 16] by simp
      then show False using False that by (auto dest!: dvd_imp_le)
    qed
    then show ?thesis using assms(1) that False by (simp add: schedule_def)
  qed
  then show ?thesis using assms(1) by (auto simp: schedule_def)
qed

lemma blk0_schedule:
  assumes "schedule M t l" and "t < 16"
  shows "blk0 t l = (fips_W M t, l[t mod 16 := fips_W M t])"
  using assms blk0_swaps [of M t] by (simp add: blk0_def schedule_def Let_def fips_W.simps [of M t])

lemma blk_schedule:
  assumes "schedule M t l" and "16 \<le> t"
  shows "blk t l = (fips_W M t, l[t mod 16 := fips_W M t])"
proof -
  have m: "(t + 13) mod 16 = (t - 3) mod 16" "(t + 8) mod 16 = (t - 8) mod 16" "(t + 2) mod 16 = (t - 14) mod 16"
    "t mod 16 = (t - 16) mod 16"
  proof -
    obtain u where "t = u + 16" using assms(2) by (metis add.commute le_Suc_ex)
    then show "(t + 13) mod 16 = (t - 3) mod 16" "(t + 8) mod 16 = (t - 8) mod 16"
      "(t + 2) mod 16 = (t - 14) mod 16" "t mod 16 = (t - 16) mod 16"
      using mod_add_self2 [of "u + 13" 16] mod_add_self2 [of "u + 8" 16] mod_add_self2 [of "u + 2" 16]
      by (simp_all add: add.commute)
  qed
  have "l ! ((t - 3) mod 16) = fips_W M (t - 3)" "l ! ((t - 8) mod 16) = fips_W M (t - 8)"
    "l ! ((t - 14) mod 16) = fips_W M (t - 14)" "l ! ((t - 16) mod 16) = fips_W M (t - 16)"
    using assms by (simp_all add: schedule_def)
  then show ?thesis using assms(2) unfolding blk_def m by (simp add: Let_def fips_W.simps [of M t])
qed

lemma choose_eq: "(w AND (x XOR y)) XOR y = (w AND x) OR (NOT w AND y)" for w x y :: u32
  by (rule bit_word_eqI) (auto simp: bit_simps)

lemma majority_eq: "((w OR x) AND y) OR (w AND x) = ((w AND x) OR (w AND y)) OR (x AND y)" for w x y :: u32
  by (rule bit_word_eqI) (auto simp: bit_simps)

lemma round_step:
  assumes "schedule M t l" and "t < 80"
  shows "\<exists>l'. sha1_round t (l, vs) = (l', fips_step M t vs) \<and> schedule M (Suc t) l'"
proof -
  obtain v w x y z where vs: "vs = (v, w, x, y, z)" by (cases vs)
  have b: "blk0 t l = (fips_W M t, l[t mod 16 := fips_W M t])" if "t < 16" using blk0_schedule assms that by simp
  have b': "blk t l = (fips_W M t, l[t mod 16 := fips_W M t])" if "\<not> t < 16" using blk_schedule assms that by simp
  have "sha1_round t (l, vs) = (l[t mod 16 := fips_W M t], fips_step M t vs)"
    using assms(2) b b' choose_eq [of w x y] majority_eq [of w x y]
    by (simp add: sha1_round_def R0_def R1_def R2_def R3_def R4_def vs fips_step_def fips_f_def fips_K_def ac_simps)
  then show ?thesis using schedule_update [OF assms(1)] by simp
qed

lemma rounds_fips:
  assumes "n \<le> 80"
  shows "\<exists>l. fold sha1_round [0..<n] (block_words M, vs) = (l, fold (fips_step M) [0..<n] vs) \<and> schedule M n l"
  using assms
proof (induction n)
  case 0
  then show ?case using schedule_start by simp
next
  case (Suc n)
  then obtain l where "fold sha1_round [0..<n] (block_words M, vs) = (l, fold (fips_step M) [0..<n] vs)" "schedule M n l"
    by auto
  then show ?case using round_step [of M n l "fold (fips_step M) [0..<n] vs"] Suc.prems by auto
qed

lemma transform_fips: "HV_SHA1Transform H M = fips_compress H M"
  using rounds_fips [of 80 M "(H ! 0, H ! 1, H ! 2, H ! 3, H ! 4)"]
  by (auto simp: HV_SHA1Transform_def fips_compress_def split: prod.split)

subsection \<open>Streaming\<close>

definition be64 :: "u64 \<Rightarrow> byte list" where
  "be64 w = be_bytes (ucast (drop_bit 32 w)) @ be_bytes (ucast w)"

definition sha1_padded :: "byte list \<Rightarrow> byte list" where
  "sha1_padded m = m @ [0x80] @ replicate (pad_zeros (length m)) 0 @ be64 (of_nat (8 * length m))"

definition sha1_digest :: "byte list \<Rightarrow> byte list" where
  "sha1_digest m = concat (map be_bytes (blocks fips_compress sha1_init_state (sha1_padded m)))"

definition sha1_absorbed :: "HV_SHA1_CTX \<Rightarrow> byte list \<Rightarrow> bool" where
  "sha1_absorbed ctx m \<longleftrightarrow> holds_message HV_SHA1Transform sha1_init_state (sha1_state ctx)
     (sha1_count1 ctx) (sha1_count0 ctx) (sha1_buffer ctx) m"

lemma sha1_update_absorbed:
  assumes "sha1_absorbed ctx m" and len: "length xs < 2 ^ 32 - 64"
  shows "\<exists>ctx'. HV_SHA1Update ctx xs = Some ctx' \<and> sha1_absorbed ctx' (m @ xs)"
proof -
  define j where "j = drop_bit 3 (sha1_count0 ctx) AND 0x3F"
  note h = assms(1) [unfolded sha1_absorbed_def]
  have j: "unat j = length m mod 64" using holds_index [OF h] by (simp add: j_def)
  have full: "j + of_nat (length xs) > 63 \<longleftrightarrow> 64 \<le> length m mod 64 + length xs"
  proof -
    have "length m mod 64 < 64" by simp
    then have "unat (j + of_nat (length xs)) = length m mod 64 + length xs"
      using j len word_below_limit(1) [OF len] by (subst unat_add_small) auto
    then show ?thesis by (auto simp: word_less_nat_alt)
  qed
  have more: "\<forall>i. unat i \<le> length xs \<longrightarrow> (i + 63 < (of_nat (length xs) :: u32) \<longleftrightarrow> unat i + 64 \<le> length xs)"
  proof (intro allI impI)
    fix i :: u32
    assume "unat i \<le> length xs"
    then have "unat (i + 63) = unat i + 63" using len by (subst unat_add_small) auto
    then show "i + 63 < (of_nat (length xs) :: u32) \<longleftrightarrow> unat i + 64 \<le> length xs"
      using word_below_limit(1) [OF len] by (auto simp: word_less_nat_alt)
  qed
  from absorb_message [OF h len full more] show ?thesis
    unfolding HV_SHA1Update_def Let_def sha1_absorbed_def j_def by (elim exE conjE) simp
qed

text \<open>The padding loop runs to the last eight bytes of a block.\<close>

lemma sha1_pad_test:
  assumes "sha1_absorbed ctx m"
  shows "sha1_count0 ctx AND 504 = 448 \<longleftrightarrow> length m mod 64 = 56"
proof -
  let ?j = "drop_bit 3 (sha1_count0 ctx) AND 0x3F"
  have e: "(504 :: int) = push_bit 3 0x3F" by simp
  have "sha1_count0 ctx AND 504 = push_bit 3 ?j"
  proof (rule bit_word_eqI)
    fix n :: nat
    have "bit (504 :: int) n \<longleftrightarrow> 3 \<le> n \<and> n < 9" unfolding e bit_push_bit_iff bit_lit_mask by auto
    then show "bit (sha1_count0 ctx AND 504) n = bit (push_bit 3 ?j) n" if "n < LENGTH(32)"
      using that by (auto simp: bit_simps bit_lits)
  qed
  moreover have j: "unat ?j = length m mod 64"
    using assms holds_index by (simp add: sha1_absorbed_def)
  moreover have "unat (push_bit 3 ?j) = unat ?j * 8"
    using unat_push_bit [of ?j 3] j by simp
  ultimately have "unat (sha1_count0 ctx AND 504) = length m mod 64 * 8" by simp
  then show ?thesis by (auto simp: word_unat_eq_iff)
qed

lemma sha1_pad_zeros:
  assumes "sha1_absorbed ctx m" and "(length m + k) mod 64 = 56" and "k < 64"
  shows "\<exists>ctx'. sha1_pad ctx = Some ctx' \<and> sha1_absorbed ctx' (m @ replicate k 0)"
  using assms
proof (induction k arbitrary: ctx m)
  case 0
  then show ?case using sha1_pad_test [OF 0(1)] by (subst sha1_pad.simps) simp
next
  case (Suc k)
  have "length m mod 64 \<noteq> 56"
  proof
    assume "length m mod 64 = 56"
    then have "(length m + Suc k) mod 64 = length m mod 64" using Suc.prems(2) by simp
    then have "64 dvd Suc k" using mod_eq_dvd_iff_nat [of "length m" "length m + Suc k" 64] by simp
    then show False using Suc.prems(3) by (auto dest: dvd_imp_le)
  qed
  then have more: "sha1_count0 ctx AND 504 \<noteq> 448" using sha1_pad_test [OF Suc.prems(1)] by simp
  obtain ctx1 where ctx1: "HV_SHA1Update ctx [0] = Some ctx1" "sha1_absorbed ctx1 (m @ [0])"
    using sha1_update_absorbed [OF Suc.prems(1), of "[0]"] by auto
  obtain ctx' where "sha1_pad ctx1 = Some ctx'" "sha1_absorbed ctx' ((m @ [0]) @ replicate k 0)"
    using Suc.IH [OF ctx1(2)] Suc.prems(2,3) by auto
  then show ?case using ctx1(1) more by (subst sha1_pad.simps) simp
qed

lemma join_count_bytes: "be64 (join_count hi lo) = be_bytes hi @ be_bytes lo"
  by (simp add: be64_def join_count_parts)

lemma blocks_transform_fips: "blocks HV_SHA1Transform s m = blocks fips_compress s m"
proof -
  have "HV_SHA1Transform = fips_compress" by (intro ext) (rule transform_fips)
  then show ?thesis by simp
qed

lemma sha1_final_digest:
  assumes "sha1_absorbed ctx m"
  shows "map_option fst (HV_SHA1Final ctx) = Some (sha1_digest m)"
proof -
  let ?k = "pad_zeros (length m)"
  obtain ctx1 where 1: "HV_SHA1Update ctx [0x80] = Some ctx1" "sha1_absorbed ctx1 (m @ [0x80])"
    using sha1_update_absorbed [OF assms, of "[0x80]"] by auto
  have k: "(length (m @ [0x80 :: byte]) + ?k) mod 64 = 56" "?k < 64"
    using pad_zeros_fills [of "length m"] by (simp_all add: pad_zeros_def)
  obtain ctx2 where 2: "sha1_pad ctx1 = Some ctx2" "sha1_absorbed ctx2 ((m @ [0x80]) @ replicate ?k 0)"
    using sha1_pad_zeros [OF 1(2) k] by auto
  have count: "be_bytes (sha1_count1 ctx) @ be_bytes (sha1_count0 ctx) = be64 (of_nat (8 * length m))"
    using assms join_count_bytes [of "sha1_count1 ctx" "sha1_count0 ctx"]
    by (simp add: sha1_absorbed_def holds_message_def)
  obtain ctx3 where 3: "HV_SHA1Update ctx2 (be64 (of_nat (8 * length m))) = Some ctx3"
    "sha1_absorbed ctx3 (((m @ [0x80]) @ replicate ?k 0) @ be64 (of_nat (8 * length m)))"
    using sha1_update_absorbed [OF 2(2), of "be64 (of_nat (8 * length m))"] by (auto simp: be64_def be_bytes_def)
  have "sha1_state ctx3 = blocks fips_compress sha1_init_state (sha1_padded m)"
    using 3(2) by (simp add: sha1_absorbed_def holds_message_def sha1_padded_def blocks_transform_fips)
  then show ?thesis
    using 1(1) 2(1) 3(1) unfolding HV_SHA1Final_def Let_def count by (simp add: sha1_digest_def)
qed

interpretation sha1: streaming_digest sha1_absorbed "HV_SHA1Init (buffer64 junk)" HV_SHA1Update
  "\<lambda>ctx. map_option fst (HV_SHA1Final ctx)" sha1_digest "2 ^ 32 - 64"
proof
  show "sha1_absorbed (HV_SHA1Init (buffer64 junk)) []"
    using holds_empty [of "buffer64 junk"] by (simp add: sha1_absorbed_def HV_SHA1Init_def)
qed (use sha1_update_absorbed sha1_final_digest in auto)


subsection \<open>Properties\<close>

text \<open>C11: The unrolled transform with its sixteen-word circular block is the compression function of
  FIPS 180-1, schedule of eighty words, round functions and constants included.\<close>

theorem HV_SHA1Transform_fips: "HV_SHA1Transform state buffer = fips_compress state buffer"
  by (rule transform_fips)

text \<open>C12: Streaming: however a message is cut into updates (each below 2^32 - 64 bytes), the context
  absorbs them without touching memory outside of its buffers, and \<open>HV_SHA1Final\<close> returns the
  SHA-1 digest of the concatenation, padding and 64-bit bit count as FIPS 180-1 has them.\<close>

theorem sha1_streaming:
  assumes "length junk = 64" and "\<forall>xs \<in> set xss. length xs < 2 ^ 32 - 64"
  shows "Option.bind (feed_all HV_SHA1Update (HV_SHA1Init junk) xss) (\<lambda>ctx. map_option fst (HV_SHA1Final ctx)) =
    Some (sha1_digest (concat xss))"
  using sha1.streamed [OF assms(2), of junk] buffer64_id [OF assms(1)] by simp

theorem sha1_streaming_witness:
  "Option.bind (feed_all HV_SHA1Update (HV_SHA1Init (replicate 64 0)) [[97], [], [98, 99]])
     (\<lambda>ctx. map_option fst (HV_SHA1Final ctx)) = Some (sha1_digest [97, 98, 99])"
  using sha1_streaming [of "replicate 64 0" "[[97], [], [98, 99]]"] by simp

lemma sha1_bytewise_updates: "sha1_bytewise ctx bs = feed_all HV_SHA1Update ctx (map (\<lambda>b. [b]) bs)"
  by (induction ctx bs rule: sha1_bytewise.induct) (auto cong: Option.bind_cong)

lemma hv_sha1_digest:
  assumes "length junk = 64" and "length input < 2 ^ 32 - 64"
  shows "hv_sha1 junk input = Some (sha1_digest input)"
  using sha1.one_shot [OF assms(2), of junk] buffer64_id [OF assms(1)] by (simp add: hv_sha1_def)

text \<open>\<open>HV_SHA1\<close>, which feeds its input byte by byte, and \<open>hv_sha1\<close>, which feeds it at once, give the
  same digest (the former with a terminating zero byte).\<close>

theorem HV_SHA1_bytewise:
  assumes "length junk = 64" and "length str < 2 ^ 32 - 64"
  shows "HV_SHA1 junk str = map_option (\<lambda>d. d @ [0]) (hv_sha1 junk str)"
proof -
  have "Option.bind (feed_all HV_SHA1Update (HV_SHA1Init junk) (map (\<lambda>b. [b]) str))
      (\<lambda>ctx. map_option fst (HV_SHA1Final ctx)) = Some (sha1_digest (concat (map (\<lambda>b. [b]) str)))"
    using sha1.streamed [of "map (\<lambda>b. [b]) str" junk] buffer64_id [OF assms(1)] by simp
  moreover have "concat (map (\<lambda>b. [b]) str) = str" by (induction str) simp_all
  ultimately show ?thesis
    unfolding HV_SHA1_def sha1_bytewise_updates hv_sha1_digest [OF assms]
    by (auto simp: bind_eq_Some_conv split: Option.bind_splits)
qed

theorem HV_SHA1_bytewise_witness:
  "HV_SHA1 (replicate 64 7) [97, 98] = map_option (\<lambda>d. d @ [0]) (hv_sha1 (replicate 64 7) [97, 98])"
  by (rule HV_SHA1_bytewise) simp_all

end
