(* ===== verification/Base64.thy ===== *)
theory Base64 imports Prelude begin

text \<open>
  \<^verbatim>\<open>util/base64.c\<close>, which the handshake uses for \<open>Sec-WebSocket-Key\<close> and
  \<open>Sec-WebSocket-Accept\<close>. The encoder and the decoder work by index as the C loops do; the theory
  shows that the encoder is the group-wise encoding of RFC 4648 and that the decoder inverts it in
  a buffer of exactly the decoded size, and it shows what goes wrong on unpadded input.
\<close>

subsection \<open>Tables\<close>

definition base64en :: "byte list" where
  "base64en = [65, 66, 67, 68, 69, 70, 71, 72, 73, 74, 75, 76, 77, 78, 79, 80, 81, 82, 83, 84, 85, 86, 87, 88,
     89, 90, 97, 98, 99, 100, 101, 102, 103, 104, 105, 106, 107, 108, 109, 110, 111, 112, 113, 114, 115, 116,
     117, 118, 119, 120, 121, 122, 48, 49, 50, 51, 52, 53, 54, 55, 56, 57, 43, 47]"

definition BASE64_PAD :: byte where "BASE64_PAD = 61"
definition BASE64DE_FIRST :: byte where "BASE64DE_FIRST = 43"
definition BASE64DE_LAST :: byte where "BASE64DE_LAST = 122"

definition base64de :: "int list" where
  "base64de =
     [62, -1, -1, -1, 63, 52, 53, 54,
      55, 56, 57, 58, 59, 60, 61, -1,
      -1, -1, -1, -1, -1, -1, 0, 1,
      2, 3, 4, 5, 6, 7, 8, 9,
      10, 11, 12, 13, 14, 15, 16, 17,
      18, 19, 20, 21, 22, 23, 24, 25,
      -1, -1, -1, -1, -1, -1, 26, 27,
      28, 29, 30, 31, 32, 33, 34, 35,
      36, 37, 38, 39, 40, 41, 42, 43,
      44, 45, 46, 47, 48, 49, 50, 51]"

subsection \<open>The encoder\<close>

text \<open>\<open>out[j++] = ...\<close> appends. One pass of the loop over \<open>i\<close>.\<close>

definition base64_at :: "byte \<Rightarrow> byte" where
  "base64_at k = base64en ! unat k"

definition encode_step :: "byte list \<Rightarrow> nat \<Rightarrow> byte list \<Rightarrow> byte list" where
  "encode_step inb i out =
     (if i mod 3 = 0 then out @ [base64_at (drop_bit 2 (inb ! i) AND 0x3F)]
      else if i mod 3 = 1 then
        out @ [base64_at (push_bit 4 (inb ! (i - 1) AND 0x3) + (drop_bit 4 (inb ! i) AND 0xF))]
      else
        out @ [base64_at (push_bit 2 (inb ! (i - 1) AND 0xF) + (drop_bit 6 (inb ! i) AND 0x3)),
               base64_at (inb ! i AND 0x3F)])"

text \<open>
  After the loop \<open>i -= 1\<close>; for an empty input \<open>i\<close> is then \<open>0xFFFFFFFF\<close>, a multiple of 3, and
  \<open>in[i]\<close> lies outside of the buffer: \<open>None\<close>.
\<close>

definition hv_base64_encode :: "byte list \<Rightarrow> byte list option" where
  "hv_base64_encode inb =
     (let out = fold (encode_step inb) [0..<length inb] [];
          i = unat ((of_nat (length inb) :: u32) - 1)
      in if i mod 3 = 0 then
           (if i < length inb then Some (out @ [base64_at (push_bit 4 (inb ! i AND 0x3)), BASE64_PAD, BASE64_PAD])
            else None)
         else if i mod 3 = 1 then
           (if i < length inb then Some (out @ [base64_at (push_bit 2 (inb ! i AND 0xF)), BASE64_PAD])
            else None)
         else Some out)"

subsection \<open>The decoder\<close>

text \<open>
  \<open>out\<close> is the caller's buffer and \<open>j\<close> the write position; \<open>None\<close> is an access outside of
  \<open>in\<close> or \<open>out\<close>. \<open>char\<close> is signed: bytes from \<open>0x80\<close> are below \<open>BASE64DE_FIRST\<close>. The inner
  \<open>None\<close> of \<open>decode_char\<close> is a character outside of the alphabet.
\<close>

definition decode_char :: "byte \<Rightarrow> u32 option" where
  "decode_char c =
     (if sint c < sint BASE64DE_FIRST \<or> sint c > sint BASE64DE_LAST then None
      else let d = base64de ! nat (sint c - sint BASE64DE_FIRST) in
           if d = -1 then None else Some (word_of_int d))"

definition put :: "nat \<Rightarrow> byte \<Rightarrow> byte list \<Rightarrow> byte list option" where
  "put j v out = (if j < length out then Some (out[j := v]) else None)"

definition put_add :: "nat \<Rightarrow> byte \<Rightarrow> byte list \<Rightarrow> byte list option" where
  "put_add j v out = (if j < length out then Some (out[j := out ! j + v]) else None)"

definition decode_step :: "byte list \<Rightarrow> nat \<Rightarrow> u32 \<Rightarrow> nat \<times> byte list \<Rightarrow> (nat \<times> byte list) option" where
  "decode_step inb i c = (\<lambda>(j, out).
     let inlen = of_nat (length inb) :: u32 in
     if i mod 4 = 0 then
       map_option (Pair j) (put j (ucast (push_bit 2 c AND 0xFF)) out)
     else if i mod 4 = 1 then
       Option.bind (put_add j (ucast (drop_bit 4 c AND 0x3)) out) (\<lambda>out.
         if of_nat i < inlen - 3 \<or> inb ! unat (inlen - 2) \<noteq> BASE64_PAD then
           map_option (Pair (j + 1)) (put (j + 1) (ucast (push_bit 4 (c AND 0xF))) out)
         else Some (j + 1, out))
     else if i mod 4 = 2 then
       Option.bind (put_add j (ucast (drop_bit 2 c AND 0xF)) out) (\<lambda>out.
         if of_nat i < inlen - 2 \<or> inb ! unat (inlen - 1) \<noteq> BASE64_PAD then
           map_option (Pair (j + 1)) (put (j + 1) (ucast (push_bit 6 (c AND 0x3))) out)
         else Some (j + 1, out))
     else map_option (Pair (j + 1)) (put_add j (ucast c) out))"

function decode_loop :: "byte list \<Rightarrow> nat \<Rightarrow> nat \<times> byte list \<Rightarrow> (int \<times> byte list) option" where
  "decode_loop inb i st =
     (if length inb \<le> i then Some (int (fst st), snd st)
      else if inb ! i = BASE64_PAD then Some (int (fst st), snd st)
      else case decode_char (inb ! i) of
             None \<Rightarrow> Some (-1, snd st)
           | Some c \<Rightarrow> (case decode_step inb i c st of None \<Rightarrow> None | Some st' \<Rightarrow> decode_loop inb (i + 1) st'))"
  by pat_completeness auto
termination by (relation "measure (\<lambda>(inb, i, st). length inb - i)") auto

declare decode_loop.simps [simp del]

definition hv_base64_decode :: "byte list \<Rightarrow> byte list \<Rightarrow> (int \<times> byte list) option" where
  "hv_base64_decode inb out = decode_loop inb 0 (0, out)"

text \<open>The C++ wrappers: the buffer sizes and the calls.\<close>

definition BASE64_ENCODE_OUT_SIZE :: "nat \<Rightarrow> nat" where
  "BASE64_ENCODE_OUT_SIZE s = (s + 2) div 3 * 4"

definition BASE64_DECODE_OUT_SIZE :: "nat \<Rightarrow> nat" where
  "BASE64_DECODE_OUT_SIZE s = s div 4 * 3"

text \<open>
  \<open>Base64Decode\<close> resizes its string to the decoder's result, and \<open>resize(-1)\<close> throws
  \<open>std::length_error\<close>: the inner \<open>None\<close>. The outer one is an access outside of the buffer.
\<close>

definition Base64Encode :: "byte list \<Rightarrow> byte list option" where
  "Base64Encode data =
     (let size = BASE64_ENCODE_OUT_SIZE (length data) + 1 in
      Option.bind (hv_base64_encode data) (\<lambda>out. if length out \<le> size then Some out else None))"

definition Base64Decode :: "byte list \<Rightarrow> byte list option option" where
  "Base64Decode str = map_option (\<lambda>(n, out). if n < 0 then None else Some (take (nat n) out))
     (hv_base64_decode str (replicate (BASE64_DECODE_OUT_SIZE (length str) + 1) 0))"

subsection \<open>RFC 4648\<close>

text \<open>The encoding of the RFC: three bytes are a 24-bit number, read as four digits in base 64.\<close>

definition digit :: "nat \<Rightarrow> byte" where
  "digit n = base64en ! (n mod 64)"

fun rfc4648 :: "byte list \<Rightarrow> byte list" where
  "rfc4648 [] = []"
| "rfc4648 [a] = (let n = unat a * 2 ^ 16 in [digit (n div 2 ^ 18), digit (n div 2 ^ 12), BASE64_PAD, BASE64_PAD])"
| "rfc4648 [a, b] = (let n = unat a * 2 ^ 16 + unat b * 2 ^ 8 in
     [digit (n div 2 ^ 18), digit (n div 2 ^ 12), digit (n div 2 ^ 6), BASE64_PAD])"
| "rfc4648 (a # b # c # bs) = (let n = unat a * 2 ^ 16 + unat b * 2 ^ 8 + unat c in
     [digit (n div 2 ^ 18), digit (n div 2 ^ 12), digit (n div 2 ^ 6), digit n] @ rfc4648 bs)"

lemma unat_and_masks:
  fixes a :: byte
  shows "unat (a AND 0x3F) = unat a mod 64" "unat (a AND 0xF) = unat a mod 16" "unat (a AND 0x3) = unat a mod 4"
proof -
  have m: "a AND 0x3F = take_bit 6 a" "a AND 0xF = take_bit 4 a" "a AND 0x3 = take_bit 2 a"
    by (rule bit_word_eqI; auto simp: bit_lits bit_simps)+
  show "unat (a AND 0x3F) = unat a mod 64" "unat (a AND 0xF) = unat a mod 16" "unat (a AND 0x3) = unat a mod 4"
    unfolding m unat_take_bit by simp_all
qed

lemma unat_byte_less [simp]: "unat (a :: byte) < 256"
  using unsigned_less [of a, where 'a = nat] by simp

lemma base64_at_digit: "unat k = n \<Longrightarrow> n < 64 \<Longrightarrow> base64_at k = digit n"
  by (simp add: base64_at_def digit_def)

lemma digit_mod: "digit (n mod 64) = digit n"
  by (simp add: digit_def)

lemma sextets:
  fixes a b :: byte
  shows "base64_at (drop_bit 2 a AND 0x3F) = digit (unat a div 4)"
    and "base64_at (push_bit 4 (a AND 0x3) + (drop_bit 4 b AND 0xF)) = digit (unat a mod 4 * 16 + unat b div 16)"
    and "base64_at (push_bit 2 (a AND 0xF) + (drop_bit 6 b AND 0x3)) = digit (unat a mod 16 * 4 + unat b div 64)"
    and "base64_at (a AND 0x3F) = digit (unat a mod 64)"
    and "base64_at (push_bit 4 (a AND 0x3)) = digit (unat a mod 4 * 16)"
    and "base64_at (push_bit 2 (a AND 0xF)) = digit (unat a mod 16 * 4)"
proof -
  have ab: "unat a < 256" "unat b < 256" by simp_all
  have m: "unat a mod 4 < 4" "unat a mod 16 < 16" by simp_all
  have d: "unat b div 16 < 16" "unat b div 64 < 4" "unat a div 4 < 64" using ab by linarith+
  have p4: "unat (push_bit 4 (a AND 0x3)) = unat a mod 4 * 16"
    using m by (subst unat_push_bit) (simp_all add: unat_and_masks)
  have p2: "unat (push_bit 2 (a AND 0xF)) = unat a mod 16 * 4"
    using m by (subst unat_push_bit) (simp_all add: unat_and_masks)
  have lo: "unat (drop_bit 4 b AND 0xF) = unat b div 16" "unat (drop_bit 6 b AND 0x3) = unat b div 64"
    "unat (drop_bit 2 a AND 0x3F) = unat a div 4"
    using d by (simp_all add: unat_and_masks unat_drop_bit)
  show "base64_at (drop_bit 2 a AND 0x3F) = digit (unat a div 4)"
    using lo d by (intro base64_at_digit) auto
  show "base64_at (a AND 0x3F) = digit (unat a mod 64)"
    by (intro base64_at_digit) (simp_all add: unat_and_masks)
  show "base64_at (push_bit 4 (a AND 0x3)) = digit (unat a mod 4 * 16)"
    using m p4 by (intro base64_at_digit) auto
  show "base64_at (push_bit 2 (a AND 0xF)) = digit (unat a mod 16 * 4)"
    using m p2 by (intro base64_at_digit) auto
  have s4: "unat a mod 4 * 16 + unat b div 16 < 64" using m(1) d(1) by linarith
  then show "base64_at (push_bit 4 (a AND 0x3) + (drop_bit 4 b AND 0xF)) = digit (unat a mod 4 * 16 + unat b div 16)"
    using p4 lo(1) by (intro base64_at_digit) (auto simp: unat_add_small)
  have s2: "unat a mod 16 * 4 + unat b div 64 < 64" using m(2) d(2) by linarith
  then show "base64_at (push_bit 2 (a AND 0xF) + (drop_bit 6 b AND 0x3)) = digit (unat a mod 16 * 4 + unat b div 64)"
    using p2 lo(2) by (intro base64_at_digit) (auto simp: unat_add_small)
qed

text \<open>The digits of the 24-bit number of a group.\<close>

lemma div_of_shifted: "r < m \<Longrightarrow> (k * m + r) div m = (k :: nat)"
  by simp

lemma digit_plus: "digit (k * 64 + x) = digit x"
  by (simp add: digit_def)

lemma sextet_number:
  fixes w x y z :: nat
  assumes "x < 64" and "y < 64" and "z < 64" and n: "n = ((w * 64 + x) * 64 + y) * 64 + z"
  shows "digit (n div 2 ^ 18) = digit w" and "digit (n div 2 ^ 12) = digit x"
    and "digit (n div 2 ^ 6) = digit y" and "digit n = digit z"
proof -
  have "n div 2 ^ 6 = (w * 64 + x) * 64 + y" using assms by simp
  moreover have "n div 2 ^ 12 = n div 2 ^ 6 div 64" "n div 2 ^ 18 = n div 2 ^ 6 div 64 div 64"
    by (simp_all add: div_mult2_eq [symmetric])
  ultimately have "n div 2 ^ 12 = w * 64 + x" "n div 2 ^ 18 = w" "n div 2 ^ 6 = (w * 64 + x) * 64 + y"
    using assms by simp_all
  then show "digit (n div 2 ^ 18) = digit w" "digit (n div 2 ^ 12) = digit x"
    "digit (n div 2 ^ 6) = digit y" "digit n = digit z"
    by (simp_all only: n digit_plus)
qed

lemma group_digits:
  fixes a b c :: nat
  assumes "b < 256" and "c < 256"
  defines "n \<equiv> a * 2 ^ 16 + b * 2 ^ 8 + c"
  shows "digit (n div 2 ^ 18) = digit (a div 4)"
    and "digit (n div 2 ^ 12) = digit (a mod 4 * 16 + b div 16)"
    and "digit (n div 2 ^ 6) = digit (b mod 16 * 4 + c div 64)"
    and "digit n = digit (c mod 64)"
proof -
  have bounds: "a mod 4 * 16 + b div 16 < 64" "b mod 16 * 4 + c div 64 < 64" "c mod 64 < 64"
  proof -
    have "a mod 4 < 4" "b mod 16 < 16" "b div 16 < 16" "c div 64 < 4" using assms by auto
    then show "a mod 4 * 16 + b div 16 < 64" "b mod 16 * 4 + c div 64 < 64" "c mod 64 < 64" by auto
  qed
  have "n = ((a div 4 * 64 + (a mod 4 * 16 + b div 16)) * 64 + (b mod 16 * 4 + c div 64)) * 64 + c mod 64"
  proof -
    have "a1 * 4 + a0 = x \<Longrightarrow> b1 * 16 + b0 = y \<Longrightarrow> c1 * 64 + c0 = z \<Longrightarrow>
      x * 2 ^ 16 + y * 2 ^ 8 + z = ((a1 * 64 + (a0 * 16 + b1)) * 64 + (b0 * 4 + c1)) * 64 + c0"
      for x y z a0 a1 b0 b1 c0 c1 :: nat by auto
    from this [OF div_mult_mod_eq div_mult_mod_eq div_mult_mod_eq] show ?thesis unfolding n_def .
  qed
  from sextet_number [OF bounds this] show "digit (n div 2 ^ 18) = digit (a div 4)"
    "digit (n div 2 ^ 12) = digit (a mod 4 * 16 + b div 16)"
    "digit (n div 2 ^ 6) = digit (b mod 16 * 4 + c div 64)" "digit n = digit (c mod 64)" by auto
qed


text \<open>The loop in terms of digits.\<close>

lemma encode_step_digits:
  "encode_step inb i out =
     (if i mod 3 = 0 then out @ [digit (unat (inb ! i) div 4)]
      else if i mod 3 = 1 then out @ [digit (unat (inb ! (i - 1)) mod 4 * 16 + unat (inb ! i) div 16)]
      else out @ [digit (unat (inb ! (i - 1)) mod 16 * 4 + unat (inb ! i) div 64), digit (unat (inb ! i) mod 64)])"
  unfolding encode_step_def sextets(1) unfolding sextets(2-4) by (rule refl)

lemma encode_fold_groups:
  assumes i: "i = 3 * k" "i \<le> length inb" and d: "drop i inb = a # b # c # bs"
  shows "fold (encode_step inb) [i..<length inb] out =
     fold (encode_step inb) [i + 3..<length inb] (out @ take 4 (rfc4648 (a # b # c # bs)))"
proof -
  have "length (drop i inb) = 3 + length bs" by (simp add: d)
  then have l: "i + 3 \<le> length inb" by simp
  have nth: "inb ! i = a" "inb ! (i + 1) = b" "inb ! (i + 2) = c"
    using nth_of_drop [OF d, of 0] nth_of_drop [OF d, of 1] nth_of_drop [OF d, of 2] by simp_all
  have "[i..<length inb] = i # (i + 1) # (i + 2) # [i + 3..<length inb]"
    using l by (simp add: upt_conv_Cons numeral_3_eq_3)
  moreover have "i mod 3 = 0" "(i + 1) mod 3 = 1" "(i + 2) mod 3 = 2" using i(1) by presburger+
  ultimately show ?thesis
    using nth group_digits [of "unat b" "unat c" "unat a"]
    by (simp add: encode_step_digits Let_def)
qed

text \<open>The bytes left over after the last whole group, as the loop and the padding code emit them.\<close>

definition encode_rest :: "byte list \<Rightarrow> nat \<Rightarrow> byte list \<Rightarrow> byte list" where
  "encode_rest inb i out =
     (let out = fold (encode_step inb) [i..<length inb] out; l = length inb - 1 in
      if l mod 3 = 0 then out @ [base64_at (push_bit 4 (inb ! l AND 0x3)), BASE64_PAD, BASE64_PAD]
      else if l mod 3 = 1 then out @ [base64_at (push_bit 2 (inb ! l AND 0xF)), BASE64_PAD]
      else out)"

lemma encode_rest_rfc:
  assumes "i = 3 * k" and "i < length inb" and "drop i inb = bs"
  shows "encode_rest inb i out = out @ rfc4648 bs"
  using assms
proof (induction bs arbitrary: i k out rule: rfc4648.induct)
  case (2 a)
  then have l: "length inb = i + 1" using length_drop [of i inb] by simp
  moreover have "inb ! i = a" using nth_of_drop [OF 2(3), of 0] by simp
  moreover have "i mod 3 = 0" using 2(1) by simp
  ultimately show ?case
    using group_digits [of 0 0 "unat a"] sextets(5) [of a]
    by (simp add: encode_rest_def encode_step_digits Let_def)
next
  case (3 a b)
  then have l: "length inb = i + 2" using length_drop [of i inb] by simp
  moreover have "inb ! i = a" "inb ! (i + 1) = b" using nth_of_drop [OF 3(3), of 0] nth_of_drop [OF 3(3), of 1] by simp_all
  moreover have "i mod 3 = 0" "(i + 1) mod 3 = 1" using 3(1) by presburger+
  ultimately show ?case
    using group_digits [of "unat b" 0 "unat a"] sextets(6) [of b]
    by (simp add: encode_rest_def encode_step_digits Let_def upt_conv_Cons)
next
  case (4 a b c bs)
  have d: "drop (i + 3) inb = bs" using 4(4) by (metis add.commute drop_drop drop_Suc_Cons drop0 numeral_3_eq_3)
  show ?case
  proof (cases "bs = []")
    case True
    have l: "length inb = i + 3" using length_drop [of i inb] 4(3,4) True by simp
    moreover have "(i + 2) mod 3 = 2" using 4(2) by presburger
    ultimately show ?thesis
      using encode_fold_groups [OF 4(2) _ 4(4)] 4(3) True by (simp add: encode_rest_def Let_def)
  next
    case False
    have "encode_rest inb (i + 3) (out @ take 4 (rfc4648 (a # b # c # bs))) =
      (out @ take 4 (rfc4648 (a # b # c # bs))) @ rfc4648 bs"
    proof (rule 4(1) [OF refl])
      show "i + 3 = 3 * (k + 1)" using 4(2) by simp
      show "i + 3 < length inb" using d False by (metis drop_all not_less)
    qed (rule d)
    moreover have "encode_rest inb i out = encode_rest inb (i + 3) (out @ take 4 (rfc4648 (a # b # c # bs)))"
      using encode_fold_groups [OF 4(2) _ 4(4)] 4(3) by (simp add: encode_rest_def)
    ultimately show ?thesis by (simp add: Let_def)
  qed
qed simp

lemma encode_is_rest:
  assumes "inb \<noteq> []" and "length inb < 2 ^ 32"
  shows "hv_base64_encode inb = Some (encode_rest inb 0 [])"
proof -
  have "unat (of_nat (length inb) :: u32) = length inb"
    using assms(2) by (simp add: unat_of_nat take_bit_nat_eq_self)
  moreover from this have "unat ((of_nat (length inb) :: u32) - 1) = length inb - 1"
    using assms(1) by (subst unat_minus_one) auto
  ultimately show ?thesis
    using assms(1) by (simp add: hv_base64_encode_def encode_rest_def Let_def)
qed

lemma encode_rfc:
  assumes "inb \<noteq> []" and "length inb < 2 ^ 32"
  shows "hv_base64_encode inb = Some (rfc4648 inb)"
  using encode_is_rest [OF assms] encode_rest_rfc [of 0 0 inb inb "[]"] assms(1) by simp

lemma length_rfc4648: "length (rfc4648 bs) = BASE64_ENCODE_OUT_SIZE (length bs)"
proof (induction bs rule: rfc4648.induct)
  case (4 a b c bs)
  have "(length (a # b # c # bs) + 2) div 3 = Suc ((length bs + 2) div 3)" by simp
  then show ?case using 4 by (simp add: BASE64_ENCODE_OUT_SIZE_def Let_def)
qed (simp_all add: BASE64_ENCODE_OUT_SIZE_def Let_def)


subsection \<open>Decoding\<close>

lemma unat_word_sub:
  assumes "k \<le> n" and "n < 2 ^ 32" shows "unat (of_nat n - of_nat k :: u32) = n - k"
proof -
  have "(of_nat n - of_nat k :: u32) = of_nat (n - k)" using assms(1) by (simp add: of_nat_diff)
  moreover have "n - k < 2 ^ 32" using assms(2) by simp
  ultimately show ?thesis by (simp add: unat_of_nat take_bit_nat_eq_self)
qed

text \<open>The decode table inverts the encode table.\<close>

lemma decode_digit_table: "\<forall>n \<in> set [0..<64]. decode_char (base64en ! n) = Some (of_nat n) \<and> base64en ! n \<noteq> BASE64_PAD"
  by code_simp

lemma decode_digit: "decode_char (digit n) = Some (of_nat (n mod 64))" "digit n \<noteq> BASE64_PAD"
  using decode_digit_table by (auto simp: digit_def)

lemma decode_loop_digit:
  assumes "i < length inb" and "inb ! i = digit n"
  shows "decode_loop inb i st =
    (case decode_step inb i (of_nat (n mod 64)) st of None \<Rightarrow> None | Some st' \<Rightarrow> decode_loop inb (i + 1) st')"
  using assms decode_digit [of n] by (simp add: decode_loop.simps [of inb i])

text \<open>The bit operations of the decoder on the value of a digit.\<close>

lemma decode_bits_table:
  "\<forall>x \<in> set [0..<64]. ucast (push_bit 2 (of_nat x :: u32) AND 0xFF) = (of_nat (4 * x) :: byte) \<and>
     ucast (drop_bit 4 (of_nat x :: u32) AND 0x3) = (of_nat (x div 16) :: byte) \<and>
     ucast (push_bit 4 ((of_nat x :: u32) AND 0xF)) = (of_nat (16 * (x mod 16)) :: byte) \<and>
     ucast (drop_bit 2 (of_nat x :: u32) AND 0xF) = (of_nat (x div 4) :: byte) \<and>
     ucast (push_bit 6 ((of_nat x :: u32) AND 0x3)) = (of_nat (64 * (x mod 4)) :: byte) \<and>
     ucast (of_nat x :: u32) = (of_nat x :: byte)"
  by code_simp

lemma decode_bits:
  assumes "x < 64"
  shows "ucast (push_bit 2 (of_nat x :: u32) AND 0xFF) = (of_nat (4 * x) :: byte)"
    "ucast (drop_bit 4 (of_nat x :: u32) AND 0x3) = (of_nat (x div 16) :: byte)"
    "ucast (push_bit 4 ((of_nat x :: u32) AND 0xF)) = (of_nat (16 * (x mod 16)) :: byte)"
    "ucast (drop_bit 2 (of_nat x :: u32) AND 0xF) = (of_nat (x div 4) :: byte)"
    "ucast (push_bit 6 ((of_nat x :: u32) AND 0x3)) = (of_nat (64 * (x mod 4)) :: byte)"
    "ucast (of_nat x :: u32) = (of_nat x :: byte)"
proof -
  have "x \<in> set [0..<64]" using assms by simp
  note T = bspec [OF decode_bits_table this]
  from T show "ucast (push_bit 2 (of_nat x :: u32) AND 0xFF) = (of_nat (4 * x) :: byte)" by (rule conjunct1)
  note T1 = conjunct2 [OF T]
  from T1 show "ucast (drop_bit 4 (of_nat x :: u32) AND 0x3) = (of_nat (x div 16) :: byte)" by (rule conjunct1)
  note T2 = conjunct2 [OF T1]
  from T2 show "ucast (push_bit 4 ((of_nat x :: u32) AND 0xF)) = (of_nat (16 * (x mod 16)) :: byte)" by (rule conjunct1)
  note T3 = conjunct2 [OF T2]
  from T3 show "ucast (drop_bit 2 (of_nat x :: u32) AND 0xF) = (of_nat (x div 4) :: byte)" by (rule conjunct1)
  note T4 = conjunct2 [OF T3]
  from T4 show "ucast (push_bit 6 ((of_nat x :: u32) AND 0x3)) = (of_nat (64 * (x mod 4)) :: byte)" by (rule conjunct1)
  from T4 show "ucast (of_nat x :: u32) = (of_nat x :: byte)" by (rule conjunct2)
qed

lemma decode_step_values:
  assumes "x < 64"
  shows "decode_step inb i (of_nat x) (j, out) =
     (let inlen = of_nat (length inb) :: u32 in
     if i mod 4 = 0 then map_option (Pair j) (put j (of_nat (4 * x)) out)
     else if i mod 4 = 1 then
       Option.bind (put_add j (of_nat (x div 16)) out) (\<lambda>out.
         if of_nat i < inlen - 3 \<or> inb ! unat (inlen - 2) \<noteq> BASE64_PAD then
           map_option (Pair (j + 1)) (put (j + 1) (of_nat (16 * (x mod 16))) out)
         else Some (j + 1, out))
     else if i mod 4 = 2 then
       Option.bind (put_add j (of_nat (x div 4)) out) (\<lambda>out.
         if of_nat i < inlen - 2 \<or> inb ! unat (inlen - 1) \<noteq> BASE64_PAD then
           map_option (Pair (j + 1)) (put (j + 1) (of_nat (64 * (x mod 4))) out)
         else Some (j + 1, out))
     else map_option (Pair (j + 1)) (put_add j (of_nat x) out))"
  unfolding decode_step_def decode_bits [OF assms] by simp

lemma word_less_sub:
  assumes "k \<le> n" and "n < 2 ^ 32" and "i < 2 ^ 32"
  shows "(of_nat i :: u32) < of_nat n - of_nat k \<longleftrightarrow> i + k < n"
  using unat_word_sub [OF assms(1,2)] assms
  by (simp add: word_less_nat_alt unat_of_nat take_bit_nat_eq_self less_diff_conv)

lemma list_put3:
  "j + 2 < length out \<Longrightarrow> take (j + 3) (out[j := a, Suc j := b, Suc (Suc j) := c]) = take j out @ [a, b, c]"
  by (rule nth_equalityI) (auto simp: nth_append nth_list_update nth_Cons split: nat.splits)

lemma decode_first_two:
  fixes a :: byte and y :: nat
  assumes i: "i mod 4 = 0" "i + 4 \<le> length inb" "length inb < 2 ^ 32" and j: "j < length out"
    and d: "inb ! i = digit (unat a div 4)" "inb ! (i + 1) = digit (unat a mod 4 * 16 + y)" "y < 16"
  shows "decode_loop inb i (j, out) =
    (if i + 4 < length inb \<or> inb ! (length inb - 2) \<noteq> BASE64_PAD then
       (if j + 1 < length out then decode_loop inb (i + 2) (j + 1, out[j := a, j + 1 := of_nat (16 * y)]) else None)
     else decode_loop inb (i + 2) (j + 1, out[j := a]))"
proof -
  have m: "i mod 4 = 0" "(i + 1) mod 4 = 1" using i(1) by presburger+
  have a: "unat a < 256" by simp
  have small: "unat a div 4 < 64" "unat a mod 4 * 16 + y < 64" "(unat a mod 4 * 16 + y) div 16 = unat a mod 4"
    "(unat a mod 4 * 16 + y) mod 16 = y"
  proof -
    have "unat a mod 4 < 4" by simp
    then show "unat a mod 4 * 16 + y < 64" using d(3) by linarith
    show "unat a div 4 < 64" using a by linarith
  qed (use d(3) in simp_all)
  have sum: "(of_nat (4 * (unat a div 4)) + of_nat (unat a mod 4) :: byte) = a"
  proof -
    have "(of_nat (4 * (unat a div 4)) + of_nat (unat a mod 4) :: byte) = of_nat (4 * (unat a div 4) + unat a mod 4)"
      by (simp only: of_nat_add)
    then show ?thesis by (simp only: mult_div_mod_eq) simp
  qed
  have c1: "(of_nat (i + 1) :: u32) < of_nat (length inb) - 3 \<longleftrightarrow> i + 4 < length inb"
    using word_less_sub [of 3 "length inb" "i + 1"] i by (simp add: add.commute del: of_nat_Suc of_nat_add)
  have c2: "unat (of_nat (length inb) - 2 :: u32) = length inb - 2"
    using unat_word_sub [of 2 "length inb"] i by simp
  have s1: "decode_loop inb i (j, out) = decode_loop inb (i + 1) (j, out[j := of_nat (4 * (unat a div 4))])"
    using i j m small(1) decode_loop_digit [OF _ d(1)]
    by (simp add: decode_step_values put_def Let_def)
  show ?thesis
    unfolding s1
    using i j m small(2-4) decode_loop_digit [OF _ d(2)] sum c1 c2
    by (simp add: decode_step_values put_def put_add_def Let_def del: of_nat_add of_nat_Suc of_nat_mult)
qed


lemma decode_third:
  fixes b :: byte and z :: nat
  assumes i: "i mod 4 = 0" "i + 4 \<le> length inb" "length inb < 2 ^ 32" and j: "j < length out"
    and o: "out ! j = of_nat (16 * (unat b div 16))"
    and d: "inb ! (i + 2) = digit (unat b mod 16 * 4 + z)" "z < 4"
  shows "decode_loop inb (i + 2) (j, out) =
    (if i + 4 < length inb \<or> inb ! (length inb - 1) \<noteq> BASE64_PAD then
       (if j + 1 < length out then decode_loop inb (i + 3) (j + 1, out[j := b, j + 1 := of_nat (64 * z)]) else None)
     else decode_loop inb (i + 3) (j + 1, out[j := b]))"
proof -
  have m: "(i + 2) mod 4 = 2" "Suc (Suc i) mod 4 = 2" using i(1) by presburger+
  have small: "unat b mod 16 * 4 + z < 64" "(unat b mod 16 * 4 + z) div 4 = unat b mod 16"
    "(unat b mod 16 * 4 + z) mod 4 = z"
  proof -
    have "unat b mod 16 < 16" by simp
    then show "unat b mod 16 * 4 + z < 64" using d(2) by linarith
  qed (use d(2) in simp_all)
  have sum: "(of_nat (16 * (unat b div 16)) + of_nat (unat b mod 16) :: byte) = b"
  proof -
    have "(of_nat (16 * (unat b div 16)) + of_nat (unat b mod 16) :: byte) = of_nat (16 * (unat b div 16) + unat b mod 16)"
      by (simp only: of_nat_add)
    then show ?thesis by (simp only: mult_div_mod_eq) simp
  qed
  have c1: "(of_nat (i + 2) :: u32) < of_nat (length inb) - 2 \<longleftrightarrow> i + 4 < length inb"
    using word_less_sub [of 2 "length inb" "i + 2"] i by (simp add: add.commute del: of_nat_Suc of_nat_add) presburger
  have c2: "unat (of_nat (length inb) - 1 :: u32) = length inb - 1"
    using unat_word_sub [of 1 "length inb"] i by simp
  show ?thesis
    using i j m small o decode_loop_digit [OF _ d(1)] sum c1 c2
    by (simp add: decode_step_values put_def put_add_def Let_def numeral_3_eq_3 del: of_nat_add of_nat_Suc of_nat_mult)
qed

lemma decode_fourth:
  fixes c :: byte
  assumes i: "i mod 4 = 0" "i + 4 \<le> length inb" and j: "j < length out"
    and o: "out ! j = of_nat (64 * (unat c div 64))" and d: "inb ! (i + 3) = digit (unat c mod 64)"
  shows "decode_loop inb (i + 3) (j, out) = decode_loop inb (i + 4) (j + 1, out[j := c])"
proof -
  have m: "(i + 3) mod 4 = 3" and e: "Suc (i + 3) = i + 4" using i(1) by presburger+
  have sum: "(of_nat (64 * (unat c div 64)) + of_nat (unat c mod 64) :: byte) = c"
  proof -
    have "(of_nat (64 * (unat c div 64)) + of_nat (unat c mod 64) :: byte) = of_nat (64 * (unat c div 64) + unat c mod 64)"
      by (simp only: of_nat_add)
    then show ?thesis by (simp only: mult_div_mod_eq) simp
  qed
  show ?thesis
    using i j m o decode_loop_digit [OF _ d] sum
      e by (simp add: decode_step_values put_add_def Let_def add.commute [of _ i] del: of_nat_add of_nat_Suc of_nat_mult)
qed


lemma digits_group:
  "rfc4648 (a # b # c # bs) = digit (unat a div 4) # digit (unat a mod 4 * 16 + unat b div 16) #
     digit (unat b mod 16 * 4 + unat c div 64) # digit (unat c mod 64) # rfc4648 bs"
  "rfc4648 [a, b] = [digit (unat a div 4), digit (unat a mod 4 * 16 + unat b div 16), digit (unat b mod 16 * 4), BASE64_PAD]"
  "rfc4648 [a] = [digit (unat a div 4), digit (unat a mod 4 * 16), BASE64_PAD, BASE64_PAD]"
  using group_digits [of "unat b" "unat c" "unat a"] group_digits [of "unat b" 0 "unat a"] group_digits [of 0 0 "unat a"]
  by (simp_all add: Let_def)

lemma decode_group:
  assumes i: "i mod 4 = 0" "length inb < 2 ^ 32" and j: "j + 3 \<le> length out"
    and d: "drop i inb = rfc4648 (a # b # c # bs)" and r: "i + 4 = length inb \<or> i + 5 \<le> length inb"
  shows "decode_loop inb i (j, out) = decode_loop inb (i + 4) (j + 3, out[j := a, j + 1 := b, j + 2 := c])"
proof -
  note n = nth_of_drop [OF d [unfolded digits_group]]
  have d4: "inb ! i = digit (unat a div 4)" "inb ! (i + 1) = digit (unat a mod 4 * 16 + unat b div 16)"
    "inb ! (i + 2) = digit (unat b mod 16 * 4 + unat c div 64)" "inb ! (i + 3) = digit (unat c mod 64)"
    using n [of 0] n [of 1] n [of 2] n [of 3] by simp_all
  have l: "i + 4 \<le> length inb" using r by auto
  have p: "i + 4 < length inb \<or> inb ! (length inb - 2) \<noteq> BASE64_PAD" "i + 4 < length inb \<or> inb ! (length inb - 1) \<noteq> BASE64_PAD"
  proof -
    have "i + 4 = length inb \<Longrightarrow> length inb - 2 = i + 2 \<and> length inb - 1 = i + 3" by auto
    then show "i + 4 < length inb \<or> inb ! (length inb - 2) \<noteq> BASE64_PAD" "i + 4 < length inb \<or> inb ! (length inb - 1) \<noteq> BASE64_PAD"
      using r d4 decode_digit(2) by auto
  qed
  have y: "unat b div 16 < 16" "unat c div 64 < 4" using unat_byte_less [of b] unat_byte_less [of c] by linarith+
  show ?thesis
    using decode_first_two [OF i(1) l i(2) _ d4(1,2) y(1), of j out]
      decode_third [OF i(1) l i(2) _ _ d4(3) y(2), of "j + 1" "out[j := a, j + 1 := of_nat (16 * (unat b div 16))]"]
      decode_fourth [OF i(1) l _ _ d4(4), of "j + 2" "out[j := a, j + 1 := b, j + 2 := of_nat (64 * (unat c div 64))]"]
      p j
    by (simp add: numeral_3_eq_3 del: of_nat_mult)
qed

lemma decode_rfc:
  assumes "i mod 4 = 0" and "length inb < 2 ^ 32" and "j + length bs \<le> length out"
    and "drop i inb = rfc4648 bs" and "i \<le> length inb"
  shows "\<exists>out'. decode_loop inb i (j, out) = Some (int (j + length bs), out') \<and>
     take (j + length bs) out' = take j out @ bs \<and> length out' = length out"
  using assms
proof (induction bs arbitrary: i j out rule: rfc4648.induct)
  case 1
  then show ?case by (auto simp: decode_loop.simps [of inb i])
next
  case (2 a)
  note d = 2(4) [unfolded digits_group]
  have l: "length inb = i + 4" using arg_cong [OF d, of length] 2(5) by simp
  have n: "inb ! i = digit (unat a div 4)" "inb ! (i + 1) = digit (unat a mod 4 * 16 + 0)" "inb ! (i + 2) = BASE64_PAD"
    using nth_of_drop [OF d, of 0] nth_of_drop [OF d, of 1] nth_of_drop [OF d, of 2] by simp_all
  have "decode_loop inb i (j, out) = decode_loop inb (i + 2) (j + 1, out[j := a])"
    using decode_first_two [OF 2(1) _ 2(2) _ n(1,2), of j out] 2(3) l n(3) by simp
  also have "\<dots> = Some (int (j + 1), out[j := a])" using n(3) l by (subst decode_loop.simps) simp
  finally show ?case using 2(3) by (auto simp: take_Suc_conv_app_nth)
next
  case (3 a b)
  note d = 3(4) [unfolded digits_group]
  have l: "length inb = i + 4" using arg_cong [OF d, of length] 3(5) by simp
  have n: "inb ! i = digit (unat a div 4)" "inb ! (i + 1) = digit (unat a mod 4 * 16 + unat b div 16)"
    "inb ! (i + 2) = digit (unat b mod 16 * 4 + 0)" "inb ! (i + 3) = BASE64_PAD"
    using nth_of_drop [OF d, of 0] nth_of_drop [OF d, of 1] nth_of_drop [OF d, of 2] nth_of_drop [OF d, of 3] by simp_all
  have y: "unat b div 16 < 16" using unat_byte_less [of b] by linarith
  have "decode_loop inb i (j, out) = decode_loop inb (i + 3) (j + 2, out[j := a, j + 1 := b])"
    using decode_first_two [OF 3(1) _ 3(2) _ n(1,2) y, of j out]
      decode_third [OF 3(1) _ 3(2) _ _ n(3), of "j + 1" "out[j := a, j + 1 := of_nat (16 * (unat b div 16))]"]
      3(3) l n(3,4) decode_digit(2) by (simp add: add.commute [of _ i] del: of_nat_mult)
  also have "\<dots> = Some (int (j + 2), out[j := a, j + 1 := b])" using n(4) l by (subst decode_loop.simps) simp
  finally show ?case using 3(3) by (auto simp: take_Suc_conv_app_nth)
next
  case (4 a b c bs)
  have l: "length inb = i + 4 + length (rfc4648 bs)"
    using arg_cong [OF 4(5) [unfolded digits_group], of length] 4(6) by simp
  have r: "i + 4 = length inb \<or> i + 5 \<le> length inb" using l by (cases "rfc4648 bs") auto
  have "drop 4 (drop i inb) = rfc4648 bs" unfolding 4(5) digits_group by simp
  then have d: "drop (i + 4) inb = rfc4648 bs" by (simp add: add.commute)
  let ?out = "out[j := a, j + 1 := b, j + 2 := c]"
  have "\<exists>out'. decode_loop inb (i + 4) (j + 3, ?out) = Some (int (j + 3 + length bs), out') \<and>
     take (j + 3 + length bs) out' = take (j + 3) ?out @ bs \<and> length out' = length ?out"
    using 4(2-) l d by (intro 4(1) [OF refl]) auto
  moreover have "take (j + 3) ?out = take j out @ [a, b, c]" using list_put3 [of j out a b c] 4(4) by simp
  ultimately show ?case
    using decode_group [OF 4(2,3) _ 4(5) r, of j out] 4(4) by (auto simp: numeral_3_eq_3)
qed


subsection \<open>Properties\<close>

text \<open>C15: On every non-empty input the encoder's index loop and its padding code produce the base64
  encoding of RFC 4648, which fills exactly \<open>BASE64_ENCODE_OUT_SIZE\<close> bytes.\<close>

theorem hv_base64_encode_rfc4648:
  assumes "inb \<noteq> []" and "length inb < 2 ^ 32"
  shows "hv_base64_encode inb = Some (rfc4648 inb) \<and>
    length (rfc4648 inb) = BASE64_ENCODE_OUT_SIZE (length inb)"
  using encode_rfc [OF assms] length_rfc4648 by simp

theorem hv_base64_encode_rfc4648_witness:
  "hv_base64_encode [0x66, 0x6f, 0x6f, 0x62] = Some [90, 109, 57, 118, 89, 103, 61, 61]"
proof -
  have "rfc4648 [0x66, 0x6f, 0x6f, 0x62] = [90, 109, 57, 118, 89, 103, 61, 61]"
    by (simp add: Let_def digit_def base64en_def BASE64_PAD_def)
  then show ?thesis using hv_base64_encode_rfc4648 [of "[0x66, 0x6f, 0x6f, 0x62]"] by simp
qed

text \<open>C14: The decoder inverts the encoder: whatever the output buffer holds, as long as it has room
  for the decoded bytes (and no more than that), decoding the encoding of \<open>data\<close> accesses nothing
  outside of the buffers, returns the length of \<open>data\<close> and stores \<open>data\<close>.\<close>

theorem base64_roundtrip:
  assumes "data \<noteq> []" and "length data < 2 ^ 31" and "length data \<le> length out"
  shows "\<exists>enc out'. hv_base64_encode data = Some enc \<and>
     hv_base64_decode enc out = Some (int (length data), out') \<and> take (length data) out' = data"
proof -
  have enc: "hv_base64_encode data = Some (rfc4648 data)" using assms by (intro encode_rfc) auto
  have "length (rfc4648 data) < 2 ^ 32"
    using assms(2) by (simp add: length_rfc4648 BASE64_ENCODE_OUT_SIZE_def)
  then obtain out' where "decode_loop (rfc4648 data) 0 (0, out) = Some (int (length data), out')"
    "take (length data) out' = data"
    using decode_rfc [of 0 "rfc4648 data" 0 data out] assms(3) by auto
  then show ?thesis using enc by (simp add: hv_base64_decode_def)
qed

theorem base64_roundtrip_witness:
  "\<exists>enc out'. hv_base64_encode [1, 2, 3, 4] = Some enc \<and>
     hv_base64_decode enc [9, 9, 9, 9] = Some (int (length [1, 2, 3, 4 :: byte]), out') \<and>
     take (length [1, 2, 3, 4 :: byte]) out' = [1, 2, 3, 4]"
  by (rule base64_roundtrip) simp_all

text \<open>The encoder reads outside of an empty input: after the loop \<open>i -= 1\<close> is \<open>0xFFFFFFFF\<close>.\<close>

theorem hv_base64_encode_empty: "hv_base64_encode [] = None"
  by (simp add: hv_base64_encode_def Let_def unsigned_minus_1_eq_mask mask_eq_exp_minus_1)


end
