(* ===== verification/WS_Handshake.thy ===== *)
theory WS_Handshake imports SHA1 Base64 begin

text \<open>
  \<open>ws_encode_key\<close> of \<^verbatim>\<open>http/wsdef.c\<close>: the value of \<open>Sec-WebSocket-Accept\<close> for a key, from SHA-1 and
  base64, and the proof that it is the one RFC 6455 asks for.
\<close>

text \<open>\<open>magic\<close>: the characters of 258EAFA5-E914-47DA-95CA-C5AB0DC85B11.\<close>

definition ws_magic :: "byte list" where
  "ws_magic = [50, 53, 56, 69, 65, 70, 65, 53, 45, 69, 57, 49, 52, 45, 52, 55, 68, 65, 45, 57, 53, 67, 65, 45, 67, 53, 65, 66, 48, 68, 67, 56, 53, 66, 49, 49]"

text \<open>\<open>key\<close> is the C string without its terminator; the result is what is stored in \<open>accept\<close>.\<close>

definition ws_encode_key :: "byte list \<Rightarrow> byte list \<Rightarrow> byte list option" where
  "ws_encode_key junk key =
     Option.bind (HV_SHA1Update (HV_SHA1Init junk) key) (\<lambda>ctx.
     Option.bind (HV_SHA1Update ctx ws_magic) (\<lambda>ctx.
     Option.bind (HV_SHA1Final ctx) (\<lambda>(digest, _). hv_base64_encode digest)))"

lemma length_fips_compress: "length (fips_compress H M) = 5"
  by (simp add: fips_compress_def split: prod.split)

lemma length_blocks_fips: "length s = 5 \<Longrightarrow> length (blocks fips_compress s m) = 5"
proof (induction fips_compress s m rule: blocks.induct)
  case (1 s m)
  then show ?case by (cases "length m < 64") (simp_all add: blocks.simps [of _ s] length_fips_compress)
qed

lemma length_sha1_digest: "length (sha1_digest m) = 20"
proof -
  have "length (concat (map be_bytes ws)) = 4 * length ws" for ws
    by (induction ws) (simp_all add: be_bytes_def)
  then show ?thesis
    by (simp add: sha1_digest_def length_blocks_fips sha1_init_state_def)
qed

lemma ws_encode_key_value:
  assumes "length junk = 64" and "length key < 2 ^ 32 - 64"
  shows "ws_encode_key junk key = Some (rfc4648 (sha1_digest (key @ ws_magic))) \<and>
    length (rfc4648 (sha1_digest (key @ ws_magic))) = 28"
proof -
  have "length ws_magic < 2 ^ 32 - 64" by (simp add: ws_magic_def)
  then have "Option.bind (feed_all HV_SHA1Update (HV_SHA1Init junk) [key, ws_magic])
      (\<lambda>ctx. map_option fst (HV_SHA1Final ctx)) = Some (sha1_digest (key @ ws_magic))"
    using sha1.streamed [of "[key, ws_magic]" junk] buffer64_id [OF assms(1)] assms(2) by simp
  moreover have "sha1_digest m \<noteq> []" for m using length_sha1_digest [of m] by auto
  ultimately show ?thesis
    using encode_rfc [of "sha1_digest (key @ ws_magic)"]
    by (auto simp: ws_encode_key_def length_rfc4648 length_sha1_digest BASE64_ENCODE_OUT_SIZE_def
        bind_eq_Some_conv split: Option.bind_splits)
qed

text \<open>C10: \<open>ws_encode_key\<close> computes base64(SHA-1(key + GUID)) of RFC 6455 (4.2.2) for every key, and the
  result has 28 characters, so it fits the 32-byte buffer its callers pass.\<close>

theorem ws_encode_key_rfc6455:
  assumes "length junk = 64" and "length key < 2 ^ 32 - 64"
  shows "ws_encode_key junk key = Some (rfc4648 (sha1_digest (key @ ws_magic))) \<and>
    length (rfc4648 (sha1_digest (key @ ws_magic))) = 28"
  by (rule ws_encode_key_value [OF assms])

theorem ws_encode_key_rfc6455_witness:
  "ws_encode_key (replicate 64 0) [100, 71, 104, 108] = Some (rfc4648 (sha1_digest ([100, 71, 104, 108] @ ws_magic))) \<and>
    length (rfc4648 (sha1_digest ([100, 71, 104, 108] @ ws_magic))) = 28"
  by (rule ws_encode_key_rfc6455) simp_all

end
