(* ===== verification/WS_Client.thy ===== *)
theory WS_Client imports HTTP1 WS_Channel WS_Handshake begin

text \<open>
  The WebSocket client, \<^verbatim>\<open>lib/libhv/http/client/WebSocketClient.cpp\<close>, on the connection of
  \<^verbatim>\<open>evpp/TcpClient.h\<close> and \<^verbatim>\<open>evpp/Channel.h\<close>: opening, the HTTP handshake, frames, heartbeat and closing, as
  one function per callback, and the event loop as a relation between the states of the client.
\<close>

subsection \<open>State\<close>

datatype (plugins only: code size) client_state = CL_CONNECTING | CL_CONNECTED | CL_WS_UPGRADING | CL_WS_OPENED | CL_WS_CLOSED
datatype (plugins only: code size) channel_status = CH_OPENED | CH_CONNECTING | CH_CONNECTED | CH_DISCONNECTED | CH_CLOSED

text \<open>\<open>cc_open\<close> is \<open>hio_is_opened\<close>: the close callback of the socket has not run. \<open>cc_onclose\<close> tells whether \<open>onclose\<close> is
  set.\<close>

record client_channel =
  cc_status :: channel_status
  cc_open :: bool
  cc_onclose :: bool
  cc_opcode :: int
  cc_ws :: ws_channel

text \<open>What the application's callbacks are called with.\<close>

datatype app_event = Onopen | Onmessage "byte list" | Onclose

text \<open>The layer below, over a state \<open>'io\<close>: \<open>rand\<close>, \<open>hio_write\<close>, \<open>hio_close\<close> (whose result tells whether the close
  callback has run, which it has not if data are waiting to be written), \<open>createsocket\<close>, \<open>hio_connect\<close>, the
  heartbeat timer, and the uninitialised memory the code starts from.\<close>

record 'io net =
  net_rand :: "'io rand_fn"
  net_write :: "'io write_fn"
  net_close :: "'io \<Rightarrow> bool \<times> 'io"
  net_socket :: "byte list \<Rightarrow> int \<Rightarrow> 'io \<Rightarrow> int \<times> 'io"
  net_connect :: "bool \<Rightarrow> 'io \<Rightarrow> 'io"
  net_heartbeat :: "int \<Rightarrow> 'io \<Rightarrow> 'io"
  net_junk :: "byte list"
  net_junk_opcode :: int

text \<open>Everything but the two parsers, which call back into it.\<close>

record ('j, 'io) client_world =
  cw_state :: client_state
  cw_url :: "byte list"
  cw_http_req :: "'j http_message option"
  cw_tls :: bool
  cw_ping_interval :: int
  cw_ping_cnt :: int
  cw_channel :: "client_channel option"
  cw_io :: 'io
  cw_log :: "app_event list"

record ('j, 'io) client =
  cl_world :: "('j, 'io) client_world"
  cl_http :: "(http_parser \<times> ('j, unit) http1) option"
  cl_ws :: "(websocket_parser \<times> unit ws_owner) option"

text \<open>A callback ends, or leaves by an exception, which ends the program, or its behaviour is undefined.\<close>

datatype 'c outcome = Done 'c | Uncaught | Undefined

subsection \<open>The channel\<close>

definition isOpened :: "client_channel \<Rightarrow> bool" where
  "isOpened ch \<longleftrightarrow> cc_status ch \<notin> {CH_DISCONNECTED, CH_CLOSED} \<and> cc_open ch"

definition isConnected :: "client_channel \<Rightarrow> bool" where
  "isConnected ch \<longleftrightarrow> cc_status ch = CH_CONNECTED \<and> isOpened ch"

definition client_isConnected :: "('j, 'io) client_world \<Rightarrow> bool" where
  "client_isConnected w = (case cw_channel w of None \<Rightarrow> False | Some ch \<Rightarrow> isConnected ch)"

definition channel_write :: "'io net \<Rightarrow> client_channel \<Rightarrow> 'io write_fn" where
  "channel_write net ch dat io = (if isOpened ch then net_write net dat io else (-1, io))"

text \<open>\<open>on_close\<close> of the channel and the part of \<open>onConnection\<close> for a lost connection.\<close>

definition on_closed :: "('j, 'io) client_world \<Rightarrow> ('j, 'io) client_world" where
  "on_closed w = (case cw_channel w of None \<Rightarrow> w | Some ch \<Rightarrow>
     let w = w\<lparr>cw_channel := Some (ch\<lparr>cc_status := CH_CLOSED, cc_open := False\<rparr>)\<rparr>
     in if cc_onclose ch then w\<lparr>cw_state := CL_WS_CLOSED, cw_log := cw_log w @ [Onclose]\<rparr> else w)"

definition channel_close :: "'io net \<Rightarrow> ('j, 'io) client_world \<Rightarrow> ('j, 'io) client_world" where
  "channel_close net w = (case cw_channel w of None \<Rightarrow> w | Some ch \<Rightarrow>
     if \<not> isOpened ch then w
     else
       let w = w\<lparr>cw_channel := Some (ch\<lparr>cc_status := CH_CLOSED\<rparr>)\<rparr> in
       case net_close net (cw_io w) of (now, io) \<Rightarrow>
         let w = w\<lparr>cw_io := io\<rparr> in if now then on_closed w else w)"

definition channel_control ::
  "'io net \<Rightarrow> ('io write_fn \<Rightarrow> ws_channel \<times> 'io \<Rightarrow> int \<times> ws_channel \<times> 'io) \<Rightarrow> ('j, 'io) client_world \<Rightarrow> ('j, 'io) client_world" where
  "channel_control net op w = (case cw_channel w of None \<Rightarrow> w | Some ch \<Rightarrow>
     (case op (channel_write net ch) (cc_ws ch, cw_io w) of
        (n, ws, io) \<Rightarrow> w\<lparr>cw_channel := Some (ch\<lparr>cc_ws := ws\<rparr>), cw_io := io\<rparr>))"

subsection \<open>Opening and closing\<close>

definition client_new :: "int \<Rightarrow> 'io \<Rightarrow> ('j, 'io) client" where
  "client_new ping_interval io = \<lparr>cl_world = \<lparr>cw_state = CL_WS_CLOSED, cw_url = [], cw_http_req = None, cw_tls = False,
     cw_ping_interval = ping_interval, cw_ping_cnt = 0, cw_channel = None, cw_io = io, cw_log = []\<rparr>,
     cl_http = None, cl_ws = None\<rparr>"

definition DEFAULT_WS_PING_INTERVAL :: int where "DEFAULT_WS_PING_INTERVAL = 3000"

text \<open>In the loop's thread, \<open>closesocket\<close> runs at once.\<close>

definition client_close :: "'io net \<Rightarrow> ('j, 'io) client_world \<Rightarrow> ('j, 'io) client_world" where
  "client_close net w = (channel_close net w)\<lparr>cw_state := CL_WS_CLOSED\<rparr>"

text \<open>\<open>createsocket\<close> makes a new channel; \<open>startConnect\<close> then starts the connection of that channel.\<close>

definition new_channel :: client_channel where
  "new_channel = \<lparr>cc_status = CH_OPENED, cc_open = True, cc_onclose = False, cc_opcode = 0,
     cc_ws = \<lparr>ch_type = WS_CLIENT, ch_sendbuf = []\<rparr>\<rparr>"

definition startConnect :: "'io net \<Rightarrow> ('j, 'io) client_world \<Rightarrow> ('j, 'io) client_world" where
  "startConnect net w = (case cw_channel w of None \<Rightarrow> w | Some ch \<Rightarrow>
     if cc_status ch \<noteq> CH_OPENED then w
     else w\<lparr>cw_channel := Some (ch\<lparr>cc_onclose := True, cc_status := CH_CONNECTING\<rparr>),
            cw_io := net_connect net (cw_tls w) (cw_io w)\<rparr>)"

definition open_url :: "byte list \<Rightarrow> byte list" where
  "open_url url = (if take 2 url \<noteq> ascii ''ws'' then ascii ''ws://'' @ url else url)"

definition set_headers :: "byte list strmap \<Rightarrow> 'j http_message \<Rightarrow> 'j http_message" where
  "set_headers hs m = fold (\<lambda>(k, v). SetHeader k v) hs m"

definition client_open :: "'j content_lib \<Rightarrow> 'io net \<Rightarrow> byte list \<Rightarrow> byte list strmap \<Rightarrow>
    ('j, 'io) client_world \<Rightarrow> (int \<times> ('j, 'io) client_world) outcome" where
  "client_open lib net url0 headers w =
     (let w = client_close net w;
          url = open_url url0;
          w = w\<lparr>cw_url := url\<rparr>;
          req = (case cw_http_req w of None \<Rightarrow> HttpRequest_new lib | Some req \<Rightarrow> req);
          req = req\<lparr>req_url := ascii ''http'' @ drop 2 url\<rparr>
      in case ParseUrl req of None \<Rightarrow> Undefined
       | Some req \<Rightarrow>
           (case net_socket net (req_host req) (req_port req) (cw_io w) of (connfd, io) \<Rightarrow>
              let w = w\<lparr>cw_http_req := Some req, cw_io := io\<rparr> in
              if connfd < 0 then Done (connfd, w)
              else
                let w = w\<lparr>cw_channel := Some new_channel\<rparr>;
                    w = (if take 3 url = ascii ''wss'' then w\<lparr>cw_tls := True\<rparr> else w);
                    w = w\<lparr>cw_http_req := Some (set_headers headers req)\<rparr>;
                    w = w\<lparr>cw_state := CL_CONNECTING\<rparr>
                in Done (0, startConnect net w)))"

subsection \<open>The handshake\<close>

definition SEC_WEBSOCKET_KEY :: "byte list" where "SEC_WEBSOCKET_KEY = ascii ''Sec-WebSocket-Key''"
definition SEC_WEBSOCKET_VERSION :: "byte list" where "SEC_WEBSOCKET_VERSION = ascii ''Sec-WebSocket-Version''"
definition SEC_WEBSOCKET_ACCEPT :: "byte list" where "SEC_WEBSOCKET_ACCEPT = ascii ''Sec-WebSocket-Accept''"

text \<open>Sixteen bytes from four calls of \<open>rand\<close>.\<close>

definition rand_key :: "'io net \<Rightarrow> 'io \<Rightarrow> byte list \<times> 'io" where
  "rand_key net io =
     (let (a, io) = net_rand net io; (b, io) = net_rand net io; (c, io) = net_rand net io; (d, io) = net_rand net io
      in (store_int a @ store_int b @ store_int c @ store_int d, io))"

definition upgrade_request :: "'io net \<Rightarrow> 'j http_message \<Rightarrow> 'io \<Rightarrow> ('j http_message \<times> 'io) option" where
  "upgrade_request net req io =
     (let req = SetHeader (ascii ''Connection'') (ascii ''Upgrade'') req;
          req = SetHeader (ascii ''Upgrade'') (ascii ''websocket'') req;
          keyed = (if GetHeader SEC_WEBSOCKET_KEY req = []
            then (case rand_key net io of (key, io) \<Rightarrow>
              map_option (\<lambda>ws_key. (SetHeader SEC_WEBSOCKET_KEY ws_key req, io)) (hv_base64_encode key))
            else Some (req, io))
      in map_option (\<lambda>(req, io).
           (if GetHeader SEC_WEBSOCKET_VERSION req = [] then SetHeader SEC_WEBSOCKET_VERSION (ascii ''13'') req else req, io)) keyed)"

text \<open>\<open>on_connect\<close> of the channel, and \<open>onConnection\<close> for a channel that is connected. The request is not sent as a frame.\<close>

definition on_connect :: "'j content_lib \<Rightarrow> 'io net \<Rightarrow> ('j, 'io) client \<Rightarrow> ('j, 'io) client outcome" where
  "on_connect lib net c =
     (let w = cl_world c in
      case (cw_channel w, cw_http_req w) of
        (Some ch, Some req) \<Rightarrow>
          let ch = ch\<lparr>cc_status := CH_CONNECTED\<rparr>; w = w\<lparr>cw_channel := Some ch\<rparr> in
          if isConnected ch then
            (let w = w\<lparr>cw_state := CL_CONNECTED\<rparr> in
             case upgrade_request net req (cw_io w) of None \<Rightarrow> Undefined
             | Some (req, io) \<Rightarrow>
                 (case request_Dump lib True True req of None \<Rightarrow> Undefined
                  | Some (http_msg, req) \<Rightarrow>
                      (case channel_write net ch http_msg io of (n, io) \<Rightarrow>
                         Done \<lparr>cl_world = w\<lparr>cw_http_req := Some req, cw_io := io, cw_state := CL_WS_UPGRADING\<rparr>,
                           cl_http = Some (InitResponse lib (HttpResponse_new lib) (snd (Http1Parser_new lib ()))),
                           cl_ws = cl_ws c\<rparr>)))
          else Done (c\<lparr>cl_world := w\<lparr>cw_state := CL_WS_CLOSED, cw_log := cw_log w @ [Onclose]\<rparr>\<rparr>)
      | _ \<Rightarrow> Undefined)"

text \<open>The lambda given to the frame parser.\<close>

definition ws_onmessage :: "'io net \<Rightarrow> int \<Rightarrow> byte list \<Rightarrow> ('j, 'io) client_world \<Rightarrow> ('j, 'io) client_world" where
  "ws_onmessage net opcode msg w =
     (let w = (case cw_channel w of None \<Rightarrow> w | Some ch \<Rightarrow> w\<lparr>cw_channel := Some (ch\<lparr>cc_opcode := opcode\<rparr>)\<rparr>) in
      if opcode = 8 then channel_close net w
      else if opcode = 9 then channel_control net sendPong w
      else if opcode = 10 then w\<lparr>cw_ping_cnt := 0\<rparr>
      else if opcode = 1 \<or> opcode = 2 then w\<lparr>cw_log := cw_log w @ [Onmessage msg]\<rparr>
      else w)"

text \<open>The macro \<open>HTTP_STATUS_IS_REDIRECT\<close> has no parentheses, so that its first alternative only is guarded by the
  \<open>redirect\<close> flag before it.\<close>

definition redirect_test :: "bool \<Rightarrow> nat \<Rightarrow> bool" where
  "redirect_test redirect status \<longleftrightarrow> redirect \<and> status = 301 \<or> status = 302 \<or> status = 303 \<or> status = 307 \<or> status = 308"

definition with_channel :: "(client_channel \<Rightarrow> client_channel) \<Rightarrow> ('j, 'io) client_world \<Rightarrow> ('j, 'io) client_world" where
  "with_channel f w = w\<lparr>cw_channel := map_option f (cw_channel w)\<rparr>"

definition start_heartbeat :: "'io net \<Rightarrow> ('j, 'io) client_world \<Rightarrow> ('j, 'io) client_world" where
  "start_heartbeat net w = (if cw_ping_interval w > 0
     then w\<lparr>cw_ping_cnt := 0, cw_io := net_heartbeat net (cw_ping_interval w) (cw_io w)\<rparr> else w)"

text \<open>A complete response: \<open>Inl\<close> when the callback returns in the middle, \<open>Inr\<close> when it goes on to the frames.\<close>

definition on_response :: "'j content_lib \<Rightarrow> 'io net \<Rightarrow> 'j http_message \<Rightarrow> ('j, 'io) client \<Rightarrow>
    ('j, 'io) client outcome + ('j, 'io) client" where
  "on_response lib net resp c =
     (let w = cl_world c in
      case cw_http_req w of None \<Rightarrow> Inl Undefined
      | Some req \<Rightarrow>
          if res_status_code resp \<noteq> 101 then
            (let location = GetHeader (ascii ''Location'') resp in
             if redirect_test (req_redirect req) (res_status_code resp) \<and> location \<noteq> [] then
               (let ws_url = (if startswith location (ascii ''http'')
                      then replace location (ascii ''http'') (ascii ''ws'') else location);
                    w = with_channel (\<lambda>ch. ch\<lparr>cc_onclose := False\<rparr>) w
                in Inl (case client_open lib net (c_str ws_url) [] w of
                     Done (r, w) \<Rightarrow> Done (c\<lparr>cl_world := w\<rparr>) | Uncaught \<Rightarrow> Uncaught | Undefined \<Rightarrow> Undefined))
             else Inl (Done (c\<lparr>cl_world := channel_close net w\<rparr>)))
          else
            (case ws_encode_key (net_junk net) (c_str (GetHeader SEC_WEBSOCKET_KEY req)) of None \<Rightarrow> Inl Undefined
             | Some ws_accept \<Rightarrow>
                 if c_str ws_accept \<noteq> c_str (GetHeader SEC_WEBSOCKET_ACCEPT resp)
                 then Inl (Done (c\<lparr>cl_world := channel_close net w\<rparr>))
                 else
                   let w = start_heartbeat net (w\<lparr>cw_state := CL_WS_OPENED\<rparr>)
                   in Inr (c\<lparr>cl_ws := Some (WebSocketParser_new (net_junk_opcode net) ()),
                             cl_world := w\<lparr>cw_log := cw_log w @ [Onopen]\<rparr>\<rparr>)))"

text \<open>The owner of the frame parser with the client as the world of its callback, and without it.\<close>

definition owner_in :: "'w \<Rightarrow> 'v ws_owner \<Rightarrow> 'w ws_owner" where
  "owner_in w o' = \<lparr>own_state = own_state o', own_opcode = own_opcode o', own_message = own_message o', own_world = w\<rparr>"

definition on_frames :: "'io net \<Rightarrow> byte list \<Rightarrow> ('j, 'io) client \<Rightarrow> ('j, 'io) client outcome" where
  "on_frames net dat c = (case cl_ws c of None \<Rightarrow> Undefined
     | Some (q, own) \<Rightarrow>
         (case FeedRecvData (Some (ws_onmessage net)) dat (q, owner_in (cl_world c) own) of
            (Thrown, r) \<Rightarrow> Uncaught
          | (Returned nparse, q, own) \<Rightarrow>
              let c = c\<lparr>cl_ws := Some (q, owner_in () own), cl_world := own_world own\<rparr> in
              Done (if nparse \<noteq> int (length dat) then c\<lparr>cl_world := channel_close net (cl_world c)\<rparr> else c)))"

definition continue_frames :: "'io net \<Rightarrow> byte list \<Rightarrow> ('j, 'io) client \<Rightarrow> ('j, 'io) client outcome" where
  "continue_frames net dat c =
     (if cw_state (cl_world c) = CL_WS_OPENED \<and> dat \<noteq> [] then on_frames net dat c else Done c)"

text \<open>\<open>onMessage\<close> for a read of the channel.\<close>

definition on_read :: "'j content_lib \<Rightarrow> 'io net \<Rightarrow> byte list \<Rightarrow> ('j, 'io) client \<Rightarrow> ('j, 'io) client outcome" where
  "on_read lib net dat c =
     (if cw_state (cl_world c) = CL_WS_UPGRADING then
        (case cl_http c of None \<Rightarrow> Undefined
         | Some (parser, hp) \<Rightarrow>
             (case http1_FeedRecvData HTTP_MAX_HEADER_SIZE None dat parser hp of
                Threw parser hp \<Rightarrow> Uncaught
              | Faulted \<Rightarrow> Undefined
              | Parsed nparse parser hp \<Rightarrow>
                  let c = c\<lparr>cl_http := Some (parser, hp)\<rparr> in
                  if nparse \<noteq> length dat \<and> http1_GetError parser \<noteq> HPE_OK
                  then Done (c\<lparr>cl_world := channel_close net (cl_world c)\<rparr>)
                  else if http1_IsComplete hp then
                    (case on_response lib net (h1_parsed hp) c of
                       Inl r \<Rightarrow> r | Inr c \<Rightarrow> continue_frames net (drop nparse dat) c)
                  else continue_frames net (drop nparse dat) c))
      else continue_frames net dat c)"

subsection \<open>Heartbeat and sending\<close>

definition on_heartbeat :: "'io net \<Rightarrow> ('j, 'io) client_world \<Rightarrow> ('j, 'io) client_world" where
  "on_heartbeat net w = (if cw_channel w = None then w
     else
       let old = cw_ping_cnt w; w = w\<lparr>cw_ping_cnt := old + 1\<rparr>
       in if old = 3 then channel_close net w else channel_control net sendPing w)"

definition client_send :: "'io net \<Rightarrow> byte list \<Rightarrow> int \<Rightarrow> ws_opcode \<Rightarrow>
    ('j, 'io) client_world \<Rightarrow> (int \<times> ('j, 'io) client_world) outcome" where
  "client_send net buf len opcode w = (case cw_channel w of None \<Rightarrow> Done (-1, w)
     | Some ch \<Rightarrow>
         (case WS_Channel.channel_send (net_rand net) (channel_write net ch) buf len opcode True (cc_ws ch, cw_io w) of
            None \<Rightarrow> Undefined
          | Some (n, ws, io) \<Rightarrow> Done (n, w\<lparr>cw_channel := Some (ch\<lparr>cc_ws := ws\<rparr>), cw_io := io\<rparr>)))"

definition client_send_text :: "'io net \<Rightarrow> byte list \<Rightarrow> ('j, 'io) client_world \<Rightarrow> (int \<times> ('j, 'io) client_world) outcome" where
  "client_send_text net msg w = client_send net msg (int (length msg)) WS_OPCODE_TEXT w"

subsection \<open>The event loop\<close>

text \<open>One step of the loop's thread: a call of the application, or a callback of the socket or its timer. A socket calls back
  as long as its close callback has not run.\<close>

definition live :: "('j, 'io) client \<Rightarrow> client_channel \<Rightarrow> bool" where
  "live c ch \<longleftrightarrow> cw_channel (cl_world c) = Some ch \<and> cc_open ch"

inductive client_step :: "'j content_lib \<Rightarrow> 'io net \<Rightarrow> ('j, 'io) client \<Rightarrow> ('j, 'io) client \<Rightarrow> bool"
  for lib :: "'j content_lib" and net :: "'io net" where
  app_open: "client_open lib net url headers (cl_world c) = Done (r, w) \<Longrightarrow> client_step lib net c (c\<lparr>cl_world := w\<rparr>)"
| app_close: "client_step lib net c (c\<lparr>cl_world := client_close net (cl_world c)\<rparr>)"
| app_send: "client_send net buf len opcode (cl_world c) = Done (r, w) \<Longrightarrow> client_step lib net c (c\<lparr>cl_world := w\<rparr>)"
| io_connected: "live c ch \<Longrightarrow> cc_status ch = CH_CONNECTING \<Longrightarrow> on_connect lib net c = Done c' \<Longrightarrow> client_step lib net c c'"
| io_read: "live c ch \<Longrightarrow> dat \<noteq> [] \<Longrightarrow> on_read lib net dat c = Done c' \<Longrightarrow> client_step lib net c c'"
| io_closed: "live c ch \<Longrightarrow> client_step lib net c (c\<lparr>cl_world := on_closed (cl_world c)\<rparr>)"
| io_heartbeat: "live c ch \<Longrightarrow> client_step lib net c (c\<lparr>cl_world := on_heartbeat net (cl_world c)\<rparr>)"

inductive client_run :: "'j content_lib \<Rightarrow> 'io net \<Rightarrow> ('j, 'io) client \<Rightarrow> ('j, 'io) client \<Rightarrow> bool"
  for lib :: "'j content_lib" and net :: "'io net" where
  start: "client_run lib net c c"
| step: "client_run lib net c c' \<Longrightarrow> client_step lib net c' c'' \<Longrightarrow> client_run lib net c c''"

inductive_cases client_stepE: "client_step lib net c c'"

subsection \<open>What a message can do to the client\<close>

lemma byte_notify_header_world:
  "byte_notify hdr_eff (q, u) = Some (q', u') \<Longrightarrow> own_world u' = own_world u"
  by (auto simp: byte_notify_def hdr_eff_def owner_header_def Let_def split: if_splits)

lemma byte_notify_end_world:
  assumes "\<And>op m x. P x \<Longrightarrow> P (g op m x)" and "byte_notify (end_eff (Some g)) (q, u) = Some (q', u')" and "P (own_world u)"
  shows "P (own_world u')"
  using assms by (auto simp: byte_notify_def end_eff_def owner_end_def Let_def split: if_splits)

lemma owner_body_world: "owner_body q bs u = (m, u') \<Longrightarrow> own_world u' = own_world u"
  by (auto simp: owner_body_def Let_def split: if_splits prod.splits)

lemma byte_header_done_world:
  assumes g: "\<And>op m x. P x \<Longrightarrow> P (g op m x)" and "byte_header_done hdr_eff (end_eff (Some g)) (q, u) = Some (q', u')"
    and "P (own_world u)"
  shows "P (own_world u')"
proof (cases "wp_length q \<noteq> 0")
  case True
  then show ?thesis using assms byte_notify_header_world [of "q\<lparr>wp_state := s_body, wp_require := wp_length q\<rparr>" u]
    by (simp add: byte_header_done_def)
next
  case False
  then obtain q1 u1 where "byte_notify hdr_eff (q\<lparr>wp_state := s_start\<rparr>, u) = Some (q1, u1)"
    "byte_notify (end_eff (Some g)) (q1, u1) = Some (q', u')"
    using assms(2) by (auto simp: byte_header_done_def split: Option.bind_splits)
  note n = this
  have "P (own_world u1)" using byte_notify_header_world [OF n(1)] assms(3) by simp
  then show ?thesis using byte_notify_end_world [where P = P and g = g, OF g n(2)] by simp
qed

lemma byte_length_done_world:
  assumes "\<And>op m x. P x \<Longrightarrow> P (g op m x)" and "byte_length_done hdr_eff (end_eff (Some g)) (q, u) = Some (q', u')"
    and "P (own_world u)"
  shows "P (own_world u')"
  using assms byte_header_done_world [where P = P and g = g] by (auto simp: byte_length_done_def split: if_splits)

lemma byte_step_world:
  assumes g: "\<And>op m x. P x \<Longrightarrow> P (g op m x)" and s: "byte_step hdr_eff owner_body (end_eff (Some g)) c (q, u) = Some (q', u')"
    and "P (own_world u)"
  shows "P (own_world u')"
proof (cases "wp_state q")
  case s_body
  then show ?thesis using s assms(3) owner_body_world [of q "[c]" u] byte_notify_end_world [where P = P, OF g]
    by (fastforce simp: byte_step_def Let_def split: if_splits prod.splits)
next
  case s_mask
  then show ?thesis using s assms(3) byte_header_done_world [where P = P, OF g]
    by (auto simp: byte_step_def Let_def split: if_splits)
qed (use s assms(3) byte_length_done_world [where P = P, OF g] in \<open>auto simp: byte_step_def Let_def split: if_splits\<close>)

lemma byte_feed_world:
  assumes g: "\<And>op m x. P x \<Longrightarrow> P (g op m x)"
  shows "byte_feed hdr_eff owner_body (end_eff (Some g)) bs (q, u) = Some (q', u') \<Longrightarrow> P (own_world u) \<Longrightarrow> P (own_world u')"
proof (induction bs arbitrary: q u)
  case (Cons b bs)
  from Cons.prems(1) obtain q1 u1 where st: "byte_step hdr_eff owner_body (end_eff (Some g)) b (q, u) = Some (q1, u1)"
    "byte_feed hdr_eff owner_body (end_eff (Some g)) bs (q1, u1) = Some (q', u')"
    by (cases "byte_step hdr_eff owner_body (end_eff (Some g)) b (q, u)") auto
  have "P (own_world u1)" by (rule byte_step_world [where P = P and g = g, OF g st(1) Cons.prems(2)])
  then show ?case by (rule Cons.IH [OF st(2)])
qed simp

text \<open>A read by the frame parser either throws or takes all bytes, and does to the world what its messages do.\<close>

lemma feed_world:
  assumes "ws_wf q" and "\<And>op m x. P x \<Longrightarrow> P (g op m x)" and "P (own_world u)"
    and "FeedRecvData (Some g) dat (q, u) = (Returned n, q', u')"
  shows "P (own_world u') \<and> ws_wf q' \<and> n = int (length dat)"
proof -
  have e: "websocket_parser_execute q u (cbs (Some g)) dat = (Returned n, q', u')"
    using assms(4) by (simp add: FeedRecvData_def)
  show ?thesis
  proof (cases "byte_feed hdr_eff owner_body (end_eff (Some g)) dat (strip_offset q, u)")
    case None
    then show ?thesis using owner.execute_feed [OF assms(1), where onMessage = "Some g" and data = dat and u = u] e by simp
  next
    case (Some r)
    obtain q1 u1 where r: "r = (q1, u1)" by (cases r)
    have "u' = u1" "ws_wf q'" "n = int (length dat)"
      using owner.execute_feed [OF assms(1), where onMessage = "Some g" and data = dat and u = u] e Some by (auto simp: r)
    then show ?thesis using byte_feed_world [where P = P, OF assms(2) Some [unfolded r] assms(3)] by simp
  qed
qed

end
