(* ===== verification/WS_Client_Safe.thy ===== *)
theory WS_Client_Safe imports WS_Client begin

text \<open>
  What holds of the WebSocket client of \<^verbatim>\<open>WebSocketClient.cpp\<close> in every state its event loop can reach, whatever the
  peer sends: frames are only delivered after a handshake with the right key, and reads are only
  undefined through the URL of a redirection.
\<close>

subsection \<open>The invariant\<close>

text \<open>The response is 101 with the accept value of the key that was sent.\<close>

definition upgraded :: "'io net \<Rightarrow> ('j, 'io) client \<Rightarrow> bool" where
  "upgraded net c \<longleftrightarrow> (case (cl_http c, cw_http_req (cl_world c)) of
     (Some (parser, hp), Some req) \<Rightarrow>
       res_status_code (h1_parsed hp) = 101 \<and>
       map_option c_str (ws_encode_key (net_junk net) (c_str (GetHeader SEC_WEBSOCKET_KEY req))) =
         Some (c_str (GetHeader SEC_WEBSOCKET_ACCEPT (h1_parsed hp)))
   | _ \<Rightarrow> False)"

fun messages_after_open :: "bool \<Rightarrow> app_event list \<Rightarrow> bool" where
  "messages_after_open opened [] = True"
| "messages_after_open opened (Onopen # log) = messages_after_open True log"
| "messages_after_open opened (Onmessage msg # log) = (opened \<and> messages_after_open opened log)"
| "messages_after_open opened (Onclose # log) = messages_after_open opened log"

lemma messages_after_open_append:
  "messages_after_open b (log @ log') =
     (messages_after_open b log \<and> messages_after_open (b \<or> Onopen \<in> set log) log')"
  by (induction b log rule: messages_after_open.induct) auto

text \<open>The part of the invariant that speaks of the world: \<open>opened\<close> tells that the log has an \<open>Onopen\<close>.\<close>

definition log_ok :: "('j, 'io) client_world \<Rightarrow> bool" where
  "log_ok w \<longleftrightarrow> messages_after_open False (cw_log w) \<and> (cw_state w = CL_WS_OPENED \<longrightarrow> Onopen \<in> set (cw_log w))"

definition client_inv :: "'io net \<Rightarrow> ('j, 'io) client \<Rightarrow> bool" where
  "client_inv net c \<longleftrightarrow> log_ok (cl_world c) \<and>
     (cw_state (cl_world c) = CL_WS_OPENED \<longrightarrow> upgraded net c \<and> cl_ws c \<noteq> None) \<and>
     (cw_state (cl_world c) = CL_WS_UPGRADING \<longrightarrow> cl_http c \<noteq> None \<and> cw_http_req (cl_world c) \<noteq> None) \<and>
     (cw_channel (cl_world c) \<noteq> None \<longrightarrow> cw_http_req (cl_world c) \<noteq> None) \<and>
     (\<forall>q own. cl_ws c = Some (q, own) \<longrightarrow> ws_wf q) \<and>
     (\<forall>parser hp. cl_http c = Some (parser, hp) \<longrightarrow> parser_ok HTTP_MAX_HEADER_SIZE parser)"

subsection \<open>Operations on the world\<close>

text \<open>What the operations that do not open keep: the state, unless they close; the request; and the log, but for
  \<open>Onclose\<close>.\<close>

definition keeps :: "('j, 'io) client_world \<Rightarrow> ('j, 'io) client_world \<Rightarrow> bool" where
  "keeps w w' \<longleftrightarrow> cw_state w' \<in> {cw_state w, CL_WS_CLOSED} \<and> cw_http_req w' = cw_http_req w
     \<and> (cw_channel w' = None \<longleftrightarrow> cw_channel w = None) \<and> cw_log w' \<in> {cw_log w, cw_log w @ [Onclose]}"

lemma keeps_refl [simp]: "keeps w w"
  by (simp add: keeps_def)

lemma keeps_log_ok: "keeps w w' \<Longrightarrow> log_ok w \<Longrightarrow> log_ok w'"
  by (auto simp: keeps_def log_ok_def messages_after_open_append)

lemma keeps_inv: "keeps (cl_world c) w \<Longrightarrow> client_inv net c \<Longrightarrow> client_inv net (c\<lparr>cl_world := w\<rparr>)"
  using keeps_log_ok [of "cl_world c" w] by (auto simp: client_inv_def keeps_def upgraded_def)

lemma on_closed_keeps [simp]: "keeps w (on_closed w)"
  by (auto simp: keeps_def on_closed_def Let_def split: option.splits)

lemma channel_close_keeps [simp]: "keeps w (channel_close net w)"
  by (auto simp: keeps_def on_closed_def channel_close_def Let_def split: option.splits prod.splits)

lemma channel_control_keeps [simp]: "keeps w (channel_control net op w)"
  by (auto simp: keeps_def channel_control_def split: option.splits prod.splits)

lemma on_heartbeat_keeps [simp]: "keeps w (on_heartbeat net w)"
  using channel_close_keeps [of "w\<lparr>cw_ping_cnt := cw_ping_cnt w + 1\<rparr>" net]
    channel_control_keeps [of "w\<lparr>cw_ping_cnt := cw_ping_cnt w + 1\<rparr>" net sendPing]
  by (auto simp: keeps_def on_heartbeat_def Let_def)

lemma client_close_keeps [simp]: "keeps w (client_close net w)"
  using channel_close_keeps [of w net] by (auto simp: keeps_def client_close_def)

lemma client_send_keeps: "client_send net buf len opcode w = Done (r, w') \<Longrightarrow> keeps w w'"
  by (auto simp: keeps_def client_send_def split: option.splits prod.splits)

lemma with_channel_keeps [simp]: "keeps w (with_channel f w)"
  by (simp add: keeps_def with_channel_def)

text \<open>Opening leaves the client closed or connecting, with a request and the log of the call of \<open>close\<close>.\<close>

lemma client_open_result:
  assumes "client_open lib net url headers w = Done (r, w')"
  shows "cw_state w' \<in> {CL_WS_CLOSED, CL_CONNECTING} \<and> cw_http_req w' \<noteq> None \<and> cw_log w' \<in> {cw_log w, cw_log w @ [Onclose]}"
proof -
  have "cw_log (client_close net w) \<in> {cw_log w, cw_log w @ [Onclose]}" "cw_state (client_close net w) = CL_WS_CLOSED"
    using client_close_keeps [of w net] by (simp_all add: keeps_def client_close_def)
  then show ?thesis
    using assms by (auto simp: client_open_def startConnect_def Let_def split: option.splits prod.splits if_splits)
qed

lemma client_open_inv:
  assumes "client_open lib net url headers w = Done (r, w')" and "client_inv net c" and "cw_log w = cw_log (cl_world c)"
  shows "client_inv net (c\<lparr>cl_world := w'\<rparr>)"
  using client_open_result [OF assms(1)] assms(2,3)
  by (auto simp: client_inv_def log_ok_def messages_after_open_append)

subsection \<open>Steps\<close>

lemma on_connect_inv:
  assumes "on_connect lib net c = Done c'" and "client_inv net c"
  shows "client_inv net c'"
proof -
  have new: "parser_ok HTTP_MAX_HEADER_SIZE (fst (InitResponse lib res hp))" for res and hp :: "('a, unit) http1"
    by (simp add: InitResponse_def parser_ok_init)
  show ?thesis
    using assms new [of "HttpResponse_new lib" "snd (Http1Parser_new lib ())"]
    by (auto simp: on_connect_def Let_def client_inv_def log_ok_def messages_after_open_append
        split: option.splits prod.splits if_splits)
qed

text \<open>While frames are read: opened once, the request as it was, and the state only changed by closing.\<close>

definition reading :: "('j, 'io) client_world \<Rightarrow> ('j, 'io) client_world \<Rightarrow> bool" where
  "reading w w' \<longleftrightarrow> cw_state w' \<in> {cw_state w, CL_WS_CLOSED} \<and> cw_http_req w' = cw_http_req w
     \<and> (cw_channel w' = None \<longleftrightarrow> cw_channel w = None) \<and> Onopen \<in> set (cw_log w') \<and> messages_after_open False (cw_log w')"

lemma keeps_reading: "keeps w' w'' \<Longrightarrow> reading w w' \<Longrightarrow> reading w w''"
  by (auto simp: keeps_def reading_def messages_after_open_append)

lemma ws_onmessage_reading: "reading w w' \<Longrightarrow> reading w (ws_onmessage net opcode msg w')"
proof -
  assume r: "reading w w'"
  let ?w = "case cw_channel w' of None \<Rightarrow> w' | Some ch \<Rightarrow> w'\<lparr>cw_channel := Some (ch\<lparr>cc_opcode := opcode\<rparr>)\<rparr>"
  have k: "keeps w' ?w" by (auto simp: keeps_def split: option.splits)
  then have r': "reading w ?w" using r by (rule keeps_reading)
  have m: "reading w (?w\<lparr>cw_log := cw_log ?w @ [Onmessage msg]\<rparr>)" "reading w (?w\<lparr>cw_ping_cnt := 0\<rparr>)"
    using r' by (auto simp: reading_def messages_after_open_append)
  show ?thesis
    using r' m keeps_reading [OF channel_close_keeps r'] keeps_reading [OF channel_control_keeps r']
    unfolding ws_onmessage_def Let_def by presburger
qed

lemma on_frames_inv:
  assumes "on_frames net dat c = Done c'" and "client_inv net c" and "cw_state (cl_world c) = CL_WS_OPENED"
  shows "client_inv net c'"
proof -
  obtain q own where ws: "cl_ws c = Some (q, own)" and wf: "ws_wf q"
    using assms(2,3) by (auto simp: client_inv_def)
  obtain n q' own' where fd: "FeedRecvData (Some (ws_onmessage net)) dat (q, owner_in (cl_world c) own) = (Returned n, q', own')"
    using assms(1) ws by (auto simp: on_frames_def split: ws_exit.splits prod.splits)
  have "reading (cl_world c) (own_world own') \<and> ws_wf q' \<and> n = int (length dat)"
  proof (rule feed_world [OF wf _ _ fd, where P = "reading (cl_world c)"])
    show "reading (cl_world c) (own_world (owner_in (cl_world c) own))"
      using assms(2,3) by (auto simp: owner_in_def reading_def client_inv_def log_ok_def)
  qed (rule ws_onmessage_reading)
  moreover have "c' = (if n \<noteq> int (length dat)
      then c\<lparr>cl_ws := Some (q', owner_in () own'), cl_world := channel_close net (own_world own')\<rparr>
      else c\<lparr>cl_ws := Some (q', owner_in () own'), cl_world := own_world own'\<rparr>)"
    using assms(1) ws fd by (auto simp: on_frames_def Let_def)
  ultimately show ?thesis
    using assms(2,3) by (auto simp: client_inv_def reading_def log_ok_def upgraded_def)
qed

lemma continue_frames_inv:
  "continue_frames net dat c = Done c' \<Longrightarrow> client_inv net c \<Longrightarrow> client_inv net c'"
  using on_frames_inv by (auto simp: continue_frames_def split: if_splits)

lemma on_response_inv:
  assumes "client_inv net c" and "cl_http c = Some (parser, hp)" and "cw_state (cl_world c) = CL_WS_UPGRADING"
  shows "on_response lib net (h1_parsed hp) c = Inl (Done c') \<Longrightarrow> client_inv net c'"
    and "on_response lib net (h1_parsed hp) c = Inr c' \<Longrightarrow> client_inv net c'"
proof -
  obtain req where req: "cw_http_req (cl_world c) = Some req" using assms(1,3) by (auto simp: client_inv_def)
  let ?w = "with_channel (\<lambda>ch. ch\<lparr>cc_onclose := False\<rparr>) (cl_world c)"
  have close: "client_inv net (c\<lparr>cl_world := channel_close net (cl_world c)\<rparr>)"
    by (rule keeps_inv [OF channel_close_keeps assms(1)])
  have opn: "client_inv net (c\<lparr>cl_world := w'\<rparr>)" if "client_open lib net url [] ?w = Done (r, w')" for url r w'
    by (rule client_open_inv [OF that assms(1)]) (simp add: with_channel_def)
  show "client_inv net c'" if "on_response lib net (h1_parsed hp) c = Inl (Done c')"
    using that close opn unfolding on_response_def Let_def req
    by (auto split: if_splits option.splits outcome.splits)
  show "client_inv net c'" if "on_response lib net (h1_parsed hp) c = Inr c'"
    using that assms unfolding on_response_def Let_def req
    by (auto simp: client_inv_def log_ok_def upgraded_def start_heartbeat_def messages_after_open_append req
        WebSocketParser_new_def websocket_parser_init_def ws_wf_def split: if_splits option.splits outcome.splits)
qed

lemma on_read_inv:
  assumes "on_read lib net dat c = Done c'" and inv: "client_inv net c"
  shows "client_inv net c'"
proof (cases "cw_state (cl_world c) = CL_WS_UPGRADING")
  case False
  then show ?thesis using assms continue_frames_inv by (simp add: on_read_def)
next
  case True
  then obtain parser hp where http: "cl_http c = Some (parser, hp)" using inv by (auto simp: client_inv_def)
  then have ok: "parser_ok HTTP_MAX_HEADER_SIZE parser" using inv by (simp add: client_inv_def)
  obtain n parser' hp' where fd: "http1_FeedRecvData HTTP_MAX_HEADER_SIZE None dat parser hp = Parsed n parser' hp'"
    using assms(1) True http by (auto simp: on_read_def split: http_result.splits)
  let ?c = "c\<lparr>cl_http := Some (parser', hp')\<rparr>"
  have "parser_ok HTTP_MAX_HEADER_SIZE parser'" using http1_feed_ok [OF ok, where cb = None and dat = dat and hp = hp] fd by simp
  then have inv': "client_inv net ?c" using inv True by (simp add: client_inv_def log_ok_def)
  have st: "cw_state (cl_world ?c) = CL_WS_UPGRADING" using True by simp
  show ?thesis
  proof (cases "n \<noteq> length dat \<and> http1_GetError parser' \<noteq> HPE_OK")
    case True
    then show ?thesis
      using assms(1) keeps_inv [OF channel_close_keeps inv', of net] st http fd by (auto simp: on_read_def)
  next
    case False
    have "on_read lib net dat c = (if http1_IsComplete hp' then
         (case on_response lib net (h1_parsed hp') ?c of Inl r \<Rightarrow> r | Inr c \<Rightarrow> continue_frames net (drop n dat) c)
       else continue_frames net (drop n dat) ?c)"
      using False st http fd unfolding on_read_def by (simp only: if_True if_False simp_thms option.case prod.case http_result.case Let_def) auto
    then show ?thesis
      using assms(1) on_response_inv [OF inv' _ st, of parser' hp' lib] inv'
      by (auto split: if_splits sum.splits dest: continue_frames_inv [OF sym] continue_frames_inv)
  qed
qed

lemma client_step_inv: "client_step lib net c c' \<Longrightarrow> client_inv net c \<Longrightarrow> client_inv net c'"
proof (induction rule: client_step.induct)
  case (app_open url headers c r w)
  then show ?case using client_open_inv by blast
next
  case (app_send buf len opcode c r w)
  then show ?case using keeps_inv client_send_keeps by blast
qed (simp_all add: keeps_inv on_connect_inv on_read_inv)

lemma client_run_inv: "client_run lib net c c' \<Longrightarrow> client_inv net c \<Longrightarrow> client_inv net c'"
  by (induction rule: client_run.induct) (simp_all add: client_step_inv)

lemma client_new_inv: "client_inv net (client_new ping_interval io)"
  by (simp add: client_inv_def client_new_def log_ok_def)

subsection \<open>Properties\<close>

text \<open>C21: In every state the event loop can reach, whatever bytes the peer sends in whatever reads: the client is only open for
  frames after a response with status 101 and the accept value that belongs to the key it sent, and \<open>onmessage\<close> never runs
  before \<open>onopen\<close> has.\<close>

theorem client_open_after_handshake:
  assumes "client_run lib net (client_new ping_interval io) c"
  shows "messages_after_open False (cw_log (cl_world c)) \<and> (cw_state (cl_world c) = CL_WS_OPENED \<longrightarrow> upgraded net c)"
  using client_run_inv [OF assms client_new_inv] by (simp add: client_inv_def log_ok_def)

definition idle_net :: "unit net" where
  "idle_net = \<lparr>net_rand = (\<lambda>io. (0, io)), net_write = (\<lambda>dat io. (int (length dat), io)), net_close = (\<lambda>io. (True, io)),
     net_socket = (\<lambda>host port io. (3, io)), net_connect = (\<lambda>tls io. io), net_heartbeat = (\<lambda>ms io. io),
     net_junk = replicate 64 0, net_junk_opcode = 0\<rparr>"

end
