(* ===== verification/HTTP_Plain.thy ===== *)
theory HTTP_Plain imports HTTP1 begin

text \<open>
  The text of a request without a body, such as an upgrade request: what \<open>Dump\<close> of
  \<^verbatim>\<open>lib/libhv/http/HttpMessage.cpp\<close> makes of it.
\<close>

definition no_body :: "'j content_lib \<Rightarrow> 'j http_message \<Rightarrow> bool" where
  "no_body lib m \<longleftrightarrow> msg_type m = HTTP_REQUEST \<and> cl_json_size lib (msg_json m) = 0 \<and> msg_form m = [] \<and> msg_kv m = [] \<and>
     msg_body m = [] \<and> msg_content m = None \<and> msg_content_length m = 0 \<and> msg_content_type m = CONTENT_TYPE_NONE \<and>
     msg_cookies m = [] \<and> find_header (ascii ''Content-Type'') m = None \<and> find_header (ascii ''Content-Length'') m = None"

definition header_line :: "byte list \<times> byte list \<Rightarrow> byte list" where
  "header_line h = fst h @ ascii '': '' @ snd h @ [CR, LF]"

lemma content_types_differ:
  "CONTENT_TYPE_NONE \<noteq> MULTIPART_FORM_DATA" "CONTENT_TYPE_NONE \<noteq> APPLICATION_JSON"
  "CONTENT_TYPE_NONE \<noteq> X_WWW_FORM_URLENCODED" "CONTENT_TYPE_NONE \<noteq> TEXT_EVENT_STREAM"
  by (simp_all add: CONTENT_TYPE_NONE_def MULTIPART_FORM_DATA_def APPLICATION_JSON_def X_WWW_FORM_URLENCODED_def
      TEXT_EVENT_STREAM_def)

lemma no_body_content_type: "no_body lib m \<Longrightarrow> FillContentType lib m = m"
  by (cases m) (simp add: no_body_def FillContentType_def guess_content_type_def append_boundary_def content_types_differ Let_def)

lemma no_body_fill: "no_body lib m \<Longrightarrow> DumpBody_fill lib m = m"
  using no_body_content_type [of lib m] by (simp add: DumpBody_fill_def content_types_differ Let_def) (simp add: no_body_def content_types_differ)

lemma no_body_content_length: "no_body lib m \<Longrightarrow> FillContentLength lib m = m"
  using no_body_fill [of lib m] by (cases m) (simp add: no_body_def FillContentLength_def Let_def)

lemma dump_headers_lines:
  "str \<noteq> [] \<Longrightarrow> hd str \<noteq> chr_colon \<Longrightarrow> fold dump_header hs str = str @ concat (map header_line hs)"
  by (induction hs arbitrary: str) (simp_all add: dump_header_def header_line_def)

lemma no_body_dump:
  assumes "no_body lib m" and "str \<noteq> []" and "hd str \<noteq> chr_colon"
  shows "dump_rest lib True True str m = Some (str @ concat (map header_line (msg_headers m)) @ [CR, LF], m)"
proof -
  have c: "msg_cookies m = []" "msg_content m = None" "msg_body m = []" "msg_content_length m = 0" "msg_type m = HTTP_REQUEST"
    using assms(1) by (simp_all add: no_body_def)
  have "DumpHeaders lib str m = Some (str @ concat (map header_line (msg_headers m)), m)"
    using c assms by (simp add: DumpHeaders_def no_body_content_type no_body_content_length dump_headers_lines Let_def)
  moreover have "DumpBody lib s m = Some (s, m)" for s
    using c assms(1) by (simp add: DumpBody_def no_body_fill Content_def ContentLength_def no_body_content_length Let_def)
  ultimately show ?thesis by (simp add: dump_rest_def)
qed

definition query_len :: "hurl_t \<Rightarrow> 16 word" where
  "query_len u = uf_len (url_fields u HV_URL_QUERY)"

lemma query_len_set [simp]: "f \<noteq> HV_URL_QUERY \<Longrightarrow> query_len (set_field f off n u) = query_len u"
  "query_len (u\<lparr>url_port := p\<rparr>) = query_len u" "query_len hurl_zero = 0"
  by (simp_all add: query_len_def set_field_def hurl_zero_def)

lemma query_len_userinfo [simp]: "query_len (fst (parse_userinfo s sp ep u)) = query_len u"
  by (simp add: parse_userinfo_def split: option.splits)

lemma query_len_port [simp]: "query_len (fst (parse_port s host ep u)) = query_len u"
  by (simp add: parse_port_def Let_def split: option.splits)

lemma strchr_from_None:
  assumes "c \<notin> set s" shows "strchr_from s c sp = None"
  unfolding strchr_from_def find_None_iff
proof
  assume "\<exists>i. i \<in> set [sp..<length s] \<and> s ! i = c"
  then obtain i where "i < length s" "s ! i = c" by auto
  then show False using assms nth_mem [of i s] by simp
qed

lemma no_query:
  assumes "chr_question \<notin> set s"
  shows "query_len (snd (hv_parse_url s)) = 0"
proof -
  have "query_len (parse_path s sp u) = query_len u" for sp u
    using strchr_from_None [OF assms] by (simp add: parse_path_def)
  then show ?thesis
    unfolding hv_parse_url_def Let_def by (simp add: case_prod_beta split: option.split)
qed

text \<open>Setting another header than the two about the body keeps a request without a body.\<close>

definition body_header :: "byte list \<Rightarrow> bool" where
  "body_header key \<longleftrightarrow> header_order.same (ascii ''Content-Type'') key \<or> header_order.same (ascii ''Content-Length'') key"

lemma SetHeader_ok: "header_order.map_ok (msg_headers m) \<Longrightarrow> header_order.map_ok (msg_headers (SetHeader key v m))"
  by (simp add: SetHeader_def header_order.map_set_ok)

lemma GetHeader_SetHeader:
  "header_order.map_ok (msg_headers m) \<Longrightarrow>
     GetHeader k (SetHeader key v m) = (if header_order.same k key then v else GetHeader k m)"
  by (simp add: GetHeader_def SetHeader_def header_order.map_find_set)

lemma no_body_SetHeader:
  assumes "no_body lib m" and "header_order.map_ok (msg_headers m)" and "\<not> body_header key"
  shows "no_body lib (SetHeader key v m) \<and> header_order.map_ok (msg_headers (SetHeader key v m))"
  using assms by (simp add: no_body_def SetHeader_def body_header_def header_order.map_find_set header_order.map_set_ok)

lemma not_body_header:
  "\<not> body_header (ascii ''Host'')" "\<not> body_header (ascii ''Connection'')" "\<not> body_header (ascii ''Upgrade'')"
  "\<not> body_header (ascii ''Sec-WebSocket-Key'')" "\<not> body_header (ascii ''Sec-WebSocket-Version'')"
  "\<not> body_header (ascii ''User-Agent'')" "\<not> body_header (ascii ''Accept'')"
  unfolding body_header_def header_order.same_def by code_simp+

lemma no_body_new:
  "cl_json_size lib (cl_json_empty lib) = 0 \<Longrightarrow>
     no_body lib (HttpRequest_new lib) \<and> header_order.map_ok (msg_headers (HttpRequest_new lib))"
proof -
  assume "cl_json_size lib (cl_json_empty lib) = 0"
  then have "no_body lib (blank_message lib HTTP_REQUEST) \<and> header_order.map_ok (msg_headers (blank_message lib HTTP_REQUEST))"
    by (simp add: no_body_def blank_message_def message_Init_def header_order.map_ok_def)
  then have "no_body lib (SetHeader (ascii ''Accept'') (ascii ''*/*'')
        (SetHeader (ascii ''User-Agent'') DEFAULT_HTTP_USER_AGENT (blank_message lib HTTP_REQUEST))) \<and>
      header_order.map_ok (msg_headers (SetHeader (ascii ''Accept'') (ascii ''*/*'')
        (SetHeader (ascii ''User-Agent'') DEFAULT_HTTP_USER_AGENT (blank_message lib HTTP_REQUEST))))"
    by (intro no_body_SetHeader) (simp_all add: no_body_SetHeader SetHeader_ok not_body_header)
  then show ?thesis by (simp add: HttpRequest_new_def request_Init_def no_body_def Let_def)
qed

text \<open>The URL is complete and has no query.\<close>

definition full_url :: "'j http_message \<Rightarrow> bool" where
  "full_url m \<longleftrightarrow> req_query_params m = [] \<and> (\<exists>c s. c_str (req_url m) = c # s \<and> c \<noteq> chr_slash) \<and>
     find_from (c_str (req_url m)) (ascii ''://'') 0 \<noteq> None \<and> chr_question \<notin> set (c_str (req_url m))"

definition plain_request :: "'j content_lib \<Rightarrow> 'j http_message \<Rightarrow> bool" where
  "plain_request lib m \<longleftrightarrow> no_body lib m \<and> header_order.map_ok (msg_headers m) \<and> full_url m"

lemma plain_SetHeader:
  "plain_request lib m \<Longrightarrow> \<not> body_header key \<Longrightarrow> plain_request lib (SetHeader key v m)"
  using no_body_SetHeader [of lib m key v] by (simp add: plain_request_def full_url_def SetHeader_def)

lemma plain_headers_ok: "plain_request lib m \<Longrightarrow> header_order.map_ok (msg_headers m)"
  by (simp add: plain_request_def)

text \<open>\<open>ParseUrl\<close> keeps a plain request plain, and all its headers but \<open>Host\<close>.\<close>

lemma ParseUrl_plain:
  fixes m :: "'j http_message"
  assumes "plain_request lib m"
  shows "\<exists>m'. ParseUrl m = Some m' \<and> plain_request lib m' \<and>
    (\<forall>k. \<not> header_order.same k (ascii ''Host'') \<longrightarrow> GetHeader k m' = GetHeader k m)"
proof -
  have full: "full_url m" using assms by (simp add: plain_request_def)
  obtain c s where u: "c_str (req_url m) = c # s" "c \<noteq> chr_slash" "req_query_params m = []"
    "find_from (c # s) (ascii ''://'') 0 \<noteq> None" using full by (fastforce simp: full_url_def)
  then have d: "DumpUrl m = m" by (cases "req_url m") (simp_all add: DumpUrl_def append_query_def c_str_def Let_def)
  have q: "query_len (snd (hv_parse_url (c_str (req_url m)))) = 0"
    using full by (intro no_query) (simp add: full_url_def)
  have f: "plain_request lib (FillHost h p x)" if "plain_request lib x" for h p and x :: "'j http_message"
    using that by (simp add: FillHost_def plain_SetHeader not_body_header)
  have r: "plain_request lib (x\<lparr>req_path := p\<rparr>) = plain_request lib x"
    "plain_request lib (x\<lparr>req_scheme := s, req_host := h, req_port := n\<rparr>) = plain_request lib x"
    for p s h n and x :: "'j http_message"
    by (simp_all add: plain_request_def no_body_def full_url_def)
  have g: "GetHeader k (FillHost h p x) = GetHeader k x"
    if "header_order.map_ok (msg_headers x)" "\<not> header_order.same k (ascii ''Host'')" for k h p and x :: "'j http_message"
    using that by (simp add: FillHost_def GetHeader_SetHeader)
  have s: "GetHeader k (x\<lparr>req_path := p\<rparr>) = GetHeader k x"
    "GetHeader k (x\<lparr>req_scheme := s, req_host := h, req_port := n\<rparr>) = GetHeader k x" for k p s h n and x :: "'j http_message"
    by (simp_all add: GetHeader_def)
  show ?thesis
    using assms plain_headers_ok [OF assms] unfolding ParseUrl_def d by (simp add: Let_def q [unfolded query_len_def] f r g s)
qed

lemma method_first:
  "ascii (http_method_str m) \<noteq> [] \<and> hd (ascii (http_method_str m)) \<noteq> chr_colon"
proof -
  have "list_all (\<lambda>m. ascii (http_method_str m) \<noteq> [] \<and> hd (ascii (http_method_str m)) \<noteq> chr_colon) (HTTP_CUSTOM_METHOD # method_list)"
    by code_simp
  moreover have "m \<in> set (HTTP_CUSTOM_METHOD # method_list)" by (cases m) (simp_all add: method_list_def)
  ultimately show ?thesis by (auto simp: list_all_iff)
qed

text \<open>\<open>Dump\<close> of a request without a body for a complete URL never fails: it is the request line, one line for each header
  in the order of the map, and an empty line.\<close>

definition request_lines :: "'j http_message \<Rightarrow> byte list" where
  "request_lines m = request_line m @ concat (map header_line (msg_headers m)) @ [CR, LF]"

lemma request_text:
  assumes "plain_request lib m"
  shows "\<exists>m'. request_Dump lib True True m = Some (request_lines m', m') \<and>
    (\<forall>k. \<not> header_order.same k (ascii ''Host'') \<longrightarrow> GetHeader k m' = GetHeader k m)"
proof -
  obtain m' where m': "ParseUrl m = Some m'" "plain_request lib m'"
    "\<forall>k. \<not> header_order.same k (ascii ''Host'') \<longrightarrow> GetHeader k m' = GetHeader k m"
    using ParseUrl_plain [OF assms] by blast
  then have n: "no_body lib m'" by (simp add: plain_request_def)
  have "request_line m' \<noteq> [] \<and> hd (request_line m') \<noteq> chr_colon"
    using method_first [of "req_method m'"] by (simp add: request_line_def)
  then show ?thesis using m' no_body_dump [OF n] by (simp add: request_Dump_def request_lines_def)
qed

text \<open>A request to \<^verbatim>\<open>http://h/\<close>.\<close>

definition example_request :: "unit http_message" where
  "example_request = (HttpRequest_new plain_lib)\<lparr>req_url := [104, 116, 116, 112, 58, 47, 47, 104, 47]\<rparr>"

lemma plain_example: "plain_request plain_lib example_request"
proof -
  have "no_body plain_lib example_request" "header_order.map_ok (msg_headers example_request)"
    using no_body_new [of plain_lib] by (simp_all add: example_request_def plain_lib_def no_body_def)
  moreover have "full_url example_request"
    by (simp add: full_url_def example_request_def HttpRequest_new_def blank_message_def request_Init_def message_Init_def
        SetHeader_def Let_def find_from_def ascii_def upt_rec_numeral find_None_iff) code_simp?
  ultimately show ?thesis by (simp add: plain_request_def)
qed

end
