(* ===== verification/WS_Client_Open.thy ===== *)
theory WS_Client_Open imports WS_Client_Safe HTTP_Plain begin

text \<open>
  The opening handshake of \<^verbatim>\<open>WebSocketClient.cpp\<close>: the request that \<open>onConnection\<close> writes.
\<close>

subsection \<open>The upgrade request\<close>

lemma upgrade_keys_differ:
  "\<not> header_order.same (ascii ''Connection'') (ascii ''Upgrade'')" "\<not> header_order.same (ascii ''Upgrade'') (ascii ''Connection'')"
  "\<not> header_order.same (ascii ''Connection'') SEC_WEBSOCKET_KEY" "\<not> header_order.same (ascii ''Upgrade'') SEC_WEBSOCKET_KEY"
  "\<not> header_order.same (ascii ''Connection'') SEC_WEBSOCKET_VERSION" "\<not> header_order.same (ascii ''Upgrade'') SEC_WEBSOCKET_VERSION"
  "\<not> header_order.same SEC_WEBSOCKET_KEY SEC_WEBSOCKET_VERSION" "\<not> header_order.same SEC_WEBSOCKET_KEY (ascii ''Upgrade'')"
  "\<not> header_order.same SEC_WEBSOCKET_KEY (ascii ''Connection'')" "\<not> header_order.same SEC_WEBSOCKET_VERSION SEC_WEBSOCKET_KEY"
  "\<not> header_order.same SEC_WEBSOCKET_VERSION (ascii ''Upgrade'')" "\<not> header_order.same SEC_WEBSOCKET_VERSION (ascii ''Connection'')"
  "\<not> header_order.same SEC_WEBSOCKET_KEY (ascii ''Host'')" "\<not> header_order.same SEC_WEBSOCKET_VERSION (ascii ''Host'')"
  "\<not> header_order.same (ascii ''Connection'') (ascii ''Host'')" "\<not> header_order.same (ascii ''Upgrade'') (ascii ''Host'')"
  unfolding header_order.same_def by code_simp+

lemma rand_key_length: "length (fst (rand_key net io)) = 16"
  by (simp add: rand_key_def store_int_def Let_def split: prod.split)

text \<open>The key is the one the application has set, or the base64 of sixteen bytes of \<open>rand\<close>.\<close>

definition request_key :: "'io net \<Rightarrow> 'j http_message \<Rightarrow> 'io \<Rightarrow> byte list" where
  "request_key net req io = (if GetHeader SEC_WEBSOCKET_KEY req = [] then rfc4648 (fst (rand_key net io))
     else GetHeader SEC_WEBSOCKET_KEY req)"

definition request_io :: "'io net \<Rightarrow> 'j http_message \<Rightarrow> 'io \<Rightarrow> 'io" where
  "request_io net req io = (if GetHeader SEC_WEBSOCKET_KEY req = [] then snd (rand_key net io) else io)"

lemma upgrade_request_plain:
  assumes "plain_request lib req"
  shows "\<exists>req'. upgrade_request net req io = Some (req', request_io net req io) \<and> plain_request lib req' \<and>
    GetHeader (ascii ''Connection'') req' = ascii ''Upgrade'' \<and> GetHeader (ascii ''Upgrade'') req' = ascii ''websocket'' \<and>
    GetHeader SEC_WEBSOCKET_KEY req' = request_key net req io \<and>
    GetHeader SEC_WEBSOCKET_VERSION req' =
      (if GetHeader SEC_WEBSOCKET_VERSION req = [] then ascii ''13'' else GetHeader SEC_WEBSOCKET_VERSION req)"
proof -
  define r2 where "r2 = SetHeader (ascii ''Upgrade'') (ascii ''websocket'') (SetHeader (ascii ''Connection'') (ascii ''Upgrade'') req)"
  have p2: "plain_request lib r2" using assms by (simp add: r2_def plain_SetHeader not_body_header)
  note ok = plain_headers_ok
  have g2: "GetHeader (ascii ''Connection'') r2 = ascii ''Upgrade''" "GetHeader (ascii ''Upgrade'') r2 = ascii ''websocket''"
    "GetHeader SEC_WEBSOCKET_KEY r2 = GetHeader SEC_WEBSOCKET_KEY req"
    "GetHeader SEC_WEBSOCKET_VERSION r2 = GetHeader SEC_WEBSOCKET_VERSION req"
    using ok [OF assms] by (simp_all add: r2_def GetHeader_SetHeader SetHeader_ok upgrade_keys_differ)
  define r3 where "r3 = (if GetHeader SEC_WEBSOCKET_KEY r2 = [] then SetHeader SEC_WEBSOCKET_KEY (rfc4648 (fst (rand_key net io))) r2 else r2)"
  have p3: "plain_request lib r3" using p2 by (simp add: r3_def plain_SetHeader not_body_header SEC_WEBSOCKET_KEY_def)
  have g3: "GetHeader (ascii ''Connection'') r3 = ascii ''Upgrade''" "GetHeader (ascii ''Upgrade'') r3 = ascii ''websocket''"
    "GetHeader SEC_WEBSOCKET_KEY r3 = request_key net req io"
    "GetHeader SEC_WEBSOCKET_VERSION r3 = GetHeader SEC_WEBSOCKET_VERSION req"
    using ok [OF p2] by (simp_all add: r3_def g2 request_key_def GetHeader_SetHeader SetHeader_ok upgrade_keys_differ)
  have "hv_base64_encode (fst (rand_key net io)) = Some (rfc4648 (fst (rand_key net io)))"
    by (rule encode_rfc) (use rand_key_length [of net io] in auto)
  then have u: "upgrade_request net req io = Some (if GetHeader SEC_WEBSOCKET_VERSION r3 = []
      then SetHeader SEC_WEBSOCKET_VERSION (ascii ''13'') r3 else r3, request_io net req io)"
    by (simp add: upgrade_request_def r2_def [symmetric] r3_def request_io_def g2(3) Let_def case_prod_beta)
  have "plain_request lib (SetHeader SEC_WEBSOCKET_VERSION (ascii ''13'') r3)"
    using p3 by (simp add: plain_SetHeader not_body_header SEC_WEBSOCKET_VERSION_def)
  then show ?thesis
    using p3 g3 ok [OF p3] by (simp add: u GetHeader_SetHeader upgrade_keys_differ)
qed

lemma on_connect_written:
  assumes "cw_channel (cl_world c) = Some ch" and "cc_open ch" and "cw_http_req (cl_world c) = Some req" and "plain_request lib req"
  shows "\<exists>req'. on_connect lib net c = Done \<lparr>cl_world = (cl_world c)\<lparr>cw_channel := Some (ch\<lparr>cc_status := CH_CONNECTED\<rparr>),
       cw_http_req := Some req', cw_state := CL_WS_UPGRADING,
       cw_io := snd (net_write net (request_lines req') (request_io net req (cw_io (cl_world c))))\<rparr>,
     cl_http = Some (InitResponse lib (HttpResponse_new lib) (snd (Http1Parser_new lib ()))), cl_ws = cl_ws c\<rparr> \<and>
    GetHeader (ascii ''Connection'') req' = ascii ''Upgrade'' \<and> GetHeader (ascii ''Upgrade'') req' = ascii ''websocket'' \<and>
    GetHeader SEC_WEBSOCKET_KEY req' = request_key net req (cw_io (cl_world c)) \<and>
    GetHeader SEC_WEBSOCKET_VERSION req' =
      (if GetHeader SEC_WEBSOCKET_VERSION req = [] then ascii ''13'' else GetHeader SEC_WEBSOCKET_VERSION req)"
proof -
  obtain r where r: "upgrade_request net req (cw_io (cl_world c)) = Some (r, request_io net req (cw_io (cl_world c)))" "plain_request lib r"
    "GetHeader (ascii ''Connection'') r = ascii ''Upgrade''" "GetHeader (ascii ''Upgrade'') r = ascii ''websocket''"
    "GetHeader SEC_WEBSOCKET_KEY r = request_key net req (cw_io (cl_world c))"
    "GetHeader SEC_WEBSOCKET_VERSION r =
      (if GetHeader SEC_WEBSOCKET_VERSION req = [] then ascii ''13'' else GetHeader SEC_WEBSOCKET_VERSION req)"
    using upgrade_request_plain [OF assms(4)] by metis
  obtain req' where d: "request_Dump lib True True r = Some (request_lines req', req')"
    "\<forall>k. \<not> header_order.same k (ascii ''Host'') \<longrightarrow> GetHeader k req' = GetHeader k r"
    using request_text [OF r(2)] by blast
  show ?thesis
    by (rule exI [of _ req']) (use assms(1-3) d r(1,3-) upgrade_keys_differ in
      \<open>simp add: on_connect_def isConnected_def isOpened_def channel_write_def Let_def case_prod_beta\<close>)
qed

text \<open>C23: When the connection is up, a client whose request has no body and a complete URL writes the text of exactly one
  upgrade request: request line, headers and empty line, with \<open>Connection: Upgrade\<close>, \<open>Upgrade: websocket\<close>,
  the key and the version. It keeps this request, by whose key it will judge the answer, and waits for the response.\<close>

theorem upgrade_request_written:
  assumes "cw_channel (cl_world c) = Some ch" and "cc_open ch" and "cw_http_req (cl_world c) = Some req" and "plain_request lib req"
  shows "\<exists>c' req'. on_connect lib net c = Done c' \<and> cw_state (cl_world c') = CL_WS_UPGRADING \<and> cl_http c' \<noteq> None \<and>
    cw_http_req (cl_world c') = Some req' \<and> cw_io (cl_world c') = snd (net_write net (request_lines req') (request_io net req (cw_io (cl_world c)))) \<and>
    GetHeader (ascii ''Connection'') req' = ascii ''Upgrade'' \<and> GetHeader (ascii ''Upgrade'') req' = ascii ''websocket'' \<and>
    GetHeader SEC_WEBSOCKET_KEY req' = request_key net req (cw_io (cl_world c)) \<and>
    GetHeader SEC_WEBSOCKET_VERSION req' =
      (if GetHeader SEC_WEBSOCKET_VERSION req = [] then ascii ''13'' else GetHeader SEC_WEBSOCKET_VERSION req)"
  using on_connect_written [OF assms, of net] by fastforce

text \<open>A client whose connection is being made, over a transport that logs what is written.\<close>

definition log_net :: "byte list net" where
  "log_net = \<lparr>net_rand = log_rand, net_write = log_write, net_close = (\<lambda>io. (True, io)),
     net_socket = (\<lambda>host port io. (3, io)), net_connect = (\<lambda>tls io. io), net_heartbeat = (\<lambda>ms io. io),
     net_junk = replicate 64 0, net_junk_opcode = 0\<rparr>"

definition connecting_channel :: client_channel where
  "connecting_channel = new_channel\<lparr>cc_status := CH_CONNECTING, cc_onclose := True\<rparr>"

definition connecting_client :: "(unit, byte list) client" where
  "connecting_client = (client_new 3000 [])\<lparr>cl_world := (cl_world (client_new 3000 []))\<lparr>cw_state := CL_CONNECTING,
     cw_http_req := Some example_request, cw_channel := Some connecting_channel\<rparr>\<rparr>"

lemma connecting_client_connects: "\<exists>c'. on_connect plain_lib log_net connecting_client = Done c'"
  using on_connect_written [OF _ _ _ plain_example, of connecting_client connecting_channel log_net]
  by (auto simp: connecting_client_def connecting_channel_def new_channel_def)

theorem upgrade_request_written_witness:
  "\<exists>c' req'. on_connect plain_lib log_net connecting_client = Done c' \<and> cw_state (cl_world c') = CL_WS_UPGRADING \<and>
    cl_http c' \<noteq> None \<and> cw_http_req (cl_world c') = Some req' \<and> 
    cw_io (cl_world c') = snd (net_write log_net (request_lines req') (request_io log_net example_request (cw_io (cl_world connecting_client)))) \<and>
    GetHeader (ascii ''Connection'') req' = ascii ''Upgrade'' \<and> GetHeader (ascii ''Upgrade'') req' = ascii ''websocket'' \<and>
    GetHeader SEC_WEBSOCKET_KEY req' = request_key log_net example_request (cw_io (cl_world connecting_client)) \<and>
    GetHeader SEC_WEBSOCKET_VERSION req' =
      (if GetHeader SEC_WEBSOCKET_VERSION example_request = [] then ascii ''13'' else GetHeader SEC_WEBSOCKET_VERSION example_request)"
  by (rule upgrade_request_written [OF _ _ _ plain_example, where ch = connecting_channel])
    (simp_all add: connecting_client_def connecting_channel_def new_channel_def)

end
