(* ===== verification/WS_Client_Msg.thy ===== *)
theory WS_Client_Msg imports WS_Client_Open begin

text \<open>
  The open WebSocket client of \<^verbatim>\<open>WebSocketClient.cpp\<close> at work: messages of the peer reach \<open>onmessage\<close> whatever the
  reads, the heartbeat closes a silent connection, and what happens to messages sent before the handshake
  and received after a close frame, and to redirections.
\<close>

subsection \<open>Reading\<close>

fun client_reads :: "'j content_lib \<Rightarrow> 'io net \<Rightarrow> byte list list \<Rightarrow> ('j, 'io) client \<Rightarrow> ('j, 'io) client outcome" where
  "client_reads lib net [] c = Done c"
| "client_reads lib net (r # rs) c = (case on_read lib net r c of Done c \<Rightarrow> client_reads lib net rs c | e \<Rightarrow> e)"

definition with_frames :: "websocket_parser \<Rightarrow> ('j, 'io) client_world ws_owner \<Rightarrow> ('j, 'io) client \<Rightarrow> ('j, 'io) client" where
  "with_frames q own c = c\<lparr>cl_ws := Some (q, owner_in () own), cl_world := own_world own\<rparr>"

lemma owner_in_owner_in [simp]: "owner_in w (owner_in v own) = owner_in w own"
  by (simp add: owner_in_def)

lemma owner_in_self [simp]: "owner_in (own_world own) own = own"
  by (simp add: owner_in_def)

text \<open>One read of an open client is one call of the frame parser.\<close>

lemma on_read_open:
  assumes "cw_state (own_world own) = CL_WS_OPENED" and "r \<noteq> []" and "ws_wf q"
    and "FeedRecvData (Some (ws_onmessage net)) r (q, own) = (Returned n, q', own')"
  shows "on_read lib net r (with_frames q own c) = Done (with_frames q' own' c)"
proof -
  have "n = int (length r)"
    using feed_world [OF assms(3) _ _ assms(4), where P = "\<lambda>_. True"] by simp
  then show ?thesis
    using assms by (simp add: on_read_def continue_frames_def on_frames_def with_frames_def)
qed

lemma closed_stays:
  "cw_state w = CL_WS_CLOSED \<Longrightarrow> cw_state (ws_onmessage net opcode msg w) = CL_WS_CLOSED"
proof -
  assume c: "cw_state w = CL_WS_CLOSED"
  let ?w = "case cw_channel w of None \<Rightarrow> w | Some ch \<Rightarrow> w\<lparr>cw_channel := Some (ch\<lparr>cc_opcode := opcode\<rparr>)\<rparr>"
  have "cw_state ?w = CL_WS_CLOSED" using c by (simp split: option.splits)
  then show ?thesis
    using channel_close_keeps [of ?w net] channel_control_keeps [of ?w net sendPong]
    unfolding ws_onmessage_def Let_def by (auto simp: keeps_def)
qed

lemma feed_reads_closed:
  "feed_reads (Some (ws_onmessage net)) rs (q, own) = Some (q', own') \<Longrightarrow> ws_wf q \<Longrightarrow>
     cw_state (own_world own) = CL_WS_CLOSED \<Longrightarrow> cw_state (own_world own') = CL_WS_CLOSED"
proof (induction rs arbitrary: q own)
  case (Cons r rs)
  obtain n q1 own1 where f: "FeedRecvData (Some (ws_onmessage net)) r (q, own) = (Returned n, q1, own1)"
    "feed_reads (Some (ws_onmessage net)) rs (q1, own1) = Some (q', own')"
    using Cons.prems(1) by (auto split: prod.splits ws_exit.splits if_splits)
  have "cw_state (own_world own1) = CL_WS_CLOSED \<and> ws_wf q1 \<and> n = int (length r)"
    by (rule feed_world [OF Cons.prems(2) _ _ f(1), where P = "\<lambda>w. cw_state w = CL_WS_CLOSED"])
      (simp_all add: closed_stays Cons.prems(3))
  then show ?case using Cons.IH [OF f(2)] by simp
qed simp

lemma world_opened_or_closed:
  assumes "ws_wf q" and "FeedRecvData (Some (ws_onmessage net)) r (q, own) = (Returned n, q1, own1)"
    and "cw_state (own_world own) = CL_WS_OPENED" and "Onopen \<in> set (cw_log (own_world own))"
    and "messages_after_open False (cw_log (own_world own))"
  shows "cw_state (own_world own1) \<in> {CL_WS_OPENED, CL_WS_CLOSED} \<and> ws_wf q1 \<and> Onopen \<in> set (cw_log (own_world own1))
    \<and> messages_after_open False (cw_log (own_world own1))"
  using feed_world [OF assms(1) _ _ assms(2), where P = "reading (own_world own)"] assms(3-5) ws_onmessage_reading
  by (fastforce simp: reading_def)

text \<open>If the client is open after the reads, it was open all along.\<close>

lemma client_reads_feed:
  "feed_reads (Some (ws_onmessage net)) rs (q, own) = Some (q', own') \<Longrightarrow> ws_wf q \<Longrightarrow> [] \<notin> set rs \<Longrightarrow>
     log_ok (own_world own) \<Longrightarrow> cw_state (own_world own) = CL_WS_OPENED \<Longrightarrow> cw_state (own_world own') = CL_WS_OPENED \<Longrightarrow>
     client_reads lib net rs (with_frames q own c) = Done (with_frames q' own' c)"
proof (induction rs arbitrary: q own)
  case (Cons r rs)
  obtain n q1 own1 where f: "FeedRecvData (Some (ws_onmessage net)) r (q, own) = (Returned n, q1, own1)"
    "feed_reads (Some (ws_onmessage net)) rs (q1, own1) = Some (q', own')"
    using Cons.prems(1) by (auto split: prod.splits ws_exit.splits if_splits)
  have l: "Onopen \<in> set (cw_log (own_world own))" "messages_after_open False (cw_log (own_world own))"
    using Cons.prems(4,5) by (simp_all add: log_ok_def)
  note w = world_opened_or_closed [OF Cons.prems(2) f(1) Cons.prems(5) l]
  have "cw_state (own_world own1) \<noteq> CL_WS_CLOSED"
    using feed_reads_closed [OF f(2)] w Cons.prems(6) by auto
  then have o1: "cw_state (own_world own1) = CL_WS_OPENED" "log_ok (own_world own1)" using w by (auto simp: log_ok_def)
  have "client_reads lib net rs (with_frames q1 own1 c) = Done (with_frames q' own' c)"
    by (rule Cons.IH [OF f(2)]) (use Cons.prems w o1 in simp_all)
  moreover have "on_read lib net r (with_frames q own c) = Done (with_frames q1 own1 c)"
    by (rule on_read_open [OF Cons.prems(5) _ Cons.prems(2) f(1)]) (use Cons.prems(3) in auto)
  ultimately show ?case by simp
qed simp

subsection \<open>The client between two messages\<close>

definition ready :: "('j, 'io) client \<Rightarrow> bool" where
  "ready c \<longleftrightarrow> cw_state (cl_world c) = CL_WS_OPENED \<and> log_ok (cl_world c) \<and>
     (case cl_ws c of None \<Rightarrow> False | Some (q, own) \<Rightarrow> at_frame_start q \<and> own_state own \<in> {WS_FRAME_BEGIN, WS_FRAME_FIN})"

lemma frame_start_wf: "at_frame_start q \<Longrightarrow> ws_wf q"
  by (simp add: at_frame_start_def ws_wf_def)

lemma ready_frames:
  assumes "ready c"
  obtains q own where "c = with_frames q (owner_in (cl_world c) own) c" "at_frame_start q"
    "own_state own \<in> {WS_FRAME_BEGIN, WS_FRAME_FIN}" "cl_ws c = Some (q, own)"
proof -
  obtain q own where "cl_ws c = Some (q, own)" "at_frame_start q" "own_state own \<in> {WS_FRAME_BEGIN, WS_FRAME_FIN}"
    using assms by (auto simp: ready_def split: option.splits prod.splits)
  moreover from this have "c = with_frames q (owner_in (cl_world c) own) c"
    by (cases c) (simp add: with_frames_def owner_in_def)
  ultimately show ?thesis using that by blast
qed

text \<open>The reads carry the frames of one text message.\<close>

lemma read_text:
  assumes "ready c" and "one_message WS_OPCODE_TEXT buf fs" and "concat rs = concat (map frame_bytes fs)" and "[] \<notin> set rs"
  shows "\<exists>c'. client_reads lib net rs c = Done c' \<and> ready c' \<and>
    cw_log (cl_world c') = cw_log (cl_world c) @ [Onmessage buf] \<and> cl_http c' = cl_http c"
proof -
  obtain q own where c: "c = with_frames q (owner_in (cl_world c) own) c" "at_frame_start q"
    "own_state own \<in> {WS_FRAME_BEGIN, WS_FRAME_FIN}" "cl_ws c = Some (q, own)"
    by (rule ready_frames [OF assms(1)])
  define u where "u = owner_in (cl_world c) own"
  have u: "own_world u = cl_world c" "own_state u \<in> {WS_FRAME_BEGIN, WS_FRAME_FIN}"
    using c(3) by (auto simp: u_def owner_in_def)
  define w' where "w' = ws_onmessage net 1 buf (cl_world c)"
  have w': "cw_state w' = CL_WS_OPENED" "cw_log w' = cw_log (cl_world c) @ [Onmessage buf]" "log_ok w'"
    using assms(1) by (auto simp: w'_def ws_onmessage_def Let_def ready_def log_ok_def messages_after_open_append split: option.splits)
  define u' where "u' = \<lparr>own_state = WS_FRAME_FIN, own_opcode = 1, own_message = buf, own_world = w'\<rparr>"
  have "fold (deliver_frame (Some (ws_onmessage net))) fs u = u'"
    using one_message_delivered [OF assms(2) _ u(2), of "ws_onmessage net"] u(1) by (simp add: u'_def w'_def)
  then obtain q' where f: "feed_reads (Some (ws_onmessage net)) rs (q, u) = Some (q', u')" "at_frame_start q'"
    using receive_reads [OF _ assms(3) c(2), of "Some (ws_onmessage net)" u] assms(2) by (auto simp: one_message_def)
  have "client_reads lib net rs (with_frames q u c) = Done (with_frames q' u' c)"
    by (rule client_reads_feed [OF f(1) frame_start_wf [OF c(2)] assms(4)])
      (use assms(1) u w' in \<open>simp_all add: ready_def u'_def\<close>)
  then have "client_reads lib net rs c = Done (with_frames q' u' c)" using c(1) by (simp add: u_def)
  then show ?thesis
    using w' f(2) by (intro exI [of _ "with_frames q' u' c"]) (auto simp: with_frames_def ready_def u'_def owner_in_def)
qed

subsection \<open>Properties\<close>

text \<open>C24: End to end: a text message of up to 2^31 - 15 bytes that the peer sends with \<open>WebSocketChannel::send\<close> over a transport
  that accepts every byte reaches \<open>onmessage\<close> of an open client exactly once and unchanged, whatever reads the bytes
  arrive in, and leaves the client open and ready for the next one.\<close>

theorem client_receives_text:
  assumes "transport rand wr good out" and "good io" and "length (ch_sendbuf ch) < 2 ^ 64"
    and "int (length buf) \<le> 2 ^ 31 - 15" and "ready c"
  shows "\<exists>n ch' io' bs. channel_send rand wr buf (int (length buf)) WS_OPCODE_TEXT True (ch, io) = Some (n, ch', io') \<and>
     out io' = out io @ bs \<and>
     (\<forall>rs. concat rs = bs \<and> [] \<notin> set rs \<longrightarrow> (\<exists>c'. client_reads lib net rs c = Done c' \<and> ready c' \<and>
        cw_log (cl_world c') = cw_log (cl_world c) @ [Onmessage buf]))"
proof -
  obtain n ch' io' fs where s: "channel_send rand wr buf (int (length buf)) WS_OPCODE_TEXT True (ch, io) = Some (n, ch', io')"
    "sent good out io fs (ch', io')" "one_message WS_OPCODE_TEXT buf fs"
    using channel_send_sent [OF assms(1-4), of WS_OPCODE_TEXT] by auto
  then have "out io' = out io @ concat (map frame_bytes fs)" by (simp add: sent_def)
  then show ?thesis using s(1) read_text [OF assms(5) s(3)] by blast
qed

text \<open>An open client, as the handshake leaves it.\<close>

definition open_client :: "(unit, unit) client" where
  "open_client = \<lparr>cl_world = \<lparr>cw_state = CL_WS_OPENED, cw_url = [], cw_http_req = None, cw_tls = False,
     cw_ping_interval = 3000, cw_ping_cnt = 0,
     cw_channel = Some (new_channel\<lparr>cc_status := CH_CONNECTED, cc_onclose := True\<rparr>), cw_io = (), cw_log = [Onopen]\<rparr>,
     cl_http = None, cl_ws = Some (WebSocketParser_new 0 ())\<rparr>"

lemma ready_open_client: "ready open_client"
  by (simp add: ready_def open_client_def log_ok_def WebSocketParser_new_def at_frame_start_def websocket_parser_init_def)

theorem client_receives_text_witness:
  "\<exists>n ch' io' bs. channel_send log_rand log_write [72, 105] (int (length [72, 105 :: byte])) WS_OPCODE_TEXT True
       (\<lparr>ch_type = WS_SERVER, ch_sendbuf = []\<rparr>, []) = Some (n, ch', io') \<and> io' = [] @ bs \<and>
     (\<forall>rs. concat rs = bs \<and> [] \<notin> set rs \<longrightarrow> (\<exists>c'. client_reads plain_lib idle_net rs open_client = Done c' \<and> ready c' \<and>
        cw_log (cl_world c') = cw_log (cl_world open_client) @ [Onmessage [72, 105]]))"
  by (rule client_receives_text [OF log_transport TrueI _ _ ready_open_client]) simp_all

text \<open>C25: A connection whose peer answers no ping is closed: of four heartbeats the first three send a ping each, and the fourth
  closes the channel.\<close>

definition after_write :: "'io net \<Rightarrow> byte list \<Rightarrow> 'io \<Rightarrow> 'io" where
  "after_write net dat io = snd (net_write net dat io)"

lemma heartbeat_pings:
  assumes "cw_channel w = Some ch" and "isOpened ch" and "ch_type (cc_ws ch) = WS_CLIENT" and "cw_ping_cnt w \<noteq> 3"
  shows "on_heartbeat net w = w\<lparr>cw_ping_cnt := cw_ping_cnt w + 1, cw_io := after_write net WS_CLIENT_PING_FRAME (cw_io w)\<rparr>"
  using assms by (cases w) (auto simp: on_heartbeat_def channel_control_def sendPing_def channel_write_def after_write_def Let_def
      split: prod.splits)

theorem heartbeat_closes:
  assumes "cw_channel w = Some ch" and "isOpened ch" and "ch_type (cc_ws ch) = WS_CLIENT" and "cw_ping_cnt w = 0"
  shows "((on_heartbeat net) ^^ 3) w = w\<lparr>cw_ping_cnt := 3, cw_io := ((after_write net WS_CLIENT_PING_FRAME) ^^ 3) (cw_io w)\<rparr> \<and>
    (\<exists>ch'. cw_channel (((on_heartbeat net) ^^ 4) w) = Some ch' \<and> \<not> isOpened ch')"
proof -
  have three: "((on_heartbeat net) ^^ 3) w = w\<lparr>cw_ping_cnt := 3, cw_io := ((after_write net WS_CLIENT_PING_FRAME) ^^ 3) (cw_io w)\<rparr>"
    using assms by (simp add: numeral_3_eq_3 heartbeat_pings)
  have "((on_heartbeat net) ^^ 4) w = on_heartbeat net (((on_heartbeat net) ^^ 3) w)"
    by (simp add: numeral_eq_Suc)
  moreover have "\<exists>ch'. cw_channel (on_heartbeat net (((on_heartbeat net) ^^ 3) w)) = Some ch' \<and> \<not> isOpened ch'"
    using assms unfolding three
    by (auto simp: on_heartbeat_def channel_close_def on_closed_def isOpened_def Let_def split: prod.splits)
  ultimately show ?thesis using three by simp
qed

theorem heartbeat_closes_witness:
  "((on_heartbeat idle_net) ^^ 3) (cl_world open_client) =
     (cl_world open_client)\<lparr>cw_ping_cnt := 3, cw_io := ((after_write idle_net WS_CLIENT_PING_FRAME) ^^ 3) (cw_io (cl_world open_client))\<rparr> \<and>
   (\<exists>ch'. cw_channel (((on_heartbeat idle_net) ^^ 4) (cl_world open_client)) = Some ch' \<and> \<not> isOpened ch')"
  by (rule heartbeat_closes [where ch = "new_channel\<lparr>cc_status := CH_CONNECTED, cc_onclose := True\<rparr>"])
    (simp_all add: open_client_def new_channel_def isOpened_def)

text \<open>C26: Once the TCP connection is up, \<open>isConnected()\<close> is true although the handshake has only begun, and \<open>send\<close> then writes
  its frames at once: an application that waits for \<open>isConnected()\<close>, as \<open>subscribe\<close> of \<open>ClientExample.cpp\<close> does, can send
  its messages before the server has accepted the upgrade.\<close>

theorem send_before_upgrade:
  assumes "on_connect lib net c = Done c'" and "live c ch" and "length (ch_sendbuf (cc_ws ch)) < 2 ^ 64"
    and "transport (net_rand net) (net_write net) good out" and "good (cw_io (cl_world c'))"
    and "int (length msg) \<le> 2 ^ 31 - 15"
  shows "client_isConnected (cl_world c') \<and> cw_state (cl_world c') = CL_WS_UPGRADING \<and>
    (\<exists>n w fs. client_send_text net msg (cl_world c') = Done (n, w) \<and> cw_state w = CL_WS_UPGRADING \<and>
       out (cw_io w) = out (cw_io (cl_world c')) @ concat (map frame_bytes fs) \<and> one_message WS_OPCODE_TEXT msg fs)"
proof -
  let ?ch = "ch\<lparr>cc_status := CH_CONNECTED\<rparr>"
  have ch: "cw_channel (cl_world c') = Some ?ch" "cw_state (cl_world c') = CL_WS_UPGRADING" "isConnected ?ch"
    using assms(1,2) by (auto simp: on_connect_def live_def isConnected_def isOpened_def Let_def
        split: option.splits prod.splits if_splits)
  then have "channel_write net ?ch = net_write net"
    by (simp add: channel_write_def isConnected_def fun_eq_iff)
  moreover obtain n ws io fs where "channel_send (net_rand net) (net_write net) msg (int (length msg)) WS_OPCODE_TEXT True
      (cc_ws ch, cw_io (cl_world c')) = Some (n, ws, io)" "sent good out (cw_io (cl_world c')) fs (ws, io)"
      "one_message WS_OPCODE_TEXT msg fs"
    using channel_send_sent [OF assms(4,5,3,6), of WS_OPCODE_TEXT] by auto
  ultimately show ?thesis
    using ch by (auto simp: client_isConnected_def client_send_text_def client_send_def sent_def)
qed

theorem send_before_upgrade_witness:
  "\<exists>c'. on_connect plain_lib log_net connecting_client = Done c' \<and> client_isConnected (cl_world c') \<and>
    (\<exists>n w fs. client_send_text log_net [72, 105] (cl_world c') = Done (n, w) \<and> cw_state w = CL_WS_UPGRADING \<and>
       cw_io w = cw_io (cl_world c') @ concat (map frame_bytes fs) \<and> one_message WS_OPCODE_TEXT [72, 105] fs)"
proof -
  obtain c' where c: "on_connect plain_lib log_net connecting_client = Done c'"
    using connecting_client_connects by blast
  show ?thesis
    using send_before_upgrade [OF c, of connecting_channel "\<lambda>_. True" "\<lambda>io. io" "[72, 105]"] log_transport c
    by (simp add: live_def connecting_client_def connecting_channel_def new_channel_def log_net_def)
qed

text \<open>C27: A close frame does not end the reading: a text message behind it in the same read still reaches \<open>onmessage\<close>, after
  \<open>onclose\<close> has run.\<close>

definition server_frame :: "nat \<Rightarrow> byte list \<Rightarrow> ws_frame" where
  "server_frame opcode msg = \<lparr>fr_fin = True, fr_opcode = opcode, fr_mask = None, fr_payload = msg\<rparr>"

theorem message_after_close:
  assumes "ready c" and "cw_channel (cl_world c) = Some ch" and "isOpened ch" and "cc_onclose ch"
    and "fst (net_close net (cw_io (cl_world c)))" and "int (length msg) < 2 ^ 31 - 1"
  shows "\<exists>c'. on_read lib net (frame_bytes (server_frame 8 []) @ frame_bytes (server_frame 1 msg)) c = Done c' \<and>
    cw_state (cl_world c') = CL_WS_CLOSED \<and> cw_log (cl_world c') = cw_log (cl_world c) @ [Onclose, Onmessage msg]"
proof -
  let ?fs = "[server_frame 8 [], server_frame 1 msg]" and ?dat = "frame_bytes (server_frame 8 []) @ frame_bytes (server_frame 1 msg)"
  obtain q own where c: "c = with_frames q (owner_in (cl_world c) own) c" "at_frame_start q"
    "own_state own \<in> {WS_FRAME_BEGIN, WS_FRAME_FIN}" "cl_ws c = Some (q, own)"
    by (rule ready_frames [OF assms(1)])
  define u where "u = owner_in (cl_world c) own"
  have ok: "\<forall>f\<in>set ?fs. frame_ok f" using assms(6) by (simp add: frame_ok_def server_frame_def)
  then have ne: "?dat \<noteq> []" using frame_bytes_split [of "server_frame 8 []"] length_ws_frame_head by (auto simp: ws_frame_head_def Let_def)
  define u' where "u' = fold (deliver_frame (Some (ws_onmessage net))) ?fs u"
  obtain q' where "feed_reads (Some (ws_onmessage net)) [?dat] (q, u) = Some (q', u')"
    using receive_reads [OF ok _ c(2), of "[?dat]" "Some (ws_onmessage net)" u] by (auto simp: u'_def)
  then have f: "FeedRecvData (Some (ws_onmessage net)) ?dat (q, u) = (Returned (int (length ?dat)), q', u')"
    by (auto split: prod.splits ws_exit.splits if_splits)
  have "own_world u' = ws_onmessage net 1 msg (ws_onmessage net 8 [] (cl_world c))"
    using c(3) by (auto simp: u'_def deliver_frame_def server_frame_def u_def owner_in_def Let_def)
  moreover have "cw_state (ws_onmessage net 1 msg (ws_onmessage net 8 [] (cl_world c))) = CL_WS_CLOSED \<and>
      cw_log (ws_onmessage net 1 msg (ws_onmessage net 8 [] (cl_world c))) = cw_log (cl_world c) @ [Onclose, Onmessage msg]"
    using assms(2-5) by (auto simp: ws_onmessage_def channel_close_def on_closed_def isOpened_def Let_def split: option.splits prod.splits)
  moreover have "on_read lib net ?dat c = Done (with_frames q' u' c)"
    using on_read_open [OF _ ne frame_start_wf [OF c(2)] f, of lib c] assms(1) c(1) by (simp add: u_def owner_in_def ready_def)
  ultimately show ?thesis by (simp add: with_frames_def)
qed

theorem message_after_close_witness:
  "\<exists>c'. on_read plain_lib idle_net (frame_bytes (server_frame 8 []) @ frame_bytes (server_frame 1 [72, 105])) open_client = Done c' \<and>
    cw_state (cl_world c') = CL_WS_CLOSED \<and> cw_log (cl_world c') = cw_log (cl_world open_client) @ [Onclose, Onmessage [72, 105]]"
  by (rule message_after_close [OF ready_open_client, where ch = "new_channel\<lparr>cc_status := CH_CONNECTED, cc_onclose := True\<rparr>"])
    (simp_all add: open_client_def new_channel_def isOpened_def idle_net_def)

text \<open>The \<open>redirect\<close> flag of a request only counts for status 301: the other redirections are followed in any case.\<close>

lemma redirect_flag_ignored:
  assumes "cw_http_req (cl_world c) = Some req" and "\<not> req_redirect req" and "res_status_code resp \<in> {302, 303, 307, 308}"
    and "GetHeader (ascii ''Location'') resp = location" and "location \<noteq> []" and "\<not> startswith location (ascii ''http'')"
  shows "on_response lib net resp c =
    Inl (case client_open lib net (c_str location) [] (with_channel (\<lambda>ch. ch\<lparr>cc_onclose := False\<rparr>) (cl_world c)) of
      Done (r, w) \<Rightarrow> Done (c\<lparr>cl_world := w\<rparr>) | Uncaught \<Rightarrow> Uncaught | Undefined \<Rightarrow> Undefined)"
  using assms by (auto simp: on_response_def redirect_test_def Let_def)

end
