(* ===== verification/WS_Accept.thy ===== *)
theory WS_Accept imports WS_Client_Msg begin

text \<open>
  The end of the opening handshake of \<^verbatim>\<open>WebSocketClient.cpp\<close>: the parser of the client on the response of a
  server that accepts the upgrade, and the client that it opens.
\<close>

subsection \<open>An accepting response\<close>

text \<open>Up to the accept value: \<open>HTTP/1.1 101 Switching Protocols\<close>, \<open>Upgrade: websocket\<close>, \<open>Connection: Upgrade\<close>,
  \<open>Sec-WebSocket-Accept:\<close>, each line with its end.\<close>

definition response_head :: "byte list" where
  "response_head = [72, 84, 84, 80, 47, 49, 46, 49, 32, 49, 48, 49, 32, 83, 119, 105, 116, 99, 104, 105, 110, 103, 32, 80, 114, 111, 116, 111, 99, 111, 108, 115, 13, 10, 85, 112, 103, 114, 97, 100, 101, 58, 32, 119, 101, 98, 115, 111, 99, 107, 101, 116, 13, 10, 67, 111, 110, 110, 101, 99, 116, 105, 111, 110, 58, 32, 85, 112, 103, 114, 97, 100, 101, 13, 10, 83, 101, 99, 45, 87, 101, 98, 83, 111, 99, 107, 101, 116, 45, 65, 99, 99, 101, 112, 116, 58, 32]"

definition response_tail :: "byte list" where "response_tail = [CR, LF, CR, LF]"

text \<open>The parser and its owner before the response, after its head, and after the accept value.\<close>

definition parser_start :: http_parser where "parser_start = http_parser_init HTTP_RESPONSE"

definition owner_start :: "'j \<Rightarrow> ('j, unit) http1" where
  "owner_start json = \<lparr>h1_flags = 0, h1_state = HP_START_REQ_OR_RES, h1_submited = None, h1_parsed = \<lparr>msg_type = HTTP_RESPONSE, msg_http_major = 1, msg_http_minor = 1, msg_headers = [],
     msg_cookies = [], msg_body = [], msg_content = None, msg_content_length = 0, msg_content_type = 0, msg_json = json,
     msg_form = [], msg_kv = [], req_method = HTTP_DELETE, req_url = [], req_scheme = [], req_host = [], req_port = 0,
     req_path = [], req_query_params = [], req_redirect = False, req_proxy = False, res_status_code = 200\<rparr>,
     h1_url = [], h1_header_field = [], h1_header_value = [], h1_world = ()\<rparr>"

definition parser_head :: http_parser where
  "parser_head = \<lparr>hp_type = HTTP_RESPONSE, hp_flags = 40, hp_state = s_header_value_discard_ws, hp_header_state = h_general,
     hp_index = 0, hp_lenient_http_headers = False, hp_nread = 97, hp_content_length = word_of_int (- 1), hp_http_major = 1,
     hp_http_minor = 1, hp_status_code = 101, hp_method = HTTP_DELETE, hp_http_errno = HPE_OK, hp_upgrade = False\<rparr>"

definition owner_head :: "'j \<Rightarrow> ('j, unit) http1" where
  "owner_head json = \<lparr>h1_flags = 0, h1_state = HP_HEADER_FIELD, h1_submited = None, h1_parsed = \<lparr>msg_type = HTTP_RESPONSE, msg_http_major = 1, msg_http_minor = 1, msg_headers = [([67, 111, 110, 110, 101, 99, 116, 105, 111, 110], [85, 112, 103, 114, 97, 100, 101]), ([85, 112, 103, 114, 97, 100, 101], [119, 101, 98, 115, 111, 99, 107, 101, 116])],
     msg_cookies = [], msg_body = [], msg_content = None, msg_content_length = 0, msg_content_type = 0, msg_json = json,
     msg_form = [], msg_kv = [], req_method = HTTP_DELETE, req_url = [], req_scheme = [], req_host = [], req_port = 0,
     req_path = [], req_query_params = [], req_redirect = False, req_proxy = False, res_status_code = 200\<rparr>,
     h1_url = [], h1_header_field = [83, 101, 99, 45, 87, 101, 98, 83, 111, 99, 107, 101, 116, 45, 65, 99, 99, 101, 112, 116], h1_header_value = [], h1_world = ()\<rparr>"

definition parser_value :: http_parser where
  "parser_value = \<lparr>hp_type = HTTP_RESPONSE, hp_flags = 40, hp_state = s_header_value, hp_header_state = h_general,
     hp_index = 0, hp_lenient_http_headers = False, hp_nread = 125, hp_content_length = word_of_int (- 1), hp_http_major = 1,
     hp_http_minor = 1, hp_status_code = 101, hp_method = HTTP_DELETE, hp_http_errno = HPE_OK, hp_upgrade = False\<rparr>"

definition owner_value :: "'j \<Rightarrow> byte list \<Rightarrow> ('j, unit) http1" where
  "owner_value json acc = (owner_head json)\<lparr>h1_state := HP_HEADER_VALUE, h1_header_value := acc\<rparr>"

definition response_parsed :: "'j \<Rightarrow> byte list \<Rightarrow> 'j http_message" where
  "response_parsed json acc = \<lparr>msg_type = HTTP_RESPONSE, msg_http_major = 1, msg_http_minor = 1, msg_headers = [([67, 111, 110, 110, 101, 99, 116, 105, 111, 110], [85, 112, 103, 114, 97, 100, 101]), ([83, 101, 99, 45, 87, 101, 98, 83, 111, 99, 107, 101, 116, 45, 65, 99, 99, 101, 112, 116], acc), ([85, 112, 103, 114, 97, 100, 101], [119, 101, 98, 115, 111, 99, 107, 101, 116])],
     msg_cookies = [], msg_body = [], msg_content = None, msg_content_length = 0, msg_content_type = 0, msg_json = json,
     msg_form = [], msg_kv = [], req_method = HTTP_DELETE, req_url = [], req_scheme = [], req_host = [], req_port = 0,
     req_path = [], req_query_params = [], req_redirect = False, req_proxy = False, res_status_code = 101\<rparr>"

definition owner_done :: "'j \<Rightarrow> byte list \<Rightarrow> ('j, unit) http1" where
  "owner_done json acc = \<lparr>h1_flags = 0, h1_state = HP_MESSAGE_COMPLETE, h1_submited = None, h1_parsed = response_parsed json acc,
     h1_url = [], h1_header_field = [], h1_header_value = [], h1_world = ()\<rparr>"

lemma start_of_response:
  "InitResponse lib (HttpResponse_new lib) (snd (Http1Parser_new lib ())) = (parser_start, owner_start (cl_json_empty lib))"
  by (simp add: InitResponse_def clear_tmp_def HttpResponse_new_def Http1Parser_new_def blank_message_def message_Init_def
      message_Reset_def response_Reset_def parser_start_def owner_start_def CONTENT_TYPE_NONE_def)

text \<open>For evaluation, the header limit is compared as an integer.\<close>

lemma min_unat_code [code_unfold]: "min n (Word.the_nat w) = (if int n \<le> uint w then n else unat w)" for w :: u32
proof -
  have "int n \<le> uint w \<longleftrightarrow> n \<le> unat w" by (metis of_nat_unat of_nat_le_iff)
  then show ?thesis by (simp add: min_def Word.the_nat_def)
qed

lemma read_head:
  fixes json :: "'j :: equal"
  shows "http1_FeedRecvData HTTP_MAX_HEADER_SIZE None response_head parser_start (owner_start json) =
    Parsed (length response_head) parser_head (owner_head json)"
  by code_simp

definition parser_end :: http_parser where
  "parser_end = \<lparr>hp_type = HTTP_RESPONSE, hp_flags = 40, hp_state = s_start_res, hp_header_state = h_general,
     hp_index = 0, hp_lenient_http_headers = False, hp_nread = 0, hp_content_length = word_of_int (- 1), hp_http_major = 1,
     hp_http_minor = 1, hp_status_code = 101, hp_method = HTTP_DELETE, hp_http_errno = HPE_OK, hp_upgrade = True\<rparr>"

lemma read_tail:
  fixes json :: "'j :: equal"
  shows "http1_FeedRecvData HTTP_MAX_HEADER_SIZE None response_tail parser_value (owner_value json acc) =
    Parsed (length response_tail) parser_end (owner_done json acc)"
  by (code_simp, simp)

text \<open>The accept value, read by itself: 28 characters that may stand in a value.\<close>

definition value_char :: "byte \<Rightarrow> bool" where
  "value_char c \<longleftrightarrow> IS_HEADER_CHAR c \<and> c \<noteq> CR \<and> c \<noteq> LF \<and> c \<noteq> chr_space \<and> c \<noteq> chr_tab"

definition plain_value :: "byte list \<Rightarrow> bool" where
  "plain_value acc \<longleftrightarrow> (\<forall>c\<in>set acc. value_char c)"

lemma skip_plain_value:
  "plain_value acc \<Longrightarrow> p \<le> length acc \<Longrightarrow> skip_value acc lenient (length acc) p = Inr (length acc)"
proof (induction acc lenient "length acc" p rule: skip_value.induct)
  case (1 acc lenient p)
  show ?case
  proof (cases "p < length acc")
    case True
    then have "IS_HEADER_CHAR (acc ! p)" "acc ! p \<noteq> CR" "acc ! p \<noteq> LF" using 1(2) by (simp_all add: plain_value_def value_char_def)
    then show ?thesis using 1 True by (subst skip_value.simps) (simp add: Let_def)
  qed (use 1 in \<open>subst skip_value.simps, simp\<close>)
qed

lemma header_byte_step:
  assumes "PARSING_HEADER (hx_state s)" and "hx_nread s + 1 \<le> en_max_header_size env"
    and "http_switch env (s\<lparr>hx_ch := en_data env ! hx_p s, hx_nread := hx_nread s + 1\<rparr>) = Next s'"
  shows "loop_body env s = Next s'"
proof -
  have "reexecute reexecute_fuel env t = Next s'" if "http_switch env t = Next s'" for t
    using that by (simp add: reexecute_fuel_def numeral_eq_Suc)
  then show ?thesis using assms by (simp add: loop_body_def COUNT_HEADER_SIZE_def Let_def not_less [symmetric])
qed

lemma read_value:
  assumes "plain_value acc" and "length acc = 28"
  shows "http1_FeedRecvData HTTP_MAX_HEADER_SIZE None acc parser_head (owner_head json) =
    Parsed (length acc) parser_value (owner_value json acc)"
proof -
  define env :: "('a, unit) http1 http_env" where
    "env = \<lparr>en_settings = http1_cbs None, en_data = acc, en_max_header_size = HTTP_MAX_HEADER_SIZE, en_lenient = False\<rparr>"
  define s0 where "s0 = \<lparr>hx_parser = parser_head, hx_user = owner_head json, hx_p = 0, hx_ch = 0, hx_state = hp_state parser_head,
    hx_nread = hp_nread parser_head, hx_mark = start_mark (hp_state parser_head)\<rparr>"
  have a0: "acc ! 0 \<noteq> CR" "acc ! 0 \<noteq> LF" "acc ! 0 \<noteq> chr_space" "acc ! 0 \<noteq> chr_tab"
    using assms by (simp_all add: plain_value_def value_char_def)
  have a1: "acc ! 1 \<noteq> CR" "acc ! 1 \<noteq> LF" "IS_HEADER_CHAR (acc ! 1)"
    using assms by (simp_all add: plain_value_def value_char_def)
  define s1 where "s1 = s0\<lparr>hx_ch := acc ! 0, hx_nread := 98, hx_state := s_header_value,
    hx_mark := (hx_mark s0)(For_header_value := Some 0)\<rparr>"
  have s0: "hx_state s0 = s_header_value_discard_ws" "hx_nread s0 = 97" "hx_p s0 = 0" "hx_parser s0 = parser_head"
    "hx_user s0 = owner_head json" "hx_mark s0 = (\<lambda>_. None)"
    by (simp_all add: s0_def parser_head_def start_mark_def fun_eq_iff url_state_def split: data_for.split)
  have env: "en_data env = acc" "en_max_header_size env = 81920" "\<not> en_lenient env" "en_settings env = http1_cbs None"
    by (simp_all add: env_def HTTP_MAX_HEADER_SIZE_def)
  have b0: "loop_body env s0 = Next s1"
    by (rule header_byte_step)
      (use a0 in \<open>simp_all add: s0 env PARSING_HEADER_def http_switch_def case_header_value_discard_ws_def
        case_header_value_start_def MARK_def UPDATE_STATE_def set_parser_def Let_def s1_def parser_head_def\<close>)
  define s2 where "s2 = s1\<lparr>hx_ch := acc ! 1, hx_p := 27, hx_nread := 125\<rparr>"
  have k: "skip_value acc False (1 + min (length acc - 1) (unat (81920 :: u32))) 1 = Inr 28"
    using skip_plain_value [OF assms(1), of 1 False] assms(2) by simp
  have e: "header_value_loop env 1 (s2\<lparr>hx_p := 28, hx_nread := 99\<rparr>) h_general = Next s2"
    using assms(2)
    by (subst header_value_loop.simps) (simp add: env header_value_done_def COUNT_HEADER_SIZE_def set_parser_def s2_def s1_def s0
        parser_head_def)
  have v: "header_value_loop env 1 (s1\<lparr>hx_ch := acc ! 1, hx_p := 1, hx_nread := 99\<rparr>) h_general = Next s2"
    using a1 k e assms(2)
    by (subst header_value_loop.simps) (simp add: env header_value_char_def s2_def s1_def s0_def Let_def)
  have b1: "loop_body env (s1\<lparr>hx_p := 1\<rparr>) = Next s2"
    by (rule header_byte_step)
      (use v s0(6) in \<open>simp_all add: s1_def s0_def env PARSING_HEADER_def http_switch_def case_header_value_def parser_head_def\<close>)
  have "http_loop 27 env (s1\<lparr>hx_p := 1\<rparr>) = Next (s2\<lparr>hx_p := 28\<rparr>)"
    using b1 by (simp add: http_loop.simps [of "Suc n" for n] http_loop.simps [of 26] http_loop.simps [of 27] env assms(2) s2_def)
  moreover have "hx_p s1 = 0" by (simp add: s1_def s0)
  ultimately have l: "http_loop 28 env s0 = Next (s2\<lparr>hx_p := 28\<rparr>)"
    using b0 by (simp add: http_loop.simps [of 28] env assms(2) s0)
  have "leftover_callbacks env (s2\<lparr>hx_p := 28\<rparr>) = Next (s2\<lparr>hx_p := 28, hx_parser := parser_head\<lparr>hp_state := s_header_value\<rparr>,
      hx_user := owner_value json acc, hx_mark := (\<lambda>_. None)\<rparr>)"
    using assms(2)
    by (simp add: leftover_callbacks_def marks_set_def CALLBACK_DATA_NOADVANCE_def CALLBACK_DATA_ER_def callback_result_def
        http_assert_def env http1_cbs_def h1_on_header_value_def save_state_def set_parser_def s2_def s1_def s0 HTTP_PARSER_ERRNO_def
        UPDATE_STATE_def parser_head_def owner_value_def owner_head_def Let_def fun_eq_iff)
  then have "http_parser_flow env parser_head (owner_head json) = Return 28 (s2\<lparr>hx_p := 28, hx_parser := parser_value,
      hx_user := owner_value json acc, hx_mark := (\<lambda>_. None)\<rparr>)"
    using l assms(2)
    by (simp add: http_parser_flow_def env s0_def s0(6) RETURN_def set_parser_def parser_head_def parser_value_def s2_def s1_def
        HTTP_PARSER_ERRNO_def Let_def)
  then show ?thesis
    using assms(2) by (simp add: http1_FeedRecvData_def http_parser_execute_def env_def parser_head_def)
qed

subsection \<open>The client opens\<close>

text \<open>The characters of base64 may stand in a header value.\<close>

lemma digit_char: "value_char (digit n)"
proof -
  have "list_all (\<lambda>n. value_char (base64en ! n)) [0..<64]" by code_simp
  then show ?thesis by (simp add: digit_def list_all_iff)
qed

lemma rfc4648_plain: "plain_value (rfc4648 bs)"
proof -
  have "value_char BASE64_PAD" by code_simp
  then show ?thesis
    unfolding plain_value_def by (induction bs rule: rfc4648.induct) (simp_all add: Let_def digit_char)
qed

lemma response_accept: "GetHeader SEC_WEBSOCKET_ACCEPT (response_parsed json acc) = acc"
  by code_simp

text \<open>The value that belongs to a key (RFC 6455, 4.2.2).\<close>

definition accept_value :: "byte list \<Rightarrow> byte list" where
  "accept_value key = rfc4648 (sha1_digest (key @ ws_magic))"

text \<open>A client that waits for the response, as \<open>on_connect\<close> leaves it.\<close>

definition upgrading :: "'j content_lib \<Rightarrow> ('j, 'io) client \<Rightarrow> bool" where
  "upgrading lib c \<longleftrightarrow> cw_state (cl_world c) = CL_WS_UPGRADING \<and>
     cl_http c = Some (InitResponse lib (HttpResponse_new lib) (snd (Http1Parser_new lib ())))"

lemma handshake_reads:
  fixes lib :: "('j :: equal) content_lib"
  assumes "upgrading lib c" and "cw_http_req (cl_world c) = Some req" and "GetHeader SEC_WEBSOCKET_KEY req = key"
    and "0 \<notin> set key" and "length key < 2 ^ 32 - 64" and "length (net_junk net) = 64"
    and "messages_after_open False (cw_log (cl_world c))"
  shows "\<exists>c1 c2 c3. on_read lib net response_head c = Done c1 \<and> cl_world c1 = cl_world c \<and>
    on_read lib net (accept_value key) c1 = Done c2 \<and> cl_world c2 = cl_world c \<and>
    on_read lib net response_tail c2 = Done c3 \<and> ready c3 \<and>
    cw_log (cl_world c3) = cw_log (cl_world c) @ [Onopen] \<and> cw_http_req (cl_world c3) = Some req"
proof -
  let ?json = "cl_json_empty lib" and ?acc = "accept_value key"
  define c1 where "c1 = c\<lparr>cl_http := Some (parser_head, owner_head ?json)\<rparr>"
  define c2 where "c2 = c\<lparr>cl_http := Some (parser_value, owner_value ?json ?acc)\<rparr>"
  define c3 where "c3 = c\<lparr>cl_http := Some (parser_end, owner_done ?json ?acc)\<rparr>"
  have up: "cw_state (cl_world c) = CL_WS_UPGRADING" "cl_http c = Some (parser_start, owner_start ?json)"
    using assms(1) by (simp_all add: upgrading_def start_of_response)
  have e: "ws_encode_key (net_junk net) key = Some ?acc" "length ?acc = 28"
    using ws_encode_key_value [OF assms(6,5)] by (simp_all add: accept_value_def)
  have h: "response_head \<noteq> []" "response_tail \<noteq> []" by (simp_all add: response_head_def response_tail_def)
  have "on_read lib net response_head c = Done c1"
    using up h read_head [of ?json] by (simp add: on_read_def c1_def continue_frames_def http1_IsComplete_def owner_head_def)
  moreover have "on_read lib net ?acc c1 = Done c2"
    using up read_value [OF rfc4648_plain, of "sha1_digest (key @ ws_magic)" ?json] e(2)
    by (simp add: on_read_def c1_def c2_def continue_frames_def http1_IsComplete_def owner_value_def owner_head_def accept_value_def)
  moreover have "\<exists>c'. on_read lib net response_tail c2 = Done c' \<and> ready c' \<and>
      cw_log (cl_world c') = cw_log (cl_world c) @ [Onopen] \<and> cw_http_req (cl_world c') = Some req"
  proof -
    let ?w = "start_heartbeat net ((cl_world c)\<lparr>cw_state := CL_WS_OPENED\<rparr>)"
    have f: "http1_FeedRecvData HTTP_MAX_HEADER_SIZE None response_tail parser_value (owner_value ?json ?acc) =
      Parsed (length response_tail) parser_end (owner_done ?json ?acc)" by (rule read_tail)
    have r: "on_response lib net (response_parsed ?json ?acc) c3 =
      Inr (c3\<lparr>cl_ws := Some (WebSocketParser_new (net_junk_opcode net) ()), cl_world := ?w\<lparr>cw_log := cw_log ?w @ [Onopen]\<rparr>\<rparr>)"
      using assms(2-4) e(1) response_accept [of ?json ?acc]
      by (simp add: on_response_def c3_def response_parsed_def Let_def)
    have "on_read lib net response_tail c2 =
      Done (c3\<lparr>cl_ws := Some (WebSocketParser_new (net_junk_opcode net) ()), cl_world := ?w\<lparr>cw_log := cw_log ?w @ [Onopen]\<rparr>\<rparr>)"
      using up f r by (simp add: on_read_def c2_def c3_def http1_IsComplete_def owner_done_def continue_frames_def)
    moreover have "at_frame_start (fst (WebSocketParser_new (net_junk_opcode net) ()))"
      by (simp add: WebSocketParser_new_def at_frame_start_def websocket_parser_init_def)
    ultimately show ?thesis
      using assms(2,7)
      by (simp add: ready_def log_ok_def start_heartbeat_def c3_def messages_after_open_append WebSocketParser_new_def)
  qed
  moreover have "cl_world c1 = cl_world c" "cl_world c2 = cl_world c" by (simp_all add: c1_def c2_def)
  ultimately show ?thesis by blast
qed

text \<open>What \<open>client_open\<close> does when its URL makes a plain request.\<close>

definition open_request :: "'j content_lib \<Rightarrow> ('j, 'io) client_world \<Rightarrow> 'j http_message" where
  "open_request lib w = (case cw_http_req w of None \<Rightarrow> HttpRequest_new lib | Some req \<Rightarrow> req)"

lemma client_close_http_req [simp]: "cw_http_req (client_close net w) = cw_http_req w"
  by (simp add: client_close_def channel_close_def on_closed_def Let_def split: option.split prod.split)

lemma client_open_plain:
  assumes "plain_request lib ((open_request lib w)\<lparr>req_url := ascii ''http'' @ drop 2 (open_url url)\<rparr>)"
    and "\<And>h p io. 0 \<le> fst (net_socket net h p io)"
  shows "\<exists>req w'. client_open lib net url [] w = Done (0, w') \<and> plain_request lib req \<and>
    (\<forall>k. \<not> header_order.same k (ascii ''Host'') \<longrightarrow> GetHeader k req = GetHeader k (open_request lib w)) \<and>
    cw_state w' = CL_CONNECTING \<and> cw_http_req w' = Some req \<and> cw_log w' = cw_log (client_close net w) \<and>
    cw_channel w' = Some (new_channel\<lparr>cc_onclose := True, cc_status := CH_CONNECTING\<rparr>)"
proof -
  obtain req where p: "ParseUrl ((open_request lib w)\<lparr>req_url := ascii ''http'' @ drop 2 (open_url url)\<rparr>) = Some req"
    "plain_request lib req"
    "\<forall>k. \<not> header_order.same k (ascii ''Host'') \<longrightarrow>
       GetHeader k req = GetHeader k ((open_request lib w)\<lparr>req_url := ascii ''http'' @ drop 2 (open_url url)\<rparr>)"
    using ParseUrl_plain [OF assms(1)] by blast
  have g: "GetHeader k (m\<lparr>req_url := u\<rparr>) = GetHeader k m" for k u and m :: "'a http_message" by (simp add: GetHeader_def)
  have n: "\<not> fst (net_socket net h po io) < 0" for h po io using assms(2) [of h po io] by simp
  show ?thesis
    using p(2,3) p(1) [unfolded open_request_def] n
    by (simp add: client_open_def startConnect_def new_channel_def set_headers_def g Let_def case_prod_beta)
qed

text \<open>A run of the event loop that ends with an open client.\<close>

definition example_url :: "byte list" where "example_url = [119, 115, 58, 47, 47, 104, 47]"

lemma example_url_request: "ascii ''http'' @ drop 2 (open_url example_url) = req_url example_request"
  by (simp add: example_url_def open_url_def ascii_def example_request_def)

definition example_client :: "(unit, byte list) client" where "example_client = client_new 3000 []"

definition example_key :: "byte list" where "example_key = rfc4648 (fst (rand_key log_net []))"

lemma example_key_ok: "0 \<notin> set example_key" "length example_key < 2 ^ 32 - 64"
proof -
  have "plain_value example_key" by (simp add: example_key_def rfc4648_plain)
  moreover have "\<not> value_char 0" by code_simp
  ultimately show "0 \<notin> set example_key" by (auto simp: plain_value_def)
  show "length example_key < 2 ^ 32 - 64"
    by (simp add: example_key_def length_rfc4648 rand_key_length BASE64_ENCODE_OUT_SIZE_def)
qed

lemma example_opens:
  "\<exists>w c1 req. client_open plain_lib log_net example_url [] (cl_world example_client) = Done (0, w) \<and>
     on_connect plain_lib log_net (example_client\<lparr>cl_world := w\<rparr>) = Done c1 \<and> upgrading plain_lib c1 \<and>
     cw_channel w = Some connecting_channel \<and> (\<exists>ch. live c1 ch) \<and>
     cw_http_req (cl_world c1) = Some req \<and> GetHeader SEC_WEBSOCKET_KEY req = example_key \<and> cw_log (cl_world c1) = []"
proof -
  have r: "open_request plain_lib (cl_world example_client) = HttpRequest_new plain_lib"
    by (simp add: open_request_def example_client_def client_new_def)
  have io: "cw_io w = []" if "client_open plain_lib log_net example_url [] (cl_world example_client) = Done (0, w)" for w
    using that by (auto simp: client_open_def startConnect_def client_close_def channel_close_def example_client_def client_new_def
        log_net_def Let_def split: option.splits prod.splits if_splits)
  obtain req w where w: "client_open plain_lib log_net example_url [] (cl_world example_client) = Done (0, w)"
    "plain_request plain_lib req" "GetHeader SEC_WEBSOCKET_KEY req = GetHeader SEC_WEBSOCKET_KEY (HttpRequest_new plain_lib)"
    "cw_http_req w = Some req" "cw_log w = cw_log (client_close log_net (cl_world example_client))"
    "cw_channel w = Some connecting_channel"
    using client_open_plain [where lib = plain_lib and w = "cl_world example_client" and url = example_url and net = log_net] plain_example upgrade_keys_differ
    by (auto simp: r example_url_request example_request_def log_net_def connecting_channel_def new_channel_def)
  have k: "GetHeader SEC_WEBSOCKET_KEY (HttpRequest_new plain_lib) = []" by code_simp
  have l: "cw_log w = []" by (simp add: w(5) client_close_def channel_close_def example_client_def client_new_def)
  show ?thesis
    using on_connect_written [where c = "example_client\<lparr>cl_world := w\<rparr>" and ch = connecting_channel and req = req and lib = plain_lib and net = log_net] w k l io [OF w(1)]
    by (fastforce simp: upgrading_def live_def connecting_channel_def new_channel_def request_key_def example_key_def)
qed

subsection \<open>Properties\<close>



text \<open>The witness of the invariant of reachable states: a run that ends with an open client.\<close>

theorem client_open_after_handshake_witness:
  "\<exists>c. client_run plain_lib log_net example_client c \<and> cw_state (cl_world c) = CL_WS_OPENED \<and> upgraded log_net c \<and>
    cw_log (cl_world c) = [Onopen] \<and> messages_after_open False (cw_log (cl_world c))"
proof -
  obtain w c1 req ch where c: "client_open plain_lib log_net example_url [] (cl_world example_client) = Done (0, w)"
    "on_connect plain_lib log_net (example_client\<lparr>cl_world := w\<rparr>) = Done c1" "upgrading plain_lib c1"
    "cw_channel w = Some connecting_channel" "live c1 ch" "cw_http_req (cl_world c1) = Some req"
    "GetHeader SEC_WEBSOCKET_KEY req = example_key" "cw_log (cl_world c1) = []"
    using example_opens by blast
  obtain d1 d2 d3 where d: "on_read plain_lib log_net response_head c1 = Done d1" "cl_world d1 = cl_world c1"
    "on_read plain_lib log_net (accept_value example_key) d1 = Done d2" "cl_world d2 = cl_world c1"
    "on_read plain_lib log_net response_tail d2 = Done d3" "ready d3" "cw_log (cl_world d3) = [Onopen]"
    using handshake_reads [OF c(3,6,7) example_key_ok, of log_net] c(8) by (auto simp: log_net_def)
  have live: "live d1 ch" "live d2 ch" "live (example_client\<lparr>cl_world := w\<rparr>) connecting_channel"
    using c(4,5) d(2,4) by (simp_all add: live_def connecting_channel_def new_channel_def)
  have ne: "response_head \<noteq> []" "accept_value example_key \<noteq> []" "response_tail \<noteq> []"
    using length_sha1_digest [of "example_key @ ws_magic"] length_rfc4648 [of "sha1_digest (example_key @ ws_magic)"]
    by (auto simp: response_head_def response_tail_def accept_value_def BASE64_ENCODE_OUT_SIZE_def)
  have "client_run plain_lib log_net example_client d3"
    by (rule client_run.step [OF client_run.step [OF client_run.step [OF client_run.step [OF client_run.step [OF client_run.start
        client_step.app_open [OF c(1)]] client_step.io_connected [OF live(3) _ c(2)]] client_step.io_read [OF c(5) ne(1) d(1)]]
        client_step.io_read [OF live(1) ne(2) d(3)]] client_step.io_read [OF live(2) ne(3) d(5)]])
      (simp add: connecting_channel_def)
  moreover have "cw_state (cl_world d3) = CL_WS_OPENED" using d(6) by (simp add: ready_def)
  ultimately show ?thesis
    using client_open_after_handshake [of plain_lib log_net 3000 "[]" d3] d(7) by (auto simp: example_client_def)
qed

end
