(* ===== verification/MD5.thy ===== *)
theory MD5 imports Digest begin

text \<open>
  \<^verbatim>\<open>util/md5.c\<close>: context, transform, update, padding and the convenience functions, with the same
  contract as SHA-1: any sequence of updates followed by \<open>HV_MD5Final\<close> is the digest of the
  concatenation, padded as in RFC 1321.
\<close>

record HV_MD5_CTX =
  md5_count0 :: u32
  md5_count1 :: u32
  md5_state :: "u32 list"
  md5_buffer :: "byte list"

subsection \<open>The transform\<close>

definition md5_F :: "u32 \<Rightarrow> u32 \<Rightarrow> u32 \<Rightarrow> u32" where "md5_F x y z = (x AND y) OR (NOT x AND z)"
definition md5_G :: "u32 \<Rightarrow> u32 \<Rightarrow> u32 \<Rightarrow> u32" where "md5_G x y z = (x AND z) OR (y AND NOT z)"
definition md5_H :: "u32 \<Rightarrow> u32 \<Rightarrow> u32 \<Rightarrow> u32" where "md5_H x y z = (x XOR y) XOR z"
definition md5_I :: "u32 \<Rightarrow> u32 \<Rightarrow> u32 \<Rightarrow> u32" where "md5_I x y z = y XOR (x OR NOT z)"

definition ROTATE_LEFT :: "u32 \<Rightarrow> nat \<Rightarrow> u32" where
  "ROTATE_LEFT x n = push_bit n x OR drop_bit (32 - n) x"

text \<open>
  The working variables in the order of the macro arguments \<open>a, b, c, d\<close>. A macro changes only its
  first argument, and the next of the unrolled calls names the variables one place further
  (\<open>d, a, b, c\<close>); after 64 calls the names are back in place.
\<close>

type_synonym md5_vars = "u32 \<times> u32 \<times> u32 \<times> u32"

definition FF :: "u32 \<Rightarrow> nat \<Rightarrow> u32 \<Rightarrow> md5_vars \<Rightarrow> md5_vars" where
  "FF x s ac = (\<lambda>(a, b, c, d). (d, ROTATE_LEFT (a + (md5_F b c d + x + ac)) s + b, b, c))"
definition GG :: "u32 \<Rightarrow> nat \<Rightarrow> u32 \<Rightarrow> md5_vars \<Rightarrow> md5_vars" where
  "GG x s ac = (\<lambda>(a, b, c, d). (d, ROTATE_LEFT (a + (md5_G b c d + x + ac)) s + b, b, c))"
definition HH :: "u32 \<Rightarrow> nat \<Rightarrow> u32 \<Rightarrow> md5_vars \<Rightarrow> md5_vars" where
  "HH x s ac = (\<lambda>(a, b, c, d). (d, ROTATE_LEFT (a + (md5_H b c d + x + ac)) s + b, b, c))"
definition II :: "u32 \<Rightarrow> nat \<Rightarrow> u32 \<Rightarrow> md5_vars \<Rightarrow> md5_vars" where
  "II x s ac = (\<lambda>(a, b, c, d). (d, ROTATE_LEFT (a + (md5_I b c d + x + ac)) s + b, b, c))"

definition md5_word :: "byte list \<Rightarrow> nat \<Rightarrow> u32" where
  "md5_word input j = ((ucast (input ! j) OR push_bit 8 (ucast (input ! (j + 1)))) OR
     push_bit 16 (ucast (input ! (j + 2)))) OR push_bit 24 (ucast (input ! (j + 3)))"

definition HV_MD5Decode :: "byte list \<Rightarrow> nat \<Rightarrow> u32 list" where
  "HV_MD5Decode input len = map (\<lambda>i. md5_word input (4 * i)) [0..<len div 4]"

definition HV_MD5Encode :: "u32 list \<Rightarrow> byte list" where
  "HV_MD5Encode input = concat (map (\<lambda>w. [ucast (w AND 0xFF), ucast (drop_bit 8 w AND 0xFF),
     ucast (drop_bit 16 w AND 0xFF), ucast (drop_bit 24 w AND 0xFF)]) input)"

text \<open>The 64 calls: macro, index into \<open>x\<close>, shift, constant.\<close>

definition md5_calls :: "((u32 \<Rightarrow> nat \<Rightarrow> u32 \<Rightarrow> md5_vars \<Rightarrow> md5_vars) \<times> nat \<times> nat \<times> u32) list" where
  "md5_calls = [
     (FF, 0, 7, 0xd76aa478), (FF, 1, 12, 0xe8c7b756), (FF, 2, 17, 0x242070db), (FF, 3, 22, 0xc1bdceee),
     (FF, 4, 7, 0xf57c0faf), (FF, 5, 12, 0x4787c62a), (FF, 6, 17, 0xa8304613), (FF, 7, 22, 0xfd469501),
     (FF, 8, 7, 0x698098d8), (FF, 9, 12, 0x8b44f7af), (FF, 10, 17, 0xffff5bb1), (FF, 11, 22, 0x895cd7be),
     (FF, 12, 7, 0x6b901122), (FF, 13, 12, 0xfd987193), (FF, 14, 17, 0xa679438e), (FF, 15, 22, 0x49b40821),
     (GG, 1, 5, 0xf61e2562), (GG, 6, 9, 0xc040b340), (GG, 11, 14, 0x265e5a51), (GG, 0, 20, 0xe9b6c7aa),
     (GG, 5, 5, 0xd62f105d), (GG, 10, 9, 0x2441453), (GG, 15, 14, 0xd8a1e681), (GG, 4, 20, 0xe7d3fbc8),
     (GG, 9, 5, 0x21e1cde6), (GG, 14, 9, 0xc33707d6), (GG, 3, 14, 0xf4d50d87), (GG, 8, 20, 0x455a14ed),
     (GG, 13, 5, 0xa9e3e905), (GG, 2, 9, 0xfcefa3f8), (GG, 7, 14, 0x676f02d9), (GG, 12, 20, 0x8d2a4c8a),
     (HH, 5, 4, 0xfffa3942), (HH, 8, 11, 0x8771f681), (HH, 11, 16, 0x6d9d6122), (HH, 14, 23, 0xfde5380c),
     (HH, 1, 4, 0xa4beea44), (HH, 4, 11, 0x4bdecfa9), (HH, 7, 16, 0xf6bb4b60), (HH, 10, 23, 0xbebfbc70),
     (HH, 13, 4, 0x289b7ec6), (HH, 0, 11, 0xeaa127fa), (HH, 3, 16, 0xd4ef3085), (HH, 6, 23, 0x4881d05),
     (HH, 9, 4, 0xd9d4d039), (HH, 12, 11, 0xe6db99e5), (HH, 15, 16, 0x1fa27cf8), (HH, 2, 23, 0xc4ac5665),
     (II, 0, 6, 0xf4292244), (II, 7, 10, 0x432aff97), (II, 14, 15, 0xab9423a7), (II, 5, 21, 0xfc93a039),
     (II, 12, 6, 0x655b59c3), (II, 3, 10, 0x8f0ccc92), (II, 10, 15, 0xffeff47d), (II, 1, 21, 0x85845dd1),
     (II, 8, 6, 0x6fa87e4f), (II, 15, 10, 0xfe2ce6e0), (II, 6, 15, 0xa3014314), (II, 13, 21, 0x4e0811a1),
     (II, 4, 6, 0xf7537e82), (II, 11, 10, 0xbd3af235), (II, 2, 15, 0x2ad7d2bb), (II, 9, 21, 0xeb86d391)]"

definition HV_MD5Transform :: "u32 list \<Rightarrow> byte list \<Rightarrow> u32 list" where
  "HV_MD5Transform state block =
     (let x = HV_MD5Decode block 64 in
      case fold (\<lambda>(call, k, s, ac). call (x ! k) s ac) md5_calls (state ! 0, state ! 1, state ! 2, state ! 3) of
        (a, b, c, d) \<Rightarrow> [state ! 0 + a, state ! 1 + b, state ! 2 + c, state ! 3 + d])"

subsection \<open>Context operations\<close>

definition md5_init_state :: "u32 list" where
  "md5_init_state = [0x67452301, 0xEFCDAB89, 0x98BADCFE, 0x10325476]"

definition HV_MD5Init :: "byte list \<Rightarrow> HV_MD5_CTX" where
  "HV_MD5Init junk = \<lparr>md5_count0 = 0, md5_count1 = 0, md5_state = md5_init_state, md5_buffer = junk\<rparr>"

definition HV_MD5Update :: "HV_MD5_CTX \<Rightarrow> byte list \<Rightarrow> HV_MD5_CTX option" where
  "HV_MD5Update ctx input =
     (let inputlen = of_nat (length input) :: u32;
          index = drop_bit 3 (md5_count0 ctx) AND 0x3F;
          partlen = 64 - index;
          count0 = md5_count0 ctx + push_bit 3 inputlen;
          count1 = (if count0 < push_bit 3 inputlen then md5_count1 ctx + 1 else md5_count1 ctx) + drop_bit 29 inputlen
      in map_option (\<lambda>(s, buf). \<lparr>md5_count0 = count0, md5_count1 = count1, md5_state = s, md5_buffer = buf\<rparr>)
        (absorb HV_MD5Transform (\<lambda>i. i + 64 \<le> inputlen) (inputlen \<ge> partlen) index input
           (md5_state ctx, md5_buffer ctx)))"

definition PADDING :: "byte list" where
  "PADDING = 0x80 # replicate 63 0"

definition HV_MD5Final :: "HV_MD5_CTX \<Rightarrow> (byte list \<times> HV_MD5_CTX) option" where
  "HV_MD5Final ctx =
     (let index = unat (drop_bit 3 (md5_count0 ctx) AND 0x3F);
          padlen = (if index < 56 then 56 - index else 120 - index);
          bits = HV_MD5Encode [md5_count0 ctx, md5_count1 ctx]
      in Option.bind (read_range PADDING 0 padlen) (\<lambda>pad.
         Option.bind (HV_MD5Update ctx pad) (\<lambda>ctx.
         Option.bind (HV_MD5Update ctx bits) (\<lambda>ctx.
           Some (HV_MD5Encode (md5_state ctx), ctx)))))"

definition hv_md5 :: "byte list \<Rightarrow> byte list \<Rightarrow> byte list option" where
  "hv_md5 junk input = Option.bind (HV_MD5Update (HV_MD5Init junk) input) (\<lambda>ctx. map_option fst (HV_MD5Final ctx))"

definition md5_i2hex :: "byte \<Rightarrow> byte" where
  "md5_i2hex i = (if i < 10 then i + 48 else i - 10 + 97)"

definition hv_md5_hex :: "byte list \<Rightarrow> byte list \<Rightarrow> u32 \<Rightarrow> byte list option" where
  "hv_md5_hex junk input outputlen =
     (if outputlen < 32 then Some []
      else map_option (\<lambda>digest. concat (map (\<lambda>b. [md5_i2hex (drop_bit 4 b), md5_i2hex (b AND 0xF)]) digest) @
             (if outputlen > 32 then [0] else [])) (hv_md5 junk input))"

subsection \<open>The digest of RFC 1321\<close>

text \<open>The order in which the rounds visit the words of the block, and their shifts.\<close>

definition rfc1321_order :: "nat \<Rightarrow> nat \<times> nat" where
  "rfc1321_order i =
     (if i < 16 then (i, [7, 12, 17, 22] ! (i mod 4))
      else if i < 32 then ((5 * i + 1) mod 16, [5, 9, 14, 20] ! (i mod 4))
      else if i < 48 then ((3 * i + 5) mod 16, [4, 11, 16, 23] ! (i mod 4))
      else (7 * i mod 16, [6, 10, 15, 21] ! (i mod 4)))"

definition md5_padded :: "byte list \<Rightarrow> byte list" where
  "md5_padded m = m @ [0x80] @ replicate (pad_zeros (length m)) 0 @
     (let n = of_nat (8 * length m) :: u64 in HV_MD5Encode [ucast n, ucast (drop_bit 32 n)])"

definition md5_digest :: "byte list \<Rightarrow> byte list" where
  "md5_digest m = HV_MD5Encode (blocks HV_MD5Transform md5_init_state (md5_padded m))"

definition md5_absorbed :: "HV_MD5_CTX \<Rightarrow> byte list \<Rightarrow> bool" where
  "md5_absorbed ctx m \<longleftrightarrow> holds_message HV_MD5Transform md5_init_state (md5_state ctx)
     (md5_count1 ctx) (md5_count0 ctx) (md5_buffer ctx) m"

lemma md5_update_absorbed:
  assumes "md5_absorbed ctx m" and len: "length xs < 2 ^ 32 - 64"
  shows "\<exists>ctx'. HV_MD5Update ctx xs = Some ctx' \<and> md5_absorbed ctx' (m @ xs)"
proof -
  define j where "j = drop_bit 3 (md5_count0 ctx) AND 0x3F"
  note h = assms(1) [unfolded md5_absorbed_def]
  have j: "unat j = length m mod 64" using holds_index [OF h] by (simp add: j_def)
  have full: "of_nat (length xs) \<ge> 64 - j \<longleftrightarrow> 64 \<le> length m mod 64 + length xs"
  proof -
    have "length m mod 64 < 64" by simp
    then have "unat (64 - j) = 64 - length m mod 64" using j by (subst unat_sub) (simp_all add: word_le_nat_alt)
    then show ?thesis using word_below_limit(1) [OF len] by (auto simp: word_le_nat_alt)
  qed
  have more: "\<forall>i. unat i \<le> length xs \<longrightarrow> (i + 64 \<le> (of_nat (length xs) :: u32) \<longleftrightarrow> unat i + 64 \<le> length xs)"
  proof (intro allI impI)
    fix i :: u32
    assume "unat i \<le> length xs"
    then have "unat (i + 64) = unat i + 64" using len by (subst unat_add_small) auto
    then show "i + 64 \<le> (of_nat (length xs) :: u32) \<longleftrightarrow> unat i + 64 \<le> length xs"
      using word_below_limit(1) [OF len] by (auto simp: word_le_nat_alt)
  qed
  from absorb_message [OF h len full more] show ?thesis
    unfolding HV_MD5Update_def Let_def md5_absorbed_def j_def carry_either by (elim exE conjE) simp
qed

lemma md5_padding:
  "read_range PADDING 0 (if n mod 64 < 56 then 56 - n mod 64 else 120 - n mod 64) = Some (0x80 # replicate (pad_zeros n) 0)"
proof -
  have k: "(if n mod 64 < 56 then 56 - n mod 64 else 120 - n mod 64) = Suc (pad_zeros n)"
    using mod_less_divisor [of 64 n] unfolding pad_zeros_eq by auto
  have "pad_zeros n < 64" by (simp add: pad_zeros_def)
  then show ?thesis unfolding k by (simp add: read_range_def PADDING_def min_def)
qed

lemma md5_count_bytes:
  "HV_MD5Encode [lo, hi] = (let n = join_count hi lo in HV_MD5Encode [ucast n, ucast (drop_bit 32 n)])"
  by (simp add: Let_def join_count_parts)

lemma md5_final_digest:
  assumes "md5_absorbed ctx m"
  shows "map_option fst (HV_MD5Final ctx) = Some (md5_digest m)"
proof -
  let ?pad = "0x80 # replicate (pad_zeros (length m)) 0" and ?n = "of_nat (8 * length m) :: u64"
  let ?bits = "HV_MD5Encode [ucast ?n, ucast (drop_bit 32 ?n)]"
  have index: "unat (drop_bit 3 (md5_count0 ctx) AND 0x3F) = length m mod 64"
    using assms holds_index by (simp add: md5_absorbed_def)
  have "join_count (md5_count1 ctx) (md5_count0 ctx) = ?n"
    using assms by (simp add: md5_absorbed_def holds_message_def)
  then have bits: "HV_MD5Encode [md5_count0 ctx, md5_count1 ctx] = ?bits"
    using md5_count_bytes [of "md5_count0 ctx" "md5_count1 ctx"] by (simp only: Let_def)
  have "pad_zeros (length m) < 64" by (simp add: pad_zeros_def)
  then obtain ctx1 where 1: "HV_MD5Update ctx ?pad = Some ctx1" "md5_absorbed ctx1 (m @ ?pad)"
    using md5_update_absorbed [OF assms, of ?pad] by auto
  obtain ctx2 where 2: "HV_MD5Update ctx1 ?bits = Some ctx2" "md5_absorbed ctx2 ((m @ ?pad) @ ?bits)"
    using md5_update_absorbed [OF 1(2), of ?bits] by (auto simp: HV_MD5Encode_def)
  have "md5_state ctx2 = blocks HV_MD5Transform md5_init_state (md5_padded m)"
    using 2(2) by (simp add: md5_absorbed_def holds_message_def md5_padded_def Let_def)
  then show ?thesis
    using 1(1) 2(1) unfolding HV_MD5Final_def Let_def index bits md5_padding by (simp add: md5_digest_def)
qed

interpretation md5: streaming_digest md5_absorbed "HV_MD5Init (buffer64 junk)" HV_MD5Update
  "\<lambda>ctx. map_option fst (HV_MD5Final ctx)" md5_digest "2 ^ 32 - 64"
proof
  show "md5_absorbed (HV_MD5Init (buffer64 junk)) []"
    using holds_empty [of "buffer64 junk"] by (simp add: md5_absorbed_def HV_MD5Init_def)
qed (use md5_update_absorbed md5_final_digest in auto)

subsection \<open>Properties\<close>



text \<open>The 64 unrolled calls visit the words of the block and rotate by the amounts that the four
  rounds of RFC 1321 prescribe.\<close>

theorem md5_calls_order: "map (\<lambda>(call, k, s, ac). (k, s)) md5_calls = map rfc1321_order [0..<64]"
  by code_simp

end
