(* ===== verification/HTTP_Method.thy ===== *)
theory HTTP_Method imports HTTP_Safe begin

text \<open>
  The request methods that \<open>http_parser_execute\<close> accepts, and lemmas for running its loop over single
  characters, shared with the theory of the sizes.
\<close>

subsection \<open>Running the loop\<close>

lemma http_loop_next:
  assumes "hx_p s < length (en_data env)" and "loop_body env s = Next s'"
  shows "http_loop (Suc n) env s = http_loop n env (s'\<lparr>hx_p := hx_p s' + 1\<rparr>)"
  using assms by (subst http_loop.simps) simp

lemma http_loop_return:
  assumes "hx_p s < length (en_data env)" and "loop_body env s = Return r s'"
  shows "http_loop (Suc n) env s = Return r s'"
  using assms by (subst http_loop.simps) simp

lemma http_loop_end: "hx_p s = length (en_data env) \<Longrightarrow> http_loop n env s = Next s"
  by (subst http_loop.simps) simp

text \<open>A pass over a character of a header state, for a state whose case does not jump.\<close>

lemma loop_body_header:
  assumes "PARSING_HEADER (hx_state s)" and "hx_nread s + 1 \<le> en_max_header_size env"
    and "http_switch env (s\<lparr>hx_ch := en_data env ! hx_p s, hx_nread := hx_nread s + 1\<rparr>) = f"
    and "\<And>s'. f \<noteq> Reexecute s'"
  shows "loop_body env s = f"
proof -
  have "reexecute reexecute_fuel env s' = http_switch env s'" if "\<And>s''. http_switch env s' \<noteq> Reexecute s''" for s'
    using that by (cases "http_switch env s'") (auto simp: reexecute_fuel_def eval_nat_numeral)
  then show ?thesis
    using assms by (auto simp: loop_body_def COUNT_HEADER_SIZE_def Let_def dest: leD)
qed

lemma no_marks_leftover:
  assumes "hx_mark s = (\<lambda>_. None)" and "hp_http_errno (hx_parser s) = HPE_OK"
  shows "leftover_callbacks env s = Next s"
  using assms
  by (simp add: leftover_callbacks_def http_assert_def marks_set_def CALLBACK_DATA_NOADVANCE_def CALLBACK_DATA_ER_def
      HTTP_PARSER_ERRNO_def)

text \<open>A call on data, for a parser that is not in an error state, as the loop and what follows it.\<close>

definition env_of :: "u32 \<Rightarrow> 'u http_parser_settings \<Rightarrow> byte list \<Rightarrow> http_parser \<Rightarrow> 'u http_env" where
  "env_of mx settings dat parser = \<lparr>en_settings = settings, en_data = dat, en_max_header_size = mx,
     en_lenient = hp_lenient_http_headers parser\<rparr>"

definition start_exec :: "http_parser \<Rightarrow> 'u \<Rightarrow> 'u http_exec" where
  "start_exec parser u = \<lparr>hx_parser = parser, hx_user = u, hx_p = 0, hx_ch = 0, hx_state = hp_state parser,
     hx_nread = hp_nread parser, hx_mark = start_mark (hp_state parser)\<rparr>"

lemma env_of_sel [simp]:
  "en_settings (env_of mx settings dat parser) = settings" "en_data (env_of mx settings dat parser) = dat"
  "en_max_header_size (env_of mx settings dat parser) = mx"
  "en_lenient (env_of mx settings dat parser) = hp_lenient_http_headers parser"
  by (simp_all add: env_of_def)

lemma execute_next:
  assumes "hp_http_errno parser = HPE_OK" and "dat \<noteq> []"
    and "http_loop (length dat) (env_of mx settings dat parser) (start_exec parser u) = Next s"
    and "hx_mark s = (\<lambda>_. None)" and "hp_http_errno (hx_parser s) = HPE_OK"
  shows "http_parser_execute mx settings dat parser u
    = Parsed (length dat) ((hx_parser s)\<lparr>hp_state := hx_state s, hp_nread := hx_nread s\<rparr>) (hx_user s)"
  using assms no_marks_leftover [OF assms(4,5)]
  by (simp add: http_parser_execute_def http_parser_flow_def HTTP_PARSER_ERRNO_def env_of_def start_exec_def
      RETURN_def exec_defs)

lemma execute_return:
  assumes "hp_http_errno parser = HPE_OK" and "dat \<noteq> []"
    and "http_loop (length dat) (env_of mx settings dat parser) (start_exec parser u) = Return n s"
  shows "http_parser_execute mx settings dat parser u = Parsed n (hx_parser s) (hx_user s)"
  using assms
  by (simp add: http_parser_execute_def http_parser_flow_def HTTP_PARSER_ERRNO_def env_of_def start_exec_def)

text \<open>A callback that succeeds and does not touch the parser.\<close>

definition willing_cb :: "'u http_cb option \<Rightarrow> bool" where
  "willing_cb cb \<longleftrightarrow> (\<forall>on parser u. cb = Some on \<longrightarrow> (\<exists>u'. on parser u = (CbReturn 0, parser, u')))"

lemma notify_willing:
  assumes "willing_cb cb" and "hp_http_errno (hx_parser s) = HPE_OK"
  shows "\<exists>u x. CALLBACK_NOTIFY cb err s = Next (s\<lparr>hx_parser := (hx_parser s)\<lparr>hp_state := x\<rparr>, hx_user := u\<rparr>)"
proof (cases cb)
  case None
  then show ?thesis using assms(2)
    by (intro exI [of _ "hx_user s"] exI [of _ "hp_state (hx_parser s)"])
      (simp add: CALLBACK_NOTIFY_def CALLBACK_NOTIFY_ER_def HTTP_PARSER_ERRNO_def http_assert_def)
next
  case (Some on)
  obtain u' where "on (hx_parser (save_state s)) (hx_user (save_state s)) = (CbReturn 0, hx_parser (save_state s), u')"
    using assms(1) Some unfolding willing_cb_def by blast
  then show ?thesis using assms(2) Some
    by (intro exI [of _ u'] exI [of _ "hx_state s"])
      (simp add: CALLBACK_NOTIFY_def CALLBACK_NOTIFY_ER_def HTTP_PARSER_ERRNO_def http_assert_def Let_def
        callback_result_def save_state_def exec_defs)
qed

subsection \<open>Methods\<close>

text \<open>The automaton over the letters of a method: the method guessed and the letters read.\<close>

definition method_step :: "http_method \<Rightarrow> nat \<Rightarrow> byte \<Rightarrow> http_method option" where
  "method_step m k c =
    (if c = 0 then None
     else if matcher_char m (of_nat k) = Some c then Some m
     else if (chr_A \<le> c \<and> c \<le> chr_Z) \<or> c = chr_minus then method_switch m (of_nat k) c
     else None)"

fun method_run :: "http_method \<Rightarrow> nat \<Rightarrow> byte list \<Rightarrow> http_method option" where
  "method_run m k [] = Some m"
| "method_run m k (c # cs) = Option.bind (method_step m k c) (\<lambda>m'. method_run m' (k + 1) cs)"

definition method_token :: "byte list \<Rightarrow> http_method option" where
  "method_token t = (case t of [] \<Rightarrow> None | c # cs \<Rightarrow> Option.bind (first_method c) (\<lambda>m. method_run m 1 cs))"

text \<open>The letters read so far begin the name of the guessed method.\<close>

definition method_prefix :: "http_method \<Rightarrow> byte list \<Rightarrow> bool" where
  "method_prefix m pre \<longleftrightarrow> (case method_strings m of None \<Rightarrow> False
     | Some str \<Rightarrow> length pre \<le> length str \<and> pre = take (length pre) (ascii str))"

definition all_methods :: "http_method list" where
  "all_methods = [HTTP_DELETE, HTTP_GET, HTTP_HEAD, HTTP_POST, HTTP_PUT, HTTP_CONNECT, HTTP_OPTIONS, HTTP_TRACE,
     HTTP_COPY, HTTP_LOCK, HTTP_MKCOL, HTTP_MOVE, HTTP_PROPFIND, HTTP_PROPPATCH, HTTP_SEARCH, HTTP_UNLOCK,
     HTTP_BIND, HTTP_REBIND, HTTP_UNBIND, HTTP_ACL, HTTP_REPORT, HTTP_MKACTIVITY, HTTP_CHECKOUT, HTTP_MERGE,
     HTTP_MSEARCH, HTTP_NOTIFY, HTTP_SUBSCRIBE, HTTP_UNSUBSCRIBE, HTTP_PATCH, HTTP_PURGE, HTTP_MKCALENDAR,
     HTTP_LINK, HTTP_UNLINK, HTTP_SOURCE]"

lemma all_methods: "method_strings m = Some str \<Longrightarrow> m \<in> set all_methods"
  by (cases m) (simp_all add: all_methods_def)

lemma method_token_complete:
  assumes "method_strings m = Some str" shows "method_token (ascii str) = Some m"
proof -
  have "\<forall>m\<in>set all_methods. method_token (ascii (the (method_strings m))) = Some m" by code_simp
  then show ?thesis using all_methods [OF assms] assms by (metis option.sel)
qed

lemma length_numerals:
  "length pre = 1 \<Longrightarrow> \<exists>a. pre = [a]" "length pre = 2 \<Longrightarrow> \<exists>a b. pre = [a, b]"
  "length pre = 3 \<Longrightarrow> \<exists>a b c. pre = [a, b, c]" "length pre = 4 \<Longrightarrow> \<exists>a b c d. pre = [a, b, c, d]"
  by (auto simp: eval_nat_numeral length_Suc_conv)

lemma method_switch_prefix:
  assumes "method_switch m (of_nat (length pre)) c = Some m'" and "method_prefix m pre" and "length pre \<le> 11"
  shows "method_prefix m' (pre @ [c])"
proof -
  have n: "(of_nat (length pre) :: 7 word) = of_nat k \<longleftrightarrow> length pre = k" if "k \<le> 11" for k
    using assms(3) that by (simp add: word_unat_eq_iff unat_of_nat)
  note n1 = n [of 1, simplified] n [of 2, simplified] n [of 3, simplified] n [of 4, simplified]
  show ?thesis
    using assms(1,2) unfolding method_switch_def n1
    by (auto split: if_splits dest!: length_numerals simp: method_prefix_def ascii_def)
qed

lemma matcher_prefix:
  assumes "method_prefix m pre"
  shows "\<exists>str. method_strings m = Some str \<and> length pre \<le> length str
    \<and> matcher_char m (of_nat (length pre)) = Some (if length pre < length str then ascii str ! length pre else 0)"
proof -
  obtain str where str: "method_strings m = Some str" "length pre \<le> length str"
    using assms by (auto simp: method_prefix_def split: option.splits)
  then have "unat (of_nat (length pre) :: 7 word) = length pre"
    using method_length [OF str(1)] by (simp add: unat_of_nat)
  then show ?thesis using str by (auto simp: matcher_char_def c_char_at_def)
qed

lemma method_prefix_length: "method_prefix m pre \<Longrightarrow> length pre \<le> 11"
  by (auto simp: method_prefix_def split: option.splits dest: method_length)

lemma method_step_prefix:
  assumes "method_step m (length pre) c = Some m'" and "method_prefix m pre"
  shows "method_prefix m' (pre @ [c])"
proof (cases "matcher_char m (of_nat (length pre)) = Some c")
  case True
  obtain str where str: "method_strings m = Some str" "length pre \<le> length str"
      "c = (if length pre < length str then ascii str ! length pre else 0)"
    using matcher_prefix [OF assms(2)] True by auto
  have "c \<noteq> 0" and m: "m' = m" using assms(1) True by (auto simp: method_step_def split: if_splits)
  then have "length pre < length str" using str by (auto split: if_splits)
  then show ?thesis
    using assms(2) str m by (simp add: method_prefix_def take_Suc_conv_app_nth)
next
  case False
  then show ?thesis
    using assms method_switch_prefix method_prefix_length [OF assms(2)]
    by (auto simp: method_step_def split: if_splits)
qed

lemma method_run_prefix:
  assumes "method_run m (length pre) t = Some m'" and "method_prefix m pre"
  shows "method_prefix m' (pre @ t)"
  using assms
proof (induction t arbitrary: m pre)
  case (Cons c t)
  obtain m1 where m1: "method_step m (length pre) c = Some m1" "method_run m1 (length pre + 1) t = Some m'"
    using Cons.prems(1) by (auto split: Option.bind_splits)
  show ?case
    using Cons.IH [of m1 "pre @ [c]"] method_step_prefix [OF m1(1) Cons.prems(2)] m1(2) by simp
qed simp

lemma first_method_prefix: "first_method c = Some m \<Longrightarrow> method_prefix m [c]"
  by (auto simp: first_method_def method_prefix_def ascii_def split: if_splits)

text \<open>The automaton stops at the end of a name exactly for the names of the table.\<close>

lemma method_token_iff:
  "method_token t = Some m \<and> (\<exists>str. method_strings m = Some str \<and> length t = length str)
     \<longleftrightarrow> (\<exists>str. method_strings m = Some str \<and> t = ascii str)"
proof
  assume *: "method_token t = Some m \<and> (\<exists>str. method_strings m = Some str \<and> length t = length str)"
  then obtain c cs m0 where t: "t = c # cs" "first_method c = Some m0" "method_run m0 1 cs = Some m"
    by (auto simp: method_token_def split: list.splits Option.bind_splits)
  then have "method_prefix m t"
    using method_run_prefix [of m0 "[c]" cs m] first_method_prefix by simp
  then show "\<exists>str. method_strings m = Some str \<and> t = ascii str"
    using * by (auto simp: method_prefix_def)
qed (auto simp: method_token_complete)

definition method_ends :: "http_method \<Rightarrow> nat \<Rightarrow> bool" where
  "method_ends m k \<longleftrightarrow> (case method_strings m of None \<Rightarrow> False | Some str \<Rightarrow> k = length str)"

text \<open>The state of a call while a method is read; \<open>pre\<close> are the letters it has read.\<close>

definition in_method :: "'u http_env \<Rightarrow> byte list \<Rightarrow> 'u http_exec \<Rightarrow> bool" where
  "in_method env pre s \<longleftrightarrow> hx_state s = s_req_method \<and> method_prefix (hp_method (hx_parser s)) pre
     \<and> hp_index (hx_parser s) = of_nat (length pre) \<and> hp_http_errno (hx_parser s) = HPE_OK
     \<and> hx_mark s = (\<lambda>_. None)"

lemma ascii_no_space: "method_strings m = Some str \<Longrightarrow> k < length str \<Longrightarrow> ascii str ! k \<noteq> chr_space \<and> ascii str ! k \<noteq> 0"
proof -
  assume a: "method_strings m = Some str" "k < length str"
  have "\<forall>m\<in>set all_methods. \<forall>c\<in>set (ascii (the (method_strings m))). c \<noteq> chr_space \<and> c \<noteq> 0" by code_simp
  then show ?thesis using a all_methods [OF a(1)] by (metis ascii_length nth_mem option.sel)
qed

lemma case_req_method_letter:
  assumes "in_method env pre s" and "hx_ch s = c" and "c \<noteq> chr_space"
  shows "case_req_method s = (case method_step (hp_method (hx_parser s)) (length pre) c of
      None \<Rightarrow> fail HPE_INVALID_METHOD s
    | Some m \<Rightarrow> Next (s\<lparr>hx_parser := (hx_parser s)\<lparr>hp_index := of_nat (length pre) + 1, hp_method := m\<rparr>\<rparr>))"
proof -
  obtain str where str: "method_strings (hp_method (hx_parser s)) = Some str" "length pre \<le> length str"
      "matcher_char (hp_method (hx_parser s)) (of_nat (length pre))
         = Some (if length pre < length str then ascii str ! length pre else 0)"
    using matcher_prefix [of "hp_method (hx_parser s)" pre] assms(1) by (auto simp: in_method_def)
  show ?thesis
    using assms str
    by (auto simp: case_req_method_def method_step_def in_method_def exec_defs Let_def split: option.split)
qed

lemma case_req_method_space:
  assumes "in_method env pre s" and "hx_ch s = chr_space"
  shows "case_req_method s = (if method_ends (hp_method (hx_parser s)) (length pre)
    then Next (s\<lparr>hx_state := s_req_spaces_before_url,
                 hx_parser := (hx_parser s)\<lparr>hp_index := of_nat (length pre) + 1\<rparr>\<rparr>)
    else fail HPE_INVALID_METHOD s)"
proof -
  obtain str where str: "method_strings (hp_method (hx_parser s)) = Some str" "length pre \<le> length str"
      "matcher_char (hp_method (hx_parser s)) (of_nat (length pre))
         = Some (if length pre < length str then ascii str ! length pre else 0)"
    using matcher_prefix [of "hp_method (hx_parser s)" pre] assms(1) by (auto simp: in_method_def)
  show ?thesis
    using assms str ascii_no_space [OF str(1)]
    by (auto simp: case_req_method_def method_ends_def in_method_def exec_defs Let_def)
qed

definition method_error :: "'u http_flow \<Rightarrow> bool" where
  "method_error f \<longleftrightarrow> (\<exists>r s. f = Return r s \<and> hp_http_errno (hx_parser s) = HPE_INVALID_METHOD)"

definition method_done :: "'u http_env \<Rightarrow> http_method \<Rightarrow> 'u http_flow \<Rightarrow> bool" where
  "method_done env m f \<longleftrightarrow> (\<exists>s. f = Next s \<and> hx_p s = length (en_data env) \<and> hx_mark s = (\<lambda>_. None)
     \<and> hp_http_errno (hx_parser s) = HPE_OK \<and> hx_state s = s_req_spaces_before_url \<and> hp_method (hx_parser s) = m)"

lemma fail_method: "method_error (fail HPE_INVALID_METHOD s)"
  by (simp add: method_error_def fail_def goto_error_def RETURN_def SET_ERRNO_def HTTP_PARSER_ERRNO_def exec_defs Let_def)

lemma drop_ConsD: "drop p xs = x # ys \<Longrightarrow> p < length xs \<and> xs ! p = x \<and> drop (p + 1) xs = ys"
  by (metis Cons_nth_drop_Suc Suc_eq_plus1 drop_eq_Nil linorder_not_less list.distinct(1) list.inject)

lemma in_method_upd [simp]:
  "in_method env pre (s\<lparr>hx_ch := c\<rparr>) = in_method env pre s" "in_method env pre (s\<lparr>hx_nread := n\<rparr>) = in_method env pre s"
  "in_method env pre (s\<lparr>hx_p := p\<rparr>) = in_method env pre s"
  by (simp_all add: in_method_def)

lemma fail_return: "\<exists>r s'. fail e s = Return r s'"
  by (simp add: fail_def goto_error_def RETURN_def Let_def)

text \<open>The body of the loop in \<open>s_req_method\<close>, while the headers are within their limit.\<close>

lemma in_method_body:
  assumes "in_method env pre s" and "unat (hx_nread s) < unat (en_max_header_size env)"
  shows "loop_body env s = case_req_method (s\<lparr>hx_ch := en_data env ! hx_p s, hx_nread := hx_nread s + 1\<rparr>)"
proof -
  let ?s = "s\<lparr>hx_ch := en_data env ! hx_p s, hx_nread := hx_nread s + 1\<rparr>"
  have st: "hx_state s = s_req_method" using assms(1) by (simp add: in_method_def)
  have le: "hx_nread s + 1 \<le> en_max_header_size env" using assms(2) by (simp add: inc_le word_less_nat_alt)
  have "case_req_method ?s \<noteq> Reexecute s'" for s'
    using case_req_method_letter [of env pre ?s] case_req_method_space [of env pre ?s] fail_return [of HPE_INVALID_METHOD ?s] assms(1)
    by (cases "hx_ch ?s = chr_space") (auto split: option.split)
  then show ?thesis
    by (intro loop_body_header le) (simp_all add: st PARSING_HEADER_def http_switch_def)
qed

lemma unat_u32_less: "unat (w :: u32) < 4294967296"
  by (rule order_less_le_trans [OF unsigned_less]) simp

lemma method_loop_end:
  assumes "in_method env pre s" and "drop (hx_p s) (en_data env) = [chr_space]"
    and "unat (hx_nread s) < unat (en_max_header_size env)"
  shows "if method_ends (hp_method (hx_parser s)) (length pre)
    then method_done env (hp_method (hx_parser s)) (http_loop (Suc n) env s)
    else method_error (http_loop (Suc n) env s)"
proof -
  note p = drop_ConsD [OF assms(2)]
  then have len: "hx_p s + 1 = length (en_data env)" by (simp add: le_antisym)
  let ?s = "s\<lparr>hx_ch := chr_space, hx_nread := hx_nread s + 1\<rparr>"
  have body: "loop_body env s = (if method_ends (hp_method (hx_parser s)) (length pre)
    then Next (?s\<lparr>hx_state := s_req_spaces_before_url, hx_parser := (hx_parser s)\<lparr>hp_index := of_nat (length pre) + 1\<rparr>\<rparr>)
    else fail HPE_INVALID_METHOD ?s)"
    using in_method_body [OF assms(1,3)] case_req_method_space [of env pre ?s] assms(1) p by simp
  show ?thesis
  proof (cases "method_ends (hp_method (hx_parser s)) (length pre)")
    case True
    then show ?thesis using body p len assms(1)
      by (simp add: http_loop_next http_loop_end method_done_def in_method_def)
  next
    case False
    obtain r s' where "fail HPE_INVALID_METHOD ?s = Return r s'" using fail_return by blast
    then show ?thesis using False body p fail_method [of ?s] by (simp add: http_loop_return)
  qed
qed

lemma method_loop:
  assumes "in_method env pre s" and "drop (hx_p s) (en_data env) = t @ [chr_space]" and "chr_space \<notin> set t"
    and "unat (hx_nread s) + length t < unat (en_max_header_size env)" and "length t < n"
  shows "case method_run (hp_method (hx_parser s)) (length pre) t of
      None \<Rightarrow> method_error (http_loop n env s)
    | Some m \<Rightarrow> if method_ends m (length pre + length t) then method_done env m (http_loop n env s)
                else method_error (http_loop n env s)"
  using assms
proof (induction t arbitrary: pre s n)
  case Nil
  obtain n' where "n = Suc n'" using Nil.prems(5) by (cases n) auto
  then show ?case using method_loop_end [of env pre s n'] Nil.prems by simp
next
  case (Cons c t)
  obtain n' where n: "n = Suc n'" "length t < n'" using Cons.prems(5) by (cases n) auto
  have d: "drop (hx_p s) (en_data env) = c # (t @ [chr_space])" and c: "c \<noteq> chr_space"
    using Cons.prems(2,3) by auto
  note p = drop_ConsD [OF d]
  let ?s = "s\<lparr>hx_ch := c, hx_nread := hx_nread s + 1\<rparr>"
  have body: "loop_body env s = (case method_step (hp_method (hx_parser s)) (length pre) c of
      None \<Rightarrow> fail HPE_INVALID_METHOD ?s
    | Some m \<Rightarrow> Next (?s\<lparr>hx_parser := (hx_parser s)\<lparr>hp_index := of_nat (length pre) + 1, hp_method := m\<rparr>\<rparr>))"
    using in_method_body [OF Cons.prems(1)] case_req_method_letter [of env pre ?s c] Cons.prems(1,4) p c
    by (simp split: option.split)
  show ?case
  proof (cases "method_step (hp_method (hx_parser s)) (length pre) c")
    case None
    obtain r s' where "fail HPE_INVALID_METHOD ?s = Return r s'" using fail_return by blast
    then show ?thesis using None body p n fail_method [of ?s] by (simp add: http_loop_return)
  next
    case (Some m)
    let ?t = "?s\<lparr>hx_parser := (hx_parser s)\<lparr>hp_index := of_nat (length pre) + 1, hp_method := m\<rparr>, hx_p := hx_p s + 1\<rparr>"
    have "in_method env (pre @ [c]) ?t"
      using Cons.prems(1) method_step_prefix [OF Some] by (simp add: in_method_def add.commute)
    moreover have "unat (hx_nread s + 1) + length t < unat (en_max_header_size env)"
      using Cons.prems(4) unat_u32_less [of "en_max_header_size env"] unat_add_small [of "hx_nread s" 1] by simp
    moreover have step: "http_loop n env s = http_loop n' env ?t"
      using n p Some body by (simp add: http_loop_next)
    ultimately show ?thesis
      unfolding step using Cons.IH [of "pre @ [c]" ?t n'] Cons.prems(3) n p Some by (cases "method_run m (Suc (length pre)) t") simp_all
  qed
qed

definition the_method :: "byte list \<Rightarrow> http_method option" where
  "the_method t = List.find (\<lambda>m. t = ascii (the (method_strings m))) all_methods"

lemma method_strings_inj:
  assumes "method_strings m = Some str" and "method_strings m' = Some str'" and "ascii str = ascii str'"
  shows "m = m'"
  using method_token_complete [OF assms(1)] method_token_complete [OF assms(2)] assms(3) by simp

lemma all_methods_strings: "m \<in> set all_methods \<Longrightarrow> \<exists>str. method_strings m = Some str"
  by (auto simp: all_methods_def)

lemma the_method_eq: "the_method t = Some m \<longleftrightarrow> (\<exists>str. method_strings m = Some str \<and> t = ascii str)"
proof
  assume "the_method t = Some m"
  then have "m \<in> set all_methods" "t = ascii (the (method_strings m))"
    unfolding the_method_def by (auto simp: find_Some_iff in_set_conv_nth)
  then show "\<exists>str. method_strings m = Some str \<and> t = ascii str" using all_methods_strings by fastforce
next
  assume "\<exists>str. method_strings m = Some str \<and> t = ascii str"
  then obtain str where str: "method_strings m = Some str" "t = ascii str" by blast
  have "the_method t \<noteq> None"
    using all_methods [OF str(1)] str unfolding the_method_def find_None_iff by force
  then obtain m' where m': "the_method t = Some m'" by blast
  then have "m' \<in> set all_methods" "t = ascii (the (method_strings m'))"
    unfolding the_method_def by (auto simp: find_Some_iff in_set_conv_nth)
  then show "the_method t = Some m"
    using m' str all_methods_strings method_strings_inj by fastforce
qed

text \<open>What a parser for requests makes of a first token.\<close>

lemma request_token:
  assumes "willing_cb (on_message_begin (en_settings env))" and "en_data env = c # t @ [chr_space]"
    and "chr_space \<notin> set (c # t)" and "c \<noteq> CR" and "c \<noteq> LF"
    and "length (c # t) < unat (en_max_header_size env)"
    and "s = \<lparr>hx_parser = http_parser_init HTTP_REQUEST, hx_user = u, hx_p = 0, hx_ch = 0, hx_state = s_start_req,
              hx_nread = 0, hx_mark = (\<lambda>_. None)\<rparr>"
  shows "case the_method (c # t) of Some m \<Rightarrow> method_done env m (http_loop (length (en_data env)) env s)
    | None \<Rightarrow> method_error (http_loop (length (en_data env)) env s)"
proof -
  let ?s = "s\<lparr>hx_ch := c, hx_nread := 1\<rparr>"
  let ?env = env
  have n: "length (en_data env) = Suc (length t + 1)" using assms(2) by simp
  have le: "1 \<le> en_max_header_size env" using assms(6) by (simp add: word_le_nat_alt)
  have tok: "the_method (c # t) = Some m \<longleftrightarrow> (\<exists>m0. first_method c = Some m0 \<and> method_run m0 1 t = Some m
      \<and> method_ends m (length (c # t)))" for m
    unfolding the_method_eq method_token_iff [symmetric]
    by (auto simp: method_token_def method_ends_def split: Option.bind_splits option.splits)
  have alpha: "first_method c = Some m0 \<Longrightarrow> IS_ALPHA c" for m0
    by (auto simp: first_method_def IS_ALPHA_def LOWER_def split: if_splits)
  have p: "hx_p s < length (en_data env)" "en_data env ! hx_p s = c" using assms(2,7) by simp_all
  show ?thesis
  proof (cases "first_method c")
    case None
    have "\<exists>s1. case_start_req env ?s = fail HPE_INVALID_METHOD s1"
      using assms(4,5) None by (cases "IS_ALPHA c") (auto simp: case_start_req_def Let_def start_message_def exec_defs)
    then obtain s1 where s1: "case_start_req env ?s = fail HPE_INVALID_METHOD s1" by blast
    obtain r s2 where r: "fail HPE_INVALID_METHOD s1 = Return r s2" using fail_return by blast
    have "loop_body env s = fail HPE_INVALID_METHOD s1"
      by (rule loop_body_header) (use assms(7) le p s1 r in \<open>simp_all add: PARSING_HEADER_def http_switch_def\<close>)
    then have "method_error (http_loop (length (en_data env)) env s)"
      using p n r fail_method [of s1] by (simp add: http_loop_return)
    moreover have "the_method (c # t) = None" using tok None by (cases "the_method (c # t)") auto
    ultimately show ?thesis by simp
  next
    case (Some m0)
    define s1 where "s1 = UPDATE_STATE s_req_method (set_parser (\<lambda>parser. parser\<lparr>hp_method := m0\<rparr>)
      (set_parser (\<lambda>parser. parser\<lparr>hp_index := 1, hp_method := HTTP_DELETE\<rparr>) (start_message ?s)))"
    have sw: "case_start_req env ?s = notify_message_begin env s1"
      using assms(4,5) alpha [OF Some] Some by (simp add: case_start_req_def Let_def s1_def start_message_def exec_defs)
    have "hp_http_errno (hx_parser s1) = HPE_OK"
      using assms(7) by (simp add: s1_def start_message_def exec_defs http_parser_init_def)
    then obtain u' x where s2: "notify_message_begin env s1 = Next (s1\<lparr>hx_parser := (hx_parser s1)\<lparr>hp_state := x\<rparr>, hx_user := u'\<rparr>)"
      using notify_willing [OF assms(1)] unfolding notify_message_begin_def by blast
    let ?t = "s1\<lparr>hx_parser := (hx_parser s1)\<lparr>hp_state := x\<rparr>, hx_user := u', hx_p := hx_p s1 + 1\<rparr>"
    have "loop_body env s = notify_message_begin env s1"
      by (rule loop_body_header) (use assms(7) le p sw s2 in \<open>simp_all add: PARSING_HEADER_def http_switch_def\<close>)
    then have step: "http_loop (length (en_data env)) env s = http_loop (length t + 1) env ?t"
      using p n s2 by (simp add: http_loop_next)
    have t: "in_method env [c] ?t" "hx_nread ?t = 1" "hx_p ?t = 1" "hp_method (hx_parser ?t) = m0"
      using assms(7) first_method_prefix [OF Some]
      by (simp_all add: in_method_def s1_def start_message_def exec_defs http_parser_init_def)
    note run = method_loop [OF t(1), of t "length t + 1"]
    show ?thesis
    proof (cases "method_run m0 1 t")
      case None
      have "the_method (c # t) \<noteq> Some x" for x using tok [of x] Some None by auto
      then have "the_method (c # t) = None" by (cases "the_method (c # t)") auto
      show ?thesis unfolding step using run None \<open>the_method (c # t) = None\<close> assms(2,3,6) t by simp
    next
      case m: (Some m)
      show ?thesis
      proof (cases "method_ends m (length (c # t))")
        case True
        then have "the_method (c # t) = Some m" using tok Some m by simp
        then show ?thesis unfolding step using run m True assms(2,3,6) t by simp
      next
        case False
        have "the_method (c # t) \<noteq> Some x" for x using tok [of x] Some m False by auto
        then have "the_method (c # t) = None" by (cases "the_method (c # t)") auto
        show ?thesis unfolding step using run m False \<open>the_method (c # t) = None\<close> assms(2,3,6) t by simp
      qed
    qed
  qed
qed

text \<open>C9: The method automaton of the request line recognises exactly the 34 names of \<open>HTTP_METHOD_MAP\<close>: a first
  token followed by a space is accepted, with the method of that name, if it is one of them, and is an
  \<open>HPE_INVALID_METHOD\<close> error otherwise.\<close>

theorem http_method_exact:
  assumes "willing_cb (on_message_begin settings)" and "t \<noteq> []" and "chr_space \<notin> set t"
    and "hd t \<noteq> CR" and "hd t \<noteq> LF" and "length t < unat mx"
  shows "case http_parser_execute mx settings (t @ [chr_space]) (http_parser_init HTTP_REQUEST) u of
      Parsed n parser u' \<Rightarrow>
        (case the_method t of
           Some m \<Rightarrow> n = length t + 1 \<and> hp_http_errno parser = HPE_OK \<and> hp_method parser = m
                    \<and> hp_state parser = s_req_spaces_before_url
         | None \<Rightarrow> hp_http_errno parser = HPE_INVALID_METHOD)
    | _ \<Rightarrow> False"
proof -
  obtain c cs where t: "t = c # cs" using assms(2) by (cases t) auto
  let ?parser = "http_parser_init HTTP_REQUEST" and ?dat = "t @ [chr_space]"
  let ?env = "env_of mx settings ?dat ?parser"
  let ?loop = "http_loop (length ?dat) ?env (start_exec ?parser u)"
  have marks: "start_mark s_start_req = (\<lambda>_. None)"
    by (rule ext) (simp add: start_mark_def url_state_def split: data_for.split)
  have init: "hp_http_errno ?parser = HPE_OK" "?dat \<noteq> []" by (simp_all add: http_parser_init_def)
  have start: "start_exec ?parser u = \<lparr>hx_parser = ?parser, hx_user = u, hx_p = 0, hx_ch = 0, hx_state = s_start_req,
              hx_nread = 0, hx_mark = (\<lambda>_. None)\<rparr>"
    using marks by (simp add: start_exec_def http_parser_init_def)
  have "case the_method (c # cs) of
      Some m \<Rightarrow> method_done ?env m (http_loop (length (en_data ?env)) ?env (start_exec ?parser u))
    | None \<Rightarrow> method_error (http_loop (length (en_data ?env)) ?env (start_exec ?parser u))"
    by (rule request_token [OF _ _ _ _ _ _ start]) (use assms t in simp_all)
  then have run: "case the_method t of Some m \<Rightarrow> method_done ?env m ?loop | None \<Rightarrow> method_error ?loop"
    by (simp only: env_of_sel t)
  show ?thesis
  proof (cases "the_method t")
    case None
    then obtain r s where "?loop = Return r s" "hp_http_errno (hx_parser s) = HPE_INVALID_METHOD"
      using run by (auto simp: method_error_def)
    then show ?thesis using None execute_return [OF init, of mx settings u r s] by simp
  next
    case (Some m)
    then obtain s where "?loop = Next s" "hx_mark s = (\<lambda>_. None)" "hp_http_errno (hx_parser s) = HPE_OK"
        "hx_state s = s_req_spaces_before_url" "hp_method (hx_parser s) = m"
      using run by (auto simp: method_done_def)
    then show ?thesis using Some execute_next [OF init, of mx settings u s] by simp
  qed
qed

theorem http_method_exact_witness:
  "case http_parser_execute HTTP_MAX_HEADER_SIZE http_parser_settings_init ([71, 69, 84] @ [32]) (http_parser_init HTTP_REQUEST) () of
      Parsed n parser u' \<Rightarrow>
        (case the_method [71, 69, 84] of
           Some m \<Rightarrow> n = length [71, 69, 84 :: byte] + 1 \<and> hp_http_errno parser = HPE_OK \<and> hp_method parser = m
                    \<and> hp_state parser = s_req_spaces_before_url
         | None \<Rightarrow> hp_http_errno parser = HPE_INVALID_METHOD)
    | _ \<Rightarrow> False"
  by (rule http_method_exact) (simp_all add: willing_cb_def http_parser_settings_init_def HTTP_MAX_HEADER_SIZE_def)

end
