(* ===== verification/HTTP_Tables.thy ===== *)
theory HTTP_Tables imports HTTP_Data begin

text \<open>
  The tables of \<^verbatim>\<open>http_parser.c\<close> against the definitions of the RFCs, byte by byte.
\<close>

text \<open>RFC 2616: a token character is a printable US-ASCII character that is not one of the separators
  \<^verbatim>\<open>" ( ) , / : ; < = > ? @ [ \ ] { }\<close>.\<close>

definition rfc_token :: "nat \<Rightarrow> bool" where
  "rfc_token n \<longleftrightarrow> 32 < n \<and> n < 127 \<and> n \<notin> {34, 40, 41, 44, 47, 58, 59, 60, 61, 62, 63, 64, 91, 92, 93, 123, 125}"

definition rfc_lower :: "nat \<Rightarrow> nat" where
  "rfc_lower n = (if 65 \<le> n \<and> n \<le> 90 then n + 32 else n)"

definition rfc_hex_value :: "nat \<Rightarrow> nat option" where
  "rfc_hex_value n = (if 48 \<le> n \<and> n \<le> 57 then Some (n - 48)
     else if 65 \<le> n \<and> n \<le> 70 then Some (n - 55)
     else if 97 \<le> n \<and> n \<le> 102 then Some (n - 87) else None)"

text \<open>The printable characters that need no escape and do not end a path.\<close>

definition rfc_url_char :: "nat \<Rightarrow> bool" where
  "rfc_url_char n \<longleftrightarrow> 32 < n \<and> n < 127 \<and> n \<noteq> 35 \<and> n \<noteq> 63"

lemma upt_128: "[0..<128] = 0 # 1 # [2..<128]"
  by (simp add: upt_conv_Cons)

lemma map_const_upt: "(\<And>n. a \<le> n \<Longrightarrow> f n = x) \<Longrightarrow> map f [a..<b] = replicate (b - a) x"
  by (induction b) (auto simp: replicate_append_same Suc_diff_le)

lemma nth_byte_table:
  fixes c :: byte
  assumes "tab = map f [0..<128] @ replicate 128 x" and "\<And>n. 128 \<le> n \<Longrightarrow> f n = x"
  shows "tab ! unat c = f (unat c)"
proof -
  have "unat c < 256" using unsigned_less [of c] by simp
  then show ?thesis using assms by (simp add: nth_append)
qed

lemma tokens_eq: "tokens = map (\<lambda>n. if n = 32 then 32 else if rfc_token n then of_nat (rfc_lower n) else 0) [0..<128] @ replicate 128 0"
  by (simp add: tokens_def upt_128 upt_rec_numeral rfc_token_def rfc_lower_def)

lemma unhex_eq: "unhex = map (\<lambda>n. if n < 128 then (case rfc_hex_value n of Some v \<Rightarrow> of_nat v | None \<Rightarrow> -1) else 0) [0..<128]
    @ replicate 128 0"
  by (simp add: unhex_def upt_128 upt_rec_numeral rfc_hex_value_def)

lemma url_bits: "\<forall>n\<in>set ([0..<128]). bit (normal_url_char ! (n div 8)) (n mod 8) \<longleftrightarrow> rfc_url_char n"
  by (simp add: normal_url_char_def upt_128 upt_rec_numeral rfc_url_char_def)

lemma token_table: "TOKEN c = (if rfc_token (unat c) then of_nat (rfc_lower (unat c)) else 0)"
proof -
  have "c = 32 \<longleftrightarrow> unat c = 32" by (simp add: word_unat_eq_iff)
  then show ?thesis
    by (simp add: TOKEN_def STRICT_TOKEN_def nth_byte_table [OF tokens_eq] rfc_token_def)
qed

lemma unhex_table:
  fixes c :: byte
  shows "unhex ! unat c =
    (if unat c < 128 then (case rfc_hex_value (unat c) of Some v \<Rightarrow> of_nat v | None \<Rightarrow> -1) else 0)"
  by (rule nth_byte_table [OF unhex_eq]) simp

lemma url_table: "IS_URL_CHAR c \<longleftrightarrow> rfc_url_char (unat c)"
proof -
  have n: "unat c < 256" using unsigned_less [of c] by simp
  have seven: "unat (c AND 7) = unat c mod 8"
    using unat_take_bit [of 3 c] by (simp add: take_bit_eq_mask mask_eq_exp_minus_1)
  have eight: "unat (drop_bit 3 c) = unat c div 8" using unat_drop_bit [of 3 c] by simp
  have "IS_URL_CHAR c \<longleftrightarrow> bit (normal_url_char ! (unat c div 8)) (unat c mod 8)"
    unfolding IS_URL_CHAR_def BIT_AT_def seven eight bit_iff_and_push_bit_not_eq_0 ..
  also have "\<dots> \<longleftrightarrow> rfc_url_char (unat c)"
  proof (cases "unat c < 128")
    case True
    then show ?thesis using url_bits by simp
  next
    case False
    have "length normal_url_char = 32" by (simp add: normal_url_char_def)
    have "normal_url_char ! j = 0" if "16 \<le> j" "j < 32" for j
      using that by (simp add: normal_url_char_def nth_append)
    then show ?thesis using False n by (simp add: rfc_url_char_def less_mult_imp_div_less div_le_mono)
  qed
  finally show ?thesis .
qed

definition hex_digit :: "byte \<Rightarrow> nat" where "hex_digit c = (case rfc_hex_value (unat c) of Some v \<Rightarrow> v | None \<Rightarrow> 0)"

lemma hex_digit_unhex:
  assumes "rfc_hex_value (unat c) \<noteq> None"
  shows "unhex ! unat c \<noteq> -1" and "unat (scast (unhex ! unat c) :: u64) = hex_digit c" and "hex_digit c \<le> 15"
    and "c \<noteq> CR"
proof -
  obtain v where v: "rfc_hex_value (unat c) = Some v" using assms by blast
  then have v15: "v \<in> set [0..<16]" and "unat c < 128" and "c \<noteq> CR"
    by (auto simp: rfc_hex_value_def split: if_splits)
  then have u: "unhex ! unat c = of_nat v" "hex_digit c = v" using v by (simp_all add: unhex_table hex_digit_def)
  have "\<forall>v\<in>set [0..<16]. (of_nat v :: byte) \<noteq> -1 \<and> unat (scast (of_nat v :: byte) :: u64) = v" by code_simp
  then show "unhex ! unat c \<noteq> -1" "unat (scast (unhex ! unat c) :: u64) = hex_digit c"
    unfolding u using v15 by blast+
  show "hex_digit c \<le> 15" "c \<noteq> CR" using v15 u \<open>c \<noteq> CR\<close> by simp_all
qed


end
