(* ===== verification/HTTP_Sizes.thy ===== *)
theory HTTP_Sizes imports HTTP_Method HTTP_Tables begin

text \<open>
  The numbers \<open>http_parser_execute\<close> reads, chunk sizes and content lengths: the values computed, and
  the limits at which the code gives up before a 64-bit value would wrap.
\<close>

subsection \<open>Chunk sizes\<close>

definition hex_from :: "nat \<Rightarrow> byte list \<Rightarrow> nat" where "hex_from v ds = foldl (\<lambda>v c. v * 16 + hex_digit c) v ds"

lemma hex_from_simps [simp]: "hex_from v [] = v" "hex_from v (c # ds) = hex_from (v * 16 + hex_digit c) ds"
  by (simp_all add: hex_from_def)

lemma hex_from_ge: "v \<le> hex_from v ds"
proof (induction ds arbitrary: v)
  case (Cons c ds)
  show ?case using Cons.IH [of "v * 16 + hex_digit c"] by simp
qed simp

definition chunk_limit :: nat where "chunk_limit = 2 ^ 64 - 16"

text \<open>The state of a call within the digits of a chunk size, \<open>v\<close> the value so far.\<close>

definition in_chunk_size :: "nat \<Rightarrow> 'u http_exec \<Rightarrow> bool" where
  "in_chunk_size v s \<longleftrightarrow> hx_state s = s_chunk_size \<and> chunked s \<and> unat (hp_content_length (hx_parser s)) = v
     \<and> hp_http_errno (hx_parser s) = HPE_OK \<and> hx_mark s = (\<lambda>_. None)"

definition chunk_error :: "'u http_flow \<Rightarrow> bool" where
  "chunk_error f \<longleftrightarrow> (\<exists>r s. f = Return r s \<and> hp_http_errno (hx_parser s) = HPE_INVALID_CONTENT_LENGTH)"

definition chunk_done :: "'u http_env \<Rightarrow> nat \<Rightarrow> 'u http_flow \<Rightarrow> bool" where
  "chunk_done env v f \<longleftrightarrow> (\<exists>s. f = Next s \<and> hx_p s = length (en_data env) \<and> hx_mark s = (\<lambda>_. None)
     \<and> hp_http_errno (hx_parser s) = HPE_OK \<and> hx_state s = s_chunk_size_almost_done
     \<and> unat (hp_content_length (hx_parser s)) = v)"

lemma chunk_bound:
  fixes c :: u64
  shows "(ULLONG_MAX - 16) div 16 < c \<longleftrightarrow> 0xFFFFFFFFFFFFFFE < unat c"
  by (simp add: ULLONG_MAX_def word_less_nat_alt unat_div)

lemma nread_step:
  assumes "unat (n :: u32) + Suc k \<le> unat (mx :: u32)"
  shows "n + 1 \<le> mx" and "unat (n + 1) + k \<le> unat mx"
  using assms unat_u32_less [of mx] unat_add_small [of n 1] by (simp_all add: word_le_nat_alt)

lemma chunk_size_loop:
  assumes "in_chunk_size v s" and "drop (hx_p s) (en_data env) = ds @ [CR]" and "\<forall>c\<in>set ds. rfc_hex_value (unat c) \<noteq> None"
    and "unat (hx_nread s) + Suc (length ds) \<le> unat (en_max_header_size env)" and "length ds < n" and "v < chunk_limit"
  shows "if hex_from v ds < chunk_limit then chunk_done env (hex_from v ds) (http_loop n env s)
    else chunk_error (http_loop n env s)"
  using assms
proof (induction ds arbitrary: v s n)
  case Nil
  obtain n' where n: "n = Suc n'" using Nil.prems(5) by (cases n) auto
  note p = drop_ConsD [OF Nil.prems(2) [unfolded append_Nil]]
  then have len: "hx_p s + 1 = length (en_data env)" by (simp add: le_antisym)
  have "loop_body env s = Next (s\<lparr>hx_ch := CR, hx_nread := hx_nread s + 1, hx_state := s_chunk_size_almost_done\<rparr>)"
    by (rule loop_body_header)
      (use Nil.prems(1) p nread_step(1) [OF Nil.prems(4)] in
        \<open>simp_all add: in_chunk_size_def chunked_def PARSING_HEADER_def http_switch_def case_chunk_size_def http_assert_def
          exec_defs Let_def\<close>)
  then show ?case
    using Nil.prems(1,6) n p len by (simp add: http_loop_next http_loop_end chunk_done_def in_chunk_size_def)
next
  case (Cons c ds)
  obtain n' where n: "n = Suc n'" "length ds < n'" using Cons.prems(5) by (cases n) auto
  note p = drop_ConsD [OF Cons.prems(2) [unfolded append_Cons]]
  have hex: "rfc_hex_value (unat c) \<noteq> None" using Cons.prems(3) by simp
  note d = hex_digit_unhex [OF hex]
  let ?s = "s\<lparr>hx_ch := c, hx_nread := hx_nread s + 1\<rparr>"
  let ?v = "v * 16 + hex_digit c"
  have nread: "unat (hx_nread s) + Suc (Suc (length ds)) \<le> unat (en_max_header_size env)" using Cons.prems(4) by simp
  show ?case
  proof (cases "v \<le> 0xFFFFFFFFFFFFFFE")
    case True
    let ?t = "scast (unhex ! unat c) :: u64"
    let ?c = "hp_content_length (hx_parser s) * 16 + ?t"
    have small: "\<not> (ULLONG_MAX - 16) div 16 < hp_content_length (hx_parser s)"
      using Cons.prems(1) True by (simp add: chunk_bound in_chunk_size_def)
    have body: "loop_body env s = Next (?s\<lparr>hx_parser := (hx_parser s)\<lparr>hp_content_length := ?c\<rparr>\<rparr>)"
      by (rule loop_body_header)
        (use Cons.prems(1) p d small nread_step(1) [OF nread] in
          \<open>simp_all add: in_chunk_size_def chunked_def PARSING_HEADER_def http_switch_def case_chunk_size_def http_assert_def
            exec_defs Let_def\<close>)
    have v: "unat ?c = ?v"
      using chunk_step(1) [OF small, of ?t] d Cons.prems(1) by (simp add: in_chunk_size_def)
    let ?u = "?s\<lparr>hx_parser := (hx_parser s)\<lparr>hp_content_length := ?c\<rparr>, hx_p := hx_p s + 1\<rparr>"
    have "in_chunk_size ?v ?u" using Cons.prems(1) v by (simp add: in_chunk_size_def chunked_def)
    moreover have "?v < chunk_limit" using True d(3) by (simp add: chunk_limit_def)
    ultimately have "if hex_from ?v ds < chunk_limit then chunk_done env (hex_from ?v ds) (http_loop n' env ?u)
        else chunk_error (http_loop n' env ?u)"
      using Cons.prems(3) nread_step(2) [OF nread] n p by (intro Cons.IH) simp_all
    moreover have "http_loop n env s = http_loop n' env ?u" using n p body by (simp add: http_loop_next)
    ultimately show ?thesis by (simp only: hex_from_simps)
  next
    case False
    have big: "(ULLONG_MAX - 16) div 16 < hp_content_length (hx_parser s)"
      using Cons.prems(1) False by (simp add: chunk_bound in_chunk_size_def)
    obtain r s' where r: "fail HPE_INVALID_CONTENT_LENGTH ?s = Return r s'" using fail_return by blast
    have "hp_http_errno (hx_parser s') = HPE_INVALID_CONTENT_LENGTH"
      using r by (auto simp: fail_def goto_error_def RETURN_def SET_ERRNO_def HTTP_PARSER_ERRNO_def exec_defs Let_def)
    moreover have "loop_body env s = fail HPE_INVALID_CONTENT_LENGTH ?s"
      by (rule loop_body_header)
        (use Cons.prems(1) p d big r nread_step(1) [OF nread] in
          \<open>simp_all add: in_chunk_size_def chunked_def PARSING_HEADER_def http_switch_def case_chunk_size_def http_assert_def
            exec_defs Let_def\<close>)
    moreover have "\<not> hex_from v (c # ds) < chunk_limit"
      using False hex_from_ge [of ?v ds] by (simp add: chunk_limit_def)
    ultimately show ?thesis using n p r by (simp add: http_loop_return chunk_error_def)
  qed
qed

lemma chunk_size_first:
  assumes "hx_state s = s_chunk_size_start" and "chunked s" and "hx_nread s = 0"
    and "hp_http_errno (hx_parser s) = HPE_OK" and "hx_mark s = (\<lambda>_. None)"
    and "en_data env = c # ds @ [CR]" and "\<forall>c\<in>set (c # ds). rfc_hex_value (unat c) \<noteq> None"
    and "length ds + 2 \<le> unat (en_max_header_size env)" and "hx_p s = 0"
  shows "if hex_from 0 (c # ds) < chunk_limit then chunk_done env (hex_from 0 (c # ds)) (http_loop (length ds + 2) env s)
    else chunk_error (http_loop (length ds + 2) env s)"
proof -
  have hex: "rfc_hex_value (unat c) \<noteq> None" using assms(7) by simp
  note d = hex_digit_unhex [OF hex]
  let ?c = "scast (unhex ! unat c) :: u64"
  let ?u = "s\<lparr>hx_ch := c, hx_nread := hx_nread s + 1, hx_parser := (hx_parser s)\<lparr>hp_content_length := ?c\<rparr>,
    hx_state := s_chunk_size\<rparr>"
  have "1 \<le> en_max_header_size env" using assms(8) by (simp add: word_le_nat_alt)
  then have body: "loop_body env s = Next ?u"
    by (intro loop_body_header)
      (use assms d in \<open>simp_all add: chunked_def PARSING_HEADER_def http_switch_def case_chunk_size_start_def
        http_assert_def exec_defs Let_def\<close>)
  have "in_chunk_size (hex_digit c) (?u\<lparr>hx_p := 1\<rparr>)"
    using assms d by (simp add: in_chunk_size_def chunked_def)
  moreover have "hex_digit c < chunk_limit" using d(3) by (simp add: chunk_limit_def)
  ultimately have "if hex_from (hex_digit c) ds < chunk_limit
      then chunk_done env (hex_from (hex_digit c) ds) (http_loop (length ds + 1) env (?u\<lparr>hx_p := 1\<rparr>))
      else chunk_error (http_loop (length ds + 1) env (?u\<lparr>hx_p := 1\<rparr>))"
    using assms by (intro chunk_size_loop) simp_all
  moreover have "http_loop (length ds + 2) env s = http_loop (length ds + 1) env (?u\<lparr>hx_p := 1\<rparr>)"
    using http_loop_next [of s env _ "length ds + 1"] body assms(6,9) by simp
  moreover have "hex_from 0 (c # ds) = hex_from (hex_digit c) ds" by simp
  ultimately show ?thesis by (simp only:)
qed

text \<open>C8: A chunk size is read exactly: for any digits the parser takes the number they denote as its content length, as
  long as that number is below \<open>2 ^ 64 - 16\<close>, and reports \<open>HPE_INVALID_CONTENT_LENGTH\<close> for every larger one, so
  the 64-bit value never wraps.\<close>

theorem chunk_size_exact:
  assumes "hp_state parser = s_chunk_size_start" and "is_chunked parser" and "hp_nread parser = 0"
    and "hp_http_errno parser = HPE_OK" and "ds \<noteq> []" and "\<forall>c\<in>set ds. rfc_hex_value (unat c) \<noteq> None"
    and "length ds < unat mx"
  shows "case http_parser_execute mx settings (ds @ [CR]) parser u of
      Parsed n parser' u' \<Rightarrow>
        if hex_from 0 ds < 2 ^ 64 - 16
        then n = length ds + 1 \<and> hp_http_errno parser' = HPE_OK \<and> hp_state parser' = s_chunk_size_almost_done
           \<and> unat (hp_content_length parser') = hex_from 0 ds
        else hp_http_errno parser' = HPE_INVALID_CONTENT_LENGTH
    | _ \<Rightarrow> False"
proof -
  obtain c cs where ds: "ds = c # cs" using assms(5) by (cases ds) auto
  let ?env = "env_of mx settings (ds @ [CR]) parser"
  let ?loop = "http_loop (length (ds @ [CR])) ?env (start_exec parser u)"
  have marks: "start_mark s_chunk_size_start = (\<lambda>_. None)"
    by (rule ext) (simp add: start_mark_def url_state_def split: data_for.split)
  have len: "length (ds @ [CR]) = length cs + 2" using ds by simp
  have "if hex_from 0 (c # cs) < chunk_limit
      then chunk_done ?env (hex_from 0 (c # cs)) (http_loop (length cs + 2) ?env (start_exec parser u))
      else chunk_error (http_loop (length cs + 2) ?env (start_exec parser u))"
    by (rule chunk_size_first)
      (use assms ds marks in \<open>simp_all add: start_exec_def chunked_def is_chunked_def\<close>)
  then have run: "if hex_from 0 ds < chunk_limit then chunk_done ?env (hex_from 0 ds) ?loop else chunk_error ?loop"
    by (simp only: len ds [symmetric])
  have ne: "ds @ [CR] \<noteq> []" by simp
  show ?thesis
  proof (cases "hex_from 0 ds < chunk_limit")
    case True
    then obtain s where s: "?loop = Next s" "hx_mark s = (\<lambda>_. None)" "hp_http_errno (hx_parser s) = HPE_OK"
        "hx_state s = s_chunk_size_almost_done" "unat (hp_content_length (hx_parser s)) = hex_from 0 ds"
      using run by (auto simp: chunk_done_def)
    show ?thesis
      unfolding execute_next [OF assms(4) ne s(1-3)] using s True by (simp add: chunk_limit_def)
  next
    case False
    then obtain r s where s: "?loop = Return r s" "hp_http_errno (hx_parser s) = HPE_INVALID_CONTENT_LENGTH"
      using run by (auto simp: chunk_error_def)
    show ?thesis
      unfolding execute_return [OF assms(4) ne s(1)] using s False by (simp add: chunk_limit_def)
  qed
qed

theorem chunk_size_exact_witness:
  "case http_parser_execute HTTP_MAX_HEADER_SIZE http_parser_settings_init ([49, 65] @ [CR])
      ((http_parser_init HTTP_REQUEST)\<lparr>hp_flags := F_CHUNKED, hp_state := s_chunk_size_start\<rparr>) () of
      Parsed n parser' u' \<Rightarrow>
        if hex_from 0 [49, 65] < 2 ^ 64 - 16
        then n = length [49, 65 :: byte] + 1 \<and> hp_http_errno parser' = HPE_OK \<and> hp_state parser' = s_chunk_size_almost_done
           \<and> unat (hp_content_length parser') = hex_from 0 [49, 65]
        else hp_http_errno parser' = HPE_INVALID_CONTENT_LENGTH
    | _ \<Rightarrow> False"
  by (rule chunk_size_exact)
    (simp_all add: http_parser_init_def is_chunked_def F_CHUNKED_def rfc_hex_value_def HTTP_MAX_HEADER_SIZE_def)

end
