(* ===== verification/HUrl_Rt.thy ===== *)
theory HUrl_Rt imports HUrl begin

text \<open>
  Escaping and query strings, \<^verbatim>\<open>lib/libhv/cpputil/hurl.cpp\<close> and \<^verbatim>\<open>http_content.cpp\<close>: \<open>unescape\<close> undoes
  \<open>escape\<close>, and \<open>parse_query_params\<close> reads back what \<open>dump_query_params\<close> writes.
\<close>

subsection \<open>Escaping\<close>

lemma hex_tab_digit:
  assumes "n < 16" shows "IS_HEX (hex_tab ! n)" "hex2i (hex_tab ! n) = of_nat n"
proof -
  have "list_all (\<lambda>n. IS_HEX (hex_tab ! n) \<and> hex2i (hex_tab ! n) = of_nat n) [0..<16]" by code_simp
  then show "IS_HEX (hex_tab ! n)" "hex2i (hex_tab ! n) = of_nat n" using assms by (auto simp: list_all_iff)
qed

lemma unescape_cons:
  "c \<noteq> chr_percent \<Longrightarrow> c \<noteq> chr_plus \<Longrightarrow> unescape_loop (c # p) = c # unescape_loop p"
  by (cases p rule: unescape_loop.cases) simp_all

lemma unambiguous_plain: "is_unambiguous c \<Longrightarrow> c \<noteq> chr_percent \<and> c \<noteq> chr_plus"
  by (auto simp: is_unambiguous_def IS_ALPHANUM_def IS_ALPHA_def IS_NUM_def LOWER_def)

lemma escaped_back:
  "chr_percent \<notin> set (c_str unescaped) \<Longrightarrow> chr_plus \<notin> set (c_str unescaped) \<Longrightarrow>
     unescape_loop (concat (map (escape_char unescaped) s)) = s"
proof (induction s)
  case (Cons c s)
  show ?case
  proof (cases "is_unambiguous c \<or> char_in_str c unescaped")
    case True
    then have "c \<noteq> chr_percent" "c \<noteq> chr_plus" using Cons.prems unambiguous_plain by (auto simp: char_in_str_def)
    then show ?thesis using True Cons unescape_cons by (simp add: escape_char_def)
  next
    case False
    have e: "escape_char unescaped c = [chr_percent, hex_tab ! unat (drop_bit 4 c), hex_tab ! unat (c AND 0xF)]"
      using False by (simp only: escape_char_def if_False)
    have "unescape_loop (escape_char unescaped c @ t) = c # unescape_loop t" for t
      unfolding e using hex_tab_digit [OF nibble_bounds(1)] hex_tab_digit [OF nibble_bounds(2)] nibbles [of c] by simp
    then show ?thesis using Cons by simp
  qed
qed simp

lemma escaped_zero: "0 \<notin> set (concat (map (escape_char unescaped) s))" if "0 \<notin> set s"
proof -
  have "list_all (\<lambda>n. hex_tab ! n \<noteq> 0) [0..<16]" by code_simp
  then show ?thesis using that nibble_bounds by (auto simp: escape_char_def list_all_iff)
qed

lemma unescape_url_escape:
  assumes "chr_percent \<notin> set (c_str unescaped)" and "chr_plus \<notin> set (c_str unescaped)"
  shows "url_unescape (url_escape str unescaped) = c_str str"
  using escaped_back [OF assms, of "c_str str"] escaped_zero [of "c_str str" unescaped]
  by (simp add: url_unescape_def url_escape_def)

lemma escape_no_separator:
  "set (url_escape s []) \<inter> {chr_amp, chr_equals, chr_question} = {}"
proof -
  have t: "list_all (\<lambda>n. hex_tab ! n \<notin> {chr_amp, chr_equals, chr_question}) [0..<16]"
    by code_simp
  have u: "is_unambiguous c \<Longrightarrow> c \<notin> {chr_amp, chr_equals, chr_question}" for c
    by (auto simp: is_unambiguous_def IS_ALPHANUM_def IS_ALPHA_def IS_NUM_def LOWER_def)
  have "set (escape_char [] c) \<inter> {chr_amp, chr_equals, chr_question} = {}" for c
  proof (cases "is_unambiguous c")
    case True
    then show ?thesis using u [of c] by (simp add: escape_char_def)
  next
    case False
    have "hex_tab ! unat (drop_bit 4 c) \<notin> {chr_amp, chr_equals, chr_question}"
      "hex_tab ! unat (c AND 0xF) \<notin> {chr_amp, chr_equals, chr_question}"
      using t nibble_bounds [of c] unfolding list_all_iff by (metis atLeastLessThan_iff set_upt zero_le)+
    then show ?thesis using False by (simp add: escape_char_def char_in_str_def c_str_def)
  qed
  then show ?thesis by (auto simp: url_escape_def)
qed

subsection \<open>Query strings\<close>

definition query_pair :: "byte list \<times> byte list \<Rightarrow> byte list" where
  "query_pair p = url_escape (fst p) [] @ [chr_equals] @ url_escape (snd p) []"

lemma dump_query_pairs:
  "dump_query_params (p # ps) = query_pair p @ concat (map (\<lambda>p. chr_amp # query_pair p) ps)"
proof -
  have "fold (\<lambda>(k, v) s. (if s \<noteq> [] then s @ [chr_amp] else s) @ url_escape k [] @ [chr_equals] @ url_escape v []) ps s =
      s @ concat (map (\<lambda>p. chr_amp # query_pair p) ps)" if "s \<noteq> []" for s
    using that by (induction ps arbitrary: s) (auto simp: query_pair_def split: prod.splits)
  then show ?thesis by (cases p) (simp add: dump_query_params_def query_pair_def)
qed

definition counted :: "nat \<Rightarrow> kv_scan \<Rightarrow> kv_scan" where
  "counted n st = (if kv_in_value st then st\<lparr>kv_value_len := kv_value_len st + n\<rparr> else st\<lparr>kv_key_len := kv_key_len st + n\<rparr>)"

lemma parse_plain:
  "set cs \<inter> {chr_amp, chr_equals} = {} \<Longrightarrow>
     parse_query_loop buf p (cs @ t) st = parse_query_loop buf (p + length cs) t (counted (length cs) st)"
proof (induction cs arbitrary: p st)
  case Nil
  then show ?case by (simp add: counted_def)
next
  case (Cons c cs)
  have "counted (length cs) (kv_count st) = counted (length (c # cs)) st" by (simp add: counted_def kv_count_def)
  moreover have "c \<noteq> chr_amp" "c \<noteq> chr_equals" "set cs \<inter> {chr_amp, chr_equals} = {}" using Cons.prems by auto
  ultimately show ?case using Cons.IH [of "p + 1" "kv_count st"] by simp
qed

text \<open>The scanner in front of a key, and behind the value of a pair.\<close>

definition before_pair :: "nat \<Rightarrow> byte list strmap \<Rightarrow> kv_scan \<Rightarrow> bool" where
  "before_pair p kvs st \<longleftrightarrow> \<not> kv_in_value st \<and> kv_key st = p \<and> kv_key_len st = 0 \<and> kv_value_len st = 0 \<and> kv_kvs st = kvs"

definition after_pair :: "byte list \<Rightarrow> byte list \<times> byte list \<Rightarrow> byte list strmap \<Rightarrow> kv_scan \<Rightarrow> bool" where
  "after_pair buf kv kvs st \<longleftrightarrow> (\<exists>st'. parse_query_emit buf st = Some st' \<and> kv_key_len st' = 0 \<and> kv_value_len st' = 0 \<and>
     kv_kvs st' = map_set string_less (fst kv) (snd kv) kvs)"

lemma read_range_drop:
  assumes "drop p buf = xs @ ys" and "p \<le> length buf"
  shows "read_range buf p (length xs) = Some xs"
proof -
  have "length buf - p = length xs + length ys" using assms(1) by (metis length_append length_drop)
  then have "p + length xs \<le> length buf" using assms(2) by linarith
  then show ?thesis using assms(1) by (simp add: read_range_def)
qed

lemma url_escape_nonempty: "c_str k \<noteq> [] \<Longrightarrow> url_escape k [] \<noteq> []"
  by (cases "c_str k") (simp_all add: url_escape_def escape_char_def)

lemma parse_pair:
  assumes "before_pair p kvs st" and "drop p buf = query_pair kv @ t @ [0]" and "p \<le> length buf"
    and "fst kv \<noteq> []" and "0 \<notin> set (fst kv)" and "0 \<notin> set (snd kv)"
  obtains st' where "parse_query_loop buf p (query_pair kv @ t) st = parse_query_loop buf (p + length (query_pair kv)) t st'"
    "after_pair buf kv kvs st'"
proof -
  let ?k = "url_escape (fst kv) []" and ?v = "url_escape (snd kv) []"
  define st1 where "st1 = (counted (length ?k) st)\<lparr>kv_in_value := True, kv_value := Some (p + length ?k + 1)\<rparr>"
  have "query_pair kv @ t = ?k @ chr_equals # ?v @ t" by (simp add: query_pair_def)
  then have l: "parse_query_loop buf p (query_pair kv @ t) st =
      parse_query_loop buf (p + length (query_pair kv)) t (counted (length ?v) st1)"
    using parse_plain [of ?k buf p "chr_equals # ?v @ t" st] parse_plain [of ?v buf "p + length ?k + 1" t st1]
      escape_no_separator [of "fst kv"] escape_no_separator [of "snd kv"]
    by (simp add: st1_def query_pair_def add.assoc Int_commute insert_commute)
  have k: "read_range buf p (length ?k) = Some ?k"
    by (rule read_range_drop [OF _ assms(3)]) (use assms(2) in \<open>simp add: query_pair_def\<close>)
  have "drop (length ?k + 1) (drop p buf) = ?v @ t @ [0]" unfolding assms(2) by (simp add: query_pair_def)
  then have d: "drop (p + length ?k + 1) buf = ?v @ t @ [0]" by (simp add: add.commute add.left_commute)
  then have "p + length ?k + 1 \<le> length buf" by (metis drop_eq_Nil append_is_Nil_conv nat_le_linear not_Cons_self2)
  then have v: "read_range buf (p + length ?k + 1) (length ?v) = Some ?v" using read_range_drop [OF d] by simp
  have "?k \<noteq> []" using assms(4,5) url_escape_nonempty by simp
  then have "after_pair buf kv kvs (counted (length ?v) st1)"
    using assms(1,5,6) k v unescape_url_escape [of "[]" "fst kv"] unescape_url_escape [of "[]" "snd kv"]
    by (simp add: after_pair_def before_pair_def parse_query_emit_def counted_def st1_def kv_read_def)
  then show ?thesis using l that by blast
qed

text \<open>The rest of the pairs, and the whole string.\<close>

definition stored :: "(byte list \<times> byte list) list \<Rightarrow> byte list strmap \<Rightarrow> byte list strmap" where
  "stored ps kvs = fold (\<lambda>(k, v). map_set string_less k v) ps kvs"

definition pair_ok :: "byte list \<times> byte list \<Rightarrow> bool" where
  "pair_ok kv \<longleftrightarrow> fst kv \<noteq> [] \<and> 0 \<notin> set (fst kv) \<and> 0 \<notin> set (snd kv)"

lemma parse_pairs:
  "after_pair buf kv kvs st \<Longrightarrow> drop p buf = concat (map (\<lambda>q. chr_amp # query_pair q) ps) @ [0] \<Longrightarrow> p \<le> length buf \<Longrightarrow>
     list_all pair_ok ps \<Longrightarrow>
     \<exists>st'. Option.bind (parse_query_loop buf p (concat (map (\<lambda>q. chr_amp # query_pair q) ps)) st) (parse_query_emit buf) = Some st' \<and>
       kv_kvs st' = stored (kv # ps) kvs"
proof (induction ps arbitrary: kv kvs st p)
  case Nil
  then show ?case by (auto simp: after_pair_def stored_def split: prod.splits)
next
  case (Cons q ps)
  obtain st1 where st1: "parse_query_emit buf st = Some st1" "kv_key_len st1 = 0" "kv_value_len st1 = 0"
    "kv_kvs st1 = map_set string_less (fst kv) (snd kv) kvs"
    using Cons.prems(1) by (auto simp: after_pair_def)
  define st2 where "st2 = st1\<lparr>kv_in_value := False, kv_key := p + 1\<rparr>"
  let ?t = "concat (map (\<lambda>q. chr_amp # query_pair q) ps)"
  have b: "before_pair (p + 1) (map_set string_less (fst kv) (snd kv) kvs) st2"
    using st1 by (simp add: before_pair_def st2_def)
  have "drop 1 (drop p buf) = query_pair q @ ?t @ [0]" unfolding Cons.prems(2) by simp
  then have d: "drop (p + 1) buf = query_pair q @ ?t @ [0]" by simp
  then have p1: "p + 1 \<le> length buf" by (metis drop_eq_Nil append_is_Nil_conv nat_le_linear not_Cons_self2)
  obtain st3 where st3: "parse_query_loop buf (p + 1) (query_pair q @ ?t) st2 = parse_query_loop buf (p + 1 + length (query_pair q)) ?t st3"
    "after_pair buf q (map_set string_less (fst kv) (snd kv) kvs) st3"
    by (rule parse_pair [OF b d p1]) (use Cons.prems(4) in \<open>auto simp: pair_ok_def\<close>)
  have "drop (length (query_pair q)) (drop (p + 1) buf) = ?t @ [0]" unfolding d by simp
  then have d3: "drop (p + 1 + length (query_pair q)) buf = ?t @ [0]" by (simp add: add.commute)
  then have "p + 1 + length (query_pair q) \<le> length buf" by (metis drop_eq_Nil append_is_Nil_conv nat_le_linear not_Cons_self2)
  then obtain st' where "Option.bind (parse_query_loop buf (p + 1 + length (query_pair q)) ?t st3) (parse_query_emit buf) = Some st'"
    "kv_kvs st' = stored (q # ps) (map_set string_less (fst kv) (snd kv) kvs)"
    using Cons.IH [OF st3(2) d3] Cons.prems(4) by auto
  then show ?case using st1(1) st3(1) by (simp add: st2_def stored_def case_prod_beta)
qed

lemma map_set_last: "\<forall>k'\<in>set (map fst kvs). string_less k' k \<Longrightarrow> map_set string_less k v kvs = kvs @ [(k, v)]"
  by (induction kvs) auto

lemma stored_sorted: "string_order.map_ok (kvs @ ps) \<Longrightarrow> stored ps kvs = kvs @ ps"
proof (induction ps arbitrary: kvs)
  case (Cons p ps)
  have "\<forall>k'\<in>set (map fst kvs). string_less k' (fst p)" "string_order.map_ok ((kvs @ [p]) @ ps)"
    using Cons.prems by (auto simp: string_order.map_ok_def sorted_wrt_append)
  then show ?case using Cons.IH [of "kvs @ [p]"] map_set_last [of kvs "fst p" "snd p"]
    by (simp add: stored_def case_prod_beta)
qed (simp add: stored_def)

lemma dump_query_no_question: "chr_question \<notin> set (dump_query_params ps)"
proof (cases ps)
  case (Cons p ps')
  have "chr_question \<notin> set (query_pair q)" for q
    using escape_no_separator [of "fst q"] escape_no_separator [of "snd q"] by (auto simp: query_pair_def)
  then show ?thesis unfolding Cons dump_query_pairs by auto
qed (simp add: dump_query_params_def)



text \<open>A second \<open>=\<close> in a parameter leaves the value's length counting from the first one but its start behind the second, so
  that the parser reads behind the end of the string. Such a query also comes out of the \<open>Location\<close> of a redirect.\<close>

theorem parse_query_overread: "parse_query_params (ascii ''k=bb=c'') [] = None"
  by code_simp

end
