(* ===== verification/Itoa.thy ===== *)
theory Itoa imports HTTP_Message begin

text \<open>
  Integers to text, \<^verbatim>\<open>src/lib/rapidjson/include/rapidjson/internal/itoa.h\<close>: the functions that write two digits
  at a time from a table, and the proof that what they write is the decimal representation. A function returns
  the characters it puts into its buffer.
\<close>

subsection \<open>The functions\<close>

definition cDigitsLut :: "byte list" where
  "cDigitsLut =
    [48, 48, 48, 49, 48, 50, 48, 51, 48, 52, 48, 53, 48, 54, 48, 55, 48, 56, 48, 57, 49, 48, 49, 49, 49, 50, 49, 51, 49, 52, 49, 53, 49, 54, 49, 55, 49, 56, 49, 57,
     50, 48, 50, 49, 50, 50, 50, 51, 50, 52, 50, 53, 50, 54, 50, 55, 50, 56, 50, 57, 51, 48, 51, 49, 51, 50, 51, 51, 51, 52, 51, 53, 51, 54, 51, 55, 51, 56, 51, 57,
     52, 48, 52, 49, 52, 50, 52, 51, 52, 52, 52, 53, 52, 54, 52, 55, 52, 56, 52, 57, 53, 48, 53, 49, 53, 50, 53, 51, 53, 52, 53, 53, 53, 54, 53, 55, 53, 56, 53, 57,
     54, 48, 54, 49, 54, 50, 54, 51, 54, 52, 54, 53, 54, 54, 54, 55, 54, 56, 54, 57, 55, 48, 55, 49, 55, 50, 55, 51, 55, 52, 55, 53, 55, 54, 55, 55, 55, 56, 55, 57,
     56, 48, 56, 49, 56, 50, 56, 51, 56, 52, 56, 53, 56, 54, 56, 55, 56, 56, 56, 57, 57, 48, 57, 49, 57, 50, 57, 51, 57, 52, 57, 53, 57, 54, 57, 55, 57, 56, 57, 57]"

definition lut :: "'a::len word \<Rightarrow> byte" where
  "lut d = cDigitsLut ! unat d"

text \<open>The four digits of a number below 10000; with the leading ones only if \<open>p1\<close>, \<open>p2\<close> and \<open>p3\<close> hold.\<close>

definition put4 :: "u32 \<Rightarrow> byte list" where
  "put4 n = (let d1 = push_bit 1 (n div 100); d2 = push_bit 1 (n mod 100) in [lut d1, lut (d1 + 1), lut d2, lut (d2 + 1)])"

definition lead4 :: "bool \<Rightarrow> bool \<Rightarrow> bool \<Rightarrow> u32 \<Rightarrow> byte list" where
  "lead4 p1 p2 p3 n =
     (let d1 = push_bit 1 (n div 100); d2 = push_bit 1 (n mod 100)
      in (if p1 then [lut d1] else []) @ (if p2 then [lut (d1 + 1)] else []) @ (if p3 then [lut d2] else []) @ [lut (d2 + 1)])"

definition u32toa :: "u32 \<Rightarrow> byte list" where
  "u32toa value =
     (if value < 10000 then lead4 (value \<ge> 1000) (value \<ge> 100) (value \<ge> 10) value
      else if value < 100000000 then
        lead4 (value \<ge> 10000000) (value \<ge> 1000000) (value \<ge> 100000) (value div 10000) @ put4 (value mod 10000)
      else
        let a = value div 100000000; value = value mod 100000000
        in (if a \<ge> 10 then [lut (push_bit 1 a), lut (push_bit 1 a + 1)] else [chr_0 + ucast a])
           @ put4 (value div 10000) @ put4 (value mod 10000))"

text \<open>A signed integer is its word; \<open>value < 0\<close> reads it as signed.\<close>

definition i32toa :: "u32 \<Rightarrow> byte list" where
  "i32toa value = (let u = value in if sint value < 0 then chr_minus # u32toa (NOT u + 1) else u32toa u)"

definition u64toa_small :: "u32 \<Rightarrow> u64 \<Rightarrow> byte list" where
  "u64toa_small v value =
     (if v < 10000 then lead4 (v \<ge> 1000) (v \<ge> 100) (v \<ge> 10) v
      else lead4 (value \<ge> 10000000) (value \<ge> 1000000) (value \<ge> 100000) (v div 10000) @ put4 (v mod 10000))"

text \<open>The sixteen digits of \<open>v0\<close> and \<open>v1\<close>, and the same without the leading zeros of \<open>v0\<close>.\<close>

definition put16 :: "u32 \<Rightarrow> u32 \<Rightarrow> byte list" where
  "put16 v0 v1 = put4 (v0 div 10000) @ put4 (v0 mod 10000) @ put4 (v1 div 10000) @ put4 (v1 mod 10000)"

definition kTen8 :: u64 where "kTen8 = 100000000"
definition kTen16 :: u64 where "kTen16 = kTen8 * kTen8"

definition lead16 :: "u64 \<Rightarrow> u32 \<Rightarrow> u32 \<Rightarrow> byte list" where
  "lead16 value v0 v1 =
     (let b0 = v0 div 10000; c0 = v0 mod 10000;
          d1 = push_bit 1 (b0 div 100); d2 = push_bit 1 (b0 mod 100);
          d3 = push_bit 1 (c0 div 100); d4 = push_bit 1 (c0 mod 100)
      in (if value \<ge> kTen8 * 10000000 then [lut d1] else []) @
         (if value \<ge> kTen8 * 1000000 then [lut (d1 + 1)] else []) @
         (if value \<ge> kTen8 * 100000 then [lut d2] else []) @
         (if value \<ge> kTen8 * 10000 then [lut (d2 + 1)] else []) @
         (if value \<ge> kTen8 * 1000 then [lut d3] else []) @
         (if value \<ge> kTen8 * 100 then [lut (d3 + 1)] else []) @
         (if value \<ge> kTen8 * 10 then [lut d4] else []) @
         [lut (d4 + 1)] @ put4 (v1 div 10000) @ put4 (v1 mod 10000))"

text \<open>What is above sixteen digits, from 1 to 1844.\<close>

definition top_digits :: "u32 \<Rightarrow> byte list" where
  "top_digits a =
     (if a < 10 then [chr_0 + ucast a]
      else if a < 100 then (let i = push_bit 1 a in [lut i, lut (i + 1)])
      else if a < 1000 then
        (let i = push_bit 1 (a mod 100) in [chr_0 + ucast (a div 100), lut i, lut (i + 1)])
      else
        (let i = push_bit 1 (a div 100); j = push_bit 1 (a mod 100) in [lut i, lut (i + 1), lut j, lut (j + 1)]))"

definition u64toa :: "u64 \<Rightarrow> byte list" where
  "u64toa value =
     (if value < kTen8 then u64toa_small (ucast value) value
      else if value < kTen16 then lead16 value (ucast (value div kTen8)) (ucast (value mod kTen8))
      else
        let a = ucast (value div kTen16) :: u32; value = value mod kTen16
        in top_digits a @ put16 (ucast (value div kTen8)) (ucast (value mod kTen8)))"

definition i64toa :: "u64 \<Rightarrow> byte list" where
  "i64toa value = (let u = value in if sint value < 0 then chr_minus # u64toa (NOT u + 1) else u64toa u)"

subsection \<open>Padded numbers\<close>

fun pad :: "nat \<Rightarrow> nat \<Rightarrow> byte list" where
  "pad 0 n = []"
| "pad (Suc k) n = pad k (n div 10) @ [chr_0 + of_nat (n mod 10)]"

lemma length_pad [simp]: "length (pad k n) = k"
  by (induction k arbitrary: n) simp_all

lemma decimal_one: "n < 10 \<Longrightarrow> decimal n = [chr_0 + of_nat n]"
  by (subst decimal.simps) simp

lemma decimal_step: "10 \<le> n \<Longrightarrow> decimal n = decimal (n div 10) @ [chr_0 + of_nat (n mod 10)]"
  by (subst decimal.simps) simp

lemma ten_step:
  "(a * 10 ^ Suc k + r) div 10 = a * 10 ^ k + r div 10" "(a * 10 ^ Suc k + r) mod 10 = r mod (10 :: nat)"
proof -
  have e: "a * 10 ^ Suc k + r = r + (a * 10 ^ k) * 10" by simp
  show "(a * 10 ^ Suc k + r) div 10 = a * 10 ^ k + r div 10" by simp
  show "(a * 10 ^ Suc k + r) mod 10 = r mod 10" unfolding e by (simp only: mod_mult_self1)
qed

lemma decimal_split: "0 < a \<Longrightarrow> r < 10 ^ k \<Longrightarrow> decimal (a * 10 ^ k + r) = decimal a @ pad k r"
proof (induction k arbitrary: r)
  case (Suc k)
  have "10 * 1 \<le> a * 10 ^ Suc k" using Suc.prems(1) by (simp add: Suc_le_eq)
  then have "10 \<le> a * 10 ^ Suc k + r" by linarith
  moreover have "decimal (a * 10 ^ k + r div 10) = decimal a @ pad k (r div 10)"
    using Suc by (intro Suc.IH) auto
  ultimately show ?case by (simp add: decimal_step ten_step del: power_Suc)
qed simp

lemma pad_split: "r < 10 ^ k \<Longrightarrow> pad (j + k) (a * 10 ^ k + r) = pad j a @ pad k r"
proof (induction k arbitrary: r)
  case (Suc k)
  have "pad (j + k) (a * 10 ^ k + r div 10) = pad j a @ pad k (r div 10)"
    using Suc by (intro Suc.IH) auto
  then show ?case by (simp add: ten_step del: power_Suc)
qed simp

lemma decimal_pad: "10 ^ k \<le> n \<Longrightarrow> n < 10 ^ Suc k \<Longrightarrow> decimal n = pad (Suc k) n"
proof (induction k arbitrary: n)
  case 0
  then show ?case by (simp add: decimal_one)
next
  case (Suc k)
  have n: "10 ^ k \<le> n div 10" "n div 10 < 10 ^ Suc k" using Suc.prems by auto
  have "10 ^ 1 \<le> (10 :: nat) ^ Suc k" by (rule power_increasing) simp_all
  then have "10 \<le> n" using Suc.prems(1) by (metis order_trans power_one_right)
  then show ?case using Suc.IH [OF n] by (simp add: decimal_step)
qed

subsection \<open>Pieces\<close>

lemma lut_pair:
  assumes "k < 100"
  shows "cDigitsLut ! (2 * k) = chr_0 + of_nat (k div 10)" "cDigitsLut ! Suc (2 * k) = chr_0 + of_nat (k mod 10)"
proof -
  have "list_all (\<lambda>k. cDigitsLut ! (2 * k) = chr_0 + of_nat (k div 10) \<and> cDigitsLut ! Suc (2 * k) = chr_0 + of_nat (k mod 10)) [0..<100]"
    by code_simp
  then show "cDigitsLut ! (2 * k) = chr_0 + of_nat (k div 10)" "cDigitsLut ! Suc (2 * k) = chr_0 + of_nat (k mod 10)"
    using assms by (simp_all add: list_all_iff)
qed

lemma lut_double:
  fixes v :: u32
  assumes "unat v < 100"
  shows "lut (push_bit 1 v) = chr_0 + of_nat (unat v div 10)" "lut (push_bit 1 v + 1) = chr_0 + of_nat (unat v mod 10)"
proof -
  have u: "unat (push_bit 1 v) = 2 * unat v" using unat_push_bit [of v 1] assms by simp
  moreover have "unat (push_bit 1 v + 1) = Suc (2 * unat v)" using assms u by (simp add: unat_add_small)
  ultimately show "lut (push_bit 1 v) = chr_0 + of_nat (unat v div 10)" "lut (push_bit 1 v + 1) = chr_0 + of_nat (unat v mod 10)"
    using lut_pair [OF assms] by (simp_all add: lut_def)
qed

lemma four_digits:
  assumes "n < 10000"
  shows "pad 4 n = [chr_0 + of_nat (n div 100 div 10), chr_0 + of_nat (n div 100 mod 10),
    chr_0 + of_nat (n mod 100 div 10), chr_0 + of_nat (n mod 100 mod 10)]"
proof -
  have "n mod (10 * 10) = 10 * (n div 10 mod 10) + n mod 10" by (rule mod_mult2_eq)
  then have tens: "n mod 100 div 10 = n div 10 mod 10" "n mod 100 mod 10 = n mod 10" by simp_all
  have "n div 100 div 10 < 10" using assms by simp
  then have "n div 10 div 10 div 10 mod 10 = n div 100 div 10" by (simp add: div_mult2_eq [symmetric])
  moreover have "n div 10 div 10 = n div 100" by (simp add: div_mult2_eq [symmetric])
  moreover have "(4 :: nat) = Suc (Suc (Suc (Suc 0)))" by simp
  ultimately show ?thesis unfolding tens by (simp only: pad.simps append.simps)
qed

lemma pad_small:
  "pad (Suc (Suc (Suc 0))) n = tl (pad 4 n)" "pad (Suc (Suc 0)) n = tl (tl (pad 4 n))" "pad (Suc 0) n = tl (tl (tl (pad 4 n)))"
proof -
  have "(4 :: nat) = Suc (Suc (Suc (Suc 0)))" by simp
  then have e: "pad 4 n = pad (Suc (Suc (Suc (Suc 0)))) n" by (rule arg_cong)
  show "pad (Suc (Suc (Suc 0))) n = tl (pad 4 n)" "pad (Suc (Suc 0)) n = tl (tl (pad 4 n))"
    "pad (Suc 0) n = tl (tl (tl (pad 4 n)))"
    unfolding e by (simp_all only: pad.simps append.simps list.sel)
qed

lemma put4_pad: "unat n < 10000 \<Longrightarrow> put4 n = pad 4 (unat n)"
  using lut_double [of "n div 100"] lut_double [of "n mod 100"]
  by (simp add: put4_def four_digits Let_def unat_div unat_mod)

lemma lead4_decimal:
  assumes "unat n < 10000" and "p1 = (unat n \<ge> 1000)" and "p2 = (unat n \<ge> 100)" and "p3 = (unat n \<ge> 10)"
  shows "lead4 p1 p2 p3 n = decimal (unat n)"
proof -
  let ?d1 = "push_bit 1 (n div 100)" and ?d2 = "push_bit 1 (n mod 100)"
  have digits: "pad 4 (unat n) = [lut ?d1, lut (?d1 + 1), lut ?d2, lut (?d2 + 1)]"
    using put4_pad [OF assms(1)] by (simp add: put4_def Let_def)
  have l: "lead4 p1 p2 p3 n = (if p1 then [lut ?d1] else []) @ (if p2 then [lut (?d1 + 1)] else []) @
      (if p3 then [lut ?d2] else []) @ [lut (?d2 + 1)]"
    by (simp add: lead4_def Let_def)
  consider (a) "1000 \<le> unat n" | (b) "100 \<le> unat n" "unat n < 1000" | (c) "10 \<le> unat n" "unat n < 100" | (d) "unat n < 10"
    by linarith
  then show ?thesis
  proof cases
    case a
    have "decimal (unat n) = pad 4 (unat n)" using decimal_pad [of 3 "unat n"] assms(1) a by simp
    then show ?thesis using a unfolding l digits by (simp add: assms(2-4))
  next
    case b
    have "decimal (unat n) = pad (Suc (Suc (Suc 0))) (unat n)" using b by (intro decimal_pad) simp_all
    then show ?thesis using b unfolding l pad_small digits by (simp add: assms(2-4))
  next
    case c
    have "decimal (unat n) = pad (Suc (Suc 0)) (unat n)" using c by (intro decimal_pad) simp_all
    then show ?thesis using c unfolding l pad_small digits by (simp add: assms(2-4))
  next
    case d
    have "decimal (unat n) = pad (Suc 0) (unat n)" using d by (simp add: decimal_one)
    then show ?thesis using d unfolding l pad_small digits by (simp add: assms(2-4))
  qed
qed


subsection \<open>The functions write the decimal representation\<close>

lemma pad4_join: "n < 100000000 \<Longrightarrow> pad (k + 4) n = pad k (n div 10000) @ pad 4 (n mod 10000)"
proof -
  have "pad (k + 4) (n div 10000 * 10 ^ 4 + n mod 10000) = pad k (n div 10000) @ pad 4 (n mod 10000)"
    by (rule pad_split) simp
  moreover have "n div 10000 * 10 ^ 4 + n mod 10000 = n" by simp
  ultimately show ?thesis by metis
qed

lemma put8_pad:
  assumes "unat n < 100000000"
  shows "put4 (n div 10000) @ put4 (n mod 10000) = pad 8 (unat n)"
proof -
  have "put4 (n div 10000) = pad 4 (unat n div 10000)" using assms by (subst put4_pad) (simp_all add: unat_div)
  moreover have "put4 (n mod 10000) = pad 4 (unat n mod 10000)" by (subst put4_pad) (simp_all add: unat_mod)
  ultimately show ?thesis using pad4_join [OF assms, of 4] by simp
qed

lemma lead8_decimal:
  assumes n: "10000 \<le> unat n" "unat n < 100000000" and "p1 = (unat n \<ge> 10000000)" and "p2 = (unat n \<ge> 1000000)"
    and "p3 = (unat n \<ge> 100000)"
  shows "lead4 p1 p2 p3 (n div 10000) @ put4 (n mod 10000) = decimal (unat n)"
proof -
  have u: "unat (n div 10000) = unat n div 10000" by (simp add: unat_div)
  have "lead4 p1 p2 p3 (n div 10000) = decimal (unat (n div 10000))"
    using n by (intro lead4_decimal) (auto simp: u assms(3-5))
  moreover have "put4 (n mod 10000) = pad 4 (unat n mod 10000)" by (subst put4_pad) (simp_all add: unat_mod)
  moreover have "decimal (unat n div 10000 * 10 ^ 4 + unat n mod 10000) = decimal (unat n div 10000) @ pad 4 (unat n mod 10000)"
    using n by (intro decimal_split) (simp_all add: div_greater_zero_iff)
  moreover have "unat n div 10000 * 10 ^ 4 + unat n mod 10000 = unat n" by simp
  ultimately show ?thesis unfolding u by metis
qed

lemma small_digit: "unat (a :: u32) < 10 \<Longrightarrow> [chr_0 + ucast a] = decimal (unat a)"
  by (simp add: decimal_one)

lemma two_digits:
  fixes a :: u32
  assumes "10 \<le> unat a" "unat a < 100"
  shows "[lut (push_bit 1 a), lut (push_bit 1 a + 1)] = decimal (unat a)"
  unfolding lut_double [OF assms(2)] using assms by (simp add: decimal_step decimal_one)

lemma u32toa_decimal: "u32toa v = decimal (unat v)"
proof -
  have le: "v < 10000 \<longleftrightarrow> unat v < 10000" "v < 100000000 \<longleftrightarrow> unat v < 100000000" "(v \<ge> 1000) = (unat v \<ge> 1000)"
    "(v \<ge> 100) = (unat v \<ge> 100)" "(v \<ge> 10) = (unat v \<ge> 10)" "(v \<ge> 10000000) = (unat v \<ge> 10000000)"
    "(v \<ge> 1000000) = (unat v \<ge> 1000000)" "(v \<ge> 100000) = (unat v \<ge> 100000)"
    by (simp_all add: word_le_nat_alt word_less_nat_alt)
  consider (a) "unat v < 10000" | (b) "10000 \<le> unat v" "unat v < 100000000" | (c) "100000000 \<le> unat v" by linarith
  then show ?thesis
  proof cases
    case a
    then show ?thesis unfolding u32toa_def le by (simp add: lead4_decimal)
  next
    case b
    then show ?thesis unfolding u32toa_def le by (simp add: lead8_decimal)
  next
    case c
    let ?a = "v div 100000000" and ?r = "v mod 100000000"
    have u: "unat ?a = unat v div 100000000" "unat ?r = unat v mod 100000000" by (simp_all add: unat_div unat_mod)
    have "unat v < 2 ^ 32" using unsigned_less [of v] by simp
    then have small: "unat ?a < 100" and pos: "0 < unat v div 100000000" using c unfolding u by (simp_all add: div_greater_zero_iff)
    have "(if ?a \<ge> 10 then [lut (push_bit 1 ?a), lut (push_bit 1 ?a + 1)] else [chr_0 + ucast ?a]) = decimal (unat ?a)"
      using small two_digits [of ?a] small_digit [of ?a] by (simp add: word_le_nat_alt)
    moreover have "put4 (?r div 10000) @ put4 (?r mod 10000) = pad 8 (unat ?r)" by (rule put8_pad) (simp add: u)
    moreover have "decimal (unat v div 100000000 * 10 ^ 8 + unat v mod 100000000) =
        decimal (unat v div 100000000) @ pad 8 (unat v mod 100000000)"
      using pos by (intro decimal_split) simp_all
    moreover have "unat v div 100000000 * 10 ^ 8 + unat v mod 100000000 = unat v" by simp
    ultimately show ?thesis using c unfolding u32toa_def le u by (simp add: Let_def)
  qed
qed


lemma negative_word:
  fixes v :: "'a::len word"
  assumes "sint v < 0"
  shows "unat (NOT v + 1) = nat (- sint v)"
proof -
  have neg: "NOT v + 1 = - v" by (simp add: minus_eq_not_plus_1)
  have "uint (- v) = (- uint v) mod 2 ^ LENGTH('a)" by (simp only: uint_word_ariths)
  also have "uint v = sint v mod 2 ^ LENGTH('a)" by (simp only: uint_sint take_bit_eq_mod)
  finally have "uint (- v) = (- sint v) mod 2 ^ LENGTH('a)" by (simp add: mod_minus_eq)
  moreover have "- sint v \<le> 2 ^ (LENGTH('a) - 1)" using sint_ge [of v] by simp
  then have "- sint v < 2 ^ LENGTH('a)" by (rule order_le_less_trans) simp
  ultimately have "uint (- v) = - sint v" using assms by (simp add: mod_pos_pos_trivial)
  then show ?thesis unfolding neg by (metis unat_eq_nat_uint)
qed

lemma not_negative_word:
  fixes v :: "'a::len word"
  assumes "\<not> sint v < 0"
  shows "unat v = nat (sint v)"
proof -
  have "sint v < 2 ^ (LENGTH('a) - 1)" using sint_lt [of v] by simp
  also have "\<dots> < 2 ^ LENGTH('a)" by simp
  finally have "take_bit LENGTH('a) (sint v) = sint v" using assms by (intro take_bit_int_eq_self) simp_all
  then show ?thesis by (metis unat_eq_nat_uint uint_sint)
qed

lemma i32toa_decimal: "i32toa v = decimal_int (sint v)"
  by (simp add: i32toa_def u32toa_decimal decimal_int_def negative_word not_negative_word Let_def)

subsection \<open>64 bits\<close>

lemma lead16_decimal:
  assumes n: "100000000 \<le> unat n" "unat n < 10000000000000000"
  shows "lead16 n (ucast (n div kTen8)) (ucast (n mod kTen8)) = decimal (unat n)"
proof -
  let ?v0 = "ucast (n div kTen8) :: u32" and ?v1 = "ucast (n mod kTen8) :: u32"
  let ?q = "unat n div 100000000" and ?r = "unat n mod 100000000"
  have q: "?q < 100000000" "0 < ?q" using n by (simp_all add: less_mult_imp_div_less div_greater_zero_iff)
  have v0: "unat ?v0 = ?q" and v1: "unat ?v1 = ?r"
    using q by (simp_all add: unsigned_ucast_eq unat_div unat_mod kTen8_def take_bit_nat_eq_self)
  have flags: "(n \<ge> kTen8 * 10000000) = (?q \<ge> 10000000)" "(n \<ge> kTen8 * 1000000) = (?q \<ge> 1000000)"
    "(n \<ge> kTen8 * 100000) = (?q \<ge> 100000)" "(n \<ge> kTen8 * 10000) = (?q \<ge> 10000)" "(n \<ge> kTen8 * 1000) = (?q \<ge> 1000)"
    "(n \<ge> kTen8 * 100) = (?q \<ge> 100)" "(n \<ge> kTen8 * 10) = (?q \<ge> 10)"
    unfolding kTen8_def word_le_nat_alt by (simp_all add: less_eq_div_iff_mult_less_eq)
  let ?tail = "put4 (?v1 div 10000) @ put4 (?v1 mod 10000)"
  have "lead16 n ?v0 ?v1 = decimal ?q @ ?tail"
  proof (cases "10000 \<le> ?q")
    case True
    then have "lead16 n ?v0 ?v1 =
        (lead4 (?q \<ge> 10000000) (?q \<ge> 1000000) (?q \<ge> 100000) (?v0 div 10000) @ put4 (?v0 mod 10000)) @ ?tail"
      unfolding lead16_def flags by (simp add: lead4_def put4_def Let_def)
    then show ?thesis using True q v0 by (simp add: lead8_decimal)
  next
    case False
    then have "?v0 mod 10000 = ?v0" using v0 by (simp add: word_unat_eq_iff unat_mod)
    then have "lead16 n ?v0 ?v1 = lead4 (?q \<ge> 1000) (?q \<ge> 100) (?q \<ge> 10) ?v0 @ ?tail"
      using False unfolding lead16_def flags by (simp add: lead4_def Let_def)
    then show ?thesis using False v0 by (simp add: lead4_decimal)
  qed
  moreover have "?tail = pad 8 ?r" using put8_pad [of ?v1] v1 by simp
  moreover have "decimal (?q * 10 ^ 8 + ?r) = decimal ?q @ pad 8 ?r" using q by (intro decimal_split) simp_all
  moreover have "?q * 10 ^ 8 + ?r = unat n" by simp
  ultimately show ?thesis by metis
qed

lemma put16_pad:
  assumes "unat v0 < 100000000" "unat v1 < 100000000"
  shows "put16 v0 v1 = pad 16 (unat v0 * 100000000 + unat v1)"
proof -
  have "put16 v0 v1 = pad 8 (unat v0) @ pad 8 (unat v1)"
    unfolding put8_pad [OF assms(1), symmetric] put8_pad [OF assms(2), symmetric] by (simp add: put16_def)
  also have "\<dots> = pad (8 + 8) (unat v0 * 10 ^ 8 + unat v1)" using assms(2) by (intro pad_split [symmetric]) simp
  finally show ?thesis by simp
qed

lemma top_digits_decimal:
  assumes "unat a < 10000"
  shows "top_digits a = decimal (unat a)"
proof -
  consider (a) "unat a < 10" | (b) "10 \<le> unat a" "unat a < 100" | (c) "100 \<le> unat a" "unat a < 1000" | (d) "1000 \<le> unat a"
    by linarith
  then show ?thesis
  proof cases
    case a
    then show ?thesis using small_digit [of a] by (simp add: top_digits_def word_less_nat_alt)
  next
    case b
    then show ?thesis using two_digits [of a] by (simp add: top_digits_def word_less_nat_alt Let_def)
  next
    case c
    have "lead4 False True True a = decimal (unat a)" using c by (intro lead4_decimal) auto
    moreover have "unat (a div 100) = unat a div 100" "unat a div 100 < 10" using c by (simp_all add: unat_div less_mult_imp_div_less)
    then have "lut (push_bit 1 (a div 100) + 1) = chr_0 + ucast (a div 100)"
      using lut_double(2) [of "a div 100"] by simp (metis of_nat_unat)
    ultimately show ?thesis using c by (simp add: top_digits_def lead4_def word_less_nat_alt Let_def)
  next
    case d
    have "top_digits a = put4 a" using d by (simp add: top_digits_def put4_def word_less_nat_alt Let_def)
    also have "\<dots> = lead4 True True True a" by (simp add: lead4_def put4_def Let_def)
    finally show ?thesis using d assms by (simp add: lead4_decimal)
  qed
qed

lemma u64toa_decimal: "u64toa v = decimal (unat v)"
proof -
  have le: "v < kTen8 \<longleftrightarrow> unat v < 100000000" "v < kTen16 \<longleftrightarrow> unat v < 10000000000000000"
    by (simp_all add: word_less_nat_alt kTen8_def kTen16_def)
  consider (a) "unat v < 100000000" | (b) "100000000 \<le> unat v" "unat v < 10000000000000000" | (c) "10000000000000000 \<le> unat v"
    by linarith
  then show ?thesis
  proof cases
    case a
    then have u: "unat (ucast v :: u32) = unat v" by (simp add: unsigned_ucast_eq take_bit_nat_eq_self)
    show ?thesis using a u unfolding u64toa_def le u64toa_small_def
      by (simp add: lead4_decimal lead8_decimal word_le_nat_alt word_less_nat_alt)
  next
    case b
    then show ?thesis unfolding u64toa_def le by (simp add: lead16_decimal)
  next
    case c
    let ?a = "ucast (v div kTen16) :: u32" and ?r = "v mod kTen16"
    let ?q = "unat v div 10000000000000000" and ?m = "unat v mod 10000000000000000"
    have "unat v < 2 ^ 64" using unsigned_less [of v] by simp
    then have q: "?q < 10000" "0 < ?q" using c by (simp_all add: div_greater_zero_iff less_mult_imp_div_less)
    then have ua: "unat ?a = ?q" by (simp add: unsigned_ucast_eq unat_div kTen16_def kTen8_def take_bit_nat_eq_self)
    have ur: "unat ?r = ?m" by (simp add: unat_mod kTen16_def kTen8_def)
    have m: "?m < 10000000000000000" by simp
    then have "?m div 100000000 < 100000000" by (simp add: less_mult_imp_div_less)
    then have v0: "unat (ucast (?r div kTen8) :: u32) = ?m div 100000000" and v1: "unat (ucast (?r mod kTen8) :: u32) = ?m mod 100000000"
      using ur by (simp_all add: unsigned_ucast_eq unat_div unat_mod kTen8_def take_bit_nat_eq_self)
    have "put16 (ucast (?r div kTen8)) (ucast (?r mod kTen8)) = pad 16 (?m div 100000000 * 100000000 + ?m mod 100000000)"
      using put16_pad [of "ucast (?r div kTen8)" "ucast (?r mod kTen8)"] v0 v1 \<open>?m div 100000000 < 100000000\<close> by simp
    moreover have "top_digits ?a = decimal ?q" using top_digits_decimal [of ?a] ua q by simp
    moreover have "decimal (?q * 10 ^ 16 + ?m) = decimal ?q @ pad 16 ?m" using q by (intro decimal_split) simp_all
    moreover have "?q * 10 ^ 16 + ?m = unat v" by simp
    ultimately show ?thesis using c unfolding u64toa_def le by (simp add: Let_def)
  qed
qed

lemma i64toa_decimal: "i64toa v = decimal_int (sint v)"
  by (simp add: i64toa_def u64toa_decimal decimal_int_def negative_word not_negative_word Let_def)

text \<open>C40: The table-driven functions write exactly the decimal digits of the number, for every value of 32 and 64 bits, signed
  and unsigned, the least ones included.\<close>

theorem itoa_exact:
  "u32toa v = decimal (unat v) \<and> i32toa v = decimal_int (sint v) \<and> u64toa x = decimal (unat x) \<and> i64toa x = decimal_int (sint x)"
  by (simp add: u32toa_decimal i32toa_decimal u64toa_decimal i64toa_decimal)

end
