(* ===== verification/Json_Buffer.thy ===== *)
theory Json_Buffer imports HString begin

text \<open>
  Output buffers of rapidjson, \<^verbatim>\<open>internal/stack.h\<close> and \<^verbatim>\<open>stringbuffer.h\<close> under
  \<^verbatim>\<open>src/lib/rapidjson/include/rapidjson\<close>: a growing block of memory with a top, the string buffer over it,
  and what a writer needs of an output stream as the locale \<open>output_stream\<close>, which the string buffer satisfies.
  A failed assertion is \<open>None\<close>. An allocation succeeds; memory that nobody has written reads as zero.
\<close>

subsection \<open>internal::Stack\<close>

text \<open>\<open>stk_mem\<close> is the memory from \<open>stack_\<close> to \<open>stackEnd_\<close>, \<open>stk_top\<close> is \<open>stackTop_ - stack_\<close>, and \<open>stk_null\<close> says that
  \<open>stack_\<close> is null.\<close>

record mem_stack =
  stk_null :: bool
  stk_mem :: "byte list"
  stk_top :: nat
  stk_initial :: nat

definition stack_new :: "nat \<Rightarrow> mem_stack" where
  "stack_new stackCapacity = \<lparr>stk_null = True, stk_mem = [], stk_top = 0, stk_initial = stackCapacity\<rparr>"

definition stack_Clear :: "mem_stack \<Rightarrow> mem_stack" where "stack_Clear s = s\<lparr>stk_top := 0\<rparr>"
definition stack_Empty :: "mem_stack \<Rightarrow> bool" where "stack_Empty s \<longleftrightarrow> stk_top s = 0"
definition stack_GetSize :: "mem_stack \<Rightarrow> nat" where "stack_GetSize s = stk_top s"
definition stack_GetCapacity :: "mem_stack \<Rightarrow> nat" where "stack_GetCapacity s = length (stk_mem s)"

definition stack_Resize :: "nat \<Rightarrow> mem_stack \<Rightarrow> mem_stack" where
  "stack_Resize newCapacity s = s\<lparr>stk_null := (newCapacity = 0),
     stk_mem := take newCapacity (stk_mem s) @ replicate (newCapacity - length (stk_mem s)) 0\<rparr>"

definition stack_Expand :: "nat \<Rightarrow> mem_stack \<Rightarrow> mem_stack" where
  "stack_Expand count s =
     (let newCapacity = (if stk_null s then stk_initial s
                         else stack_GetCapacity s + (stack_GetCapacity s + 1) div 2);
          newSize = stack_GetSize s + count
      in stack_Resize (if newCapacity < newSize then newSize else newCapacity) s)"

definition stack_Reserve :: "nat \<Rightarrow> mem_stack \<Rightarrow> mem_stack" where
  "stack_Reserve count s = (if count > length (stk_mem s) - stk_top s then stack_Expand count s else s)"

text \<open>The result of a push is the place of the new area.\<close>

definition stack_PushUnsafe :: "nat \<Rightarrow> mem_stack \<Rightarrow> (nat \<times> mem_stack) option" where
  "stack_PushUnsafe count s =
     (if stk_null s then None
      else if count \<le> length (stk_mem s) - stk_top s then Some (stk_top s, s\<lparr>stk_top := stk_top s + count\<rparr>)
      else None)"

definition stack_Push :: "nat \<Rightarrow> mem_stack \<Rightarrow> (nat \<times> mem_stack) option" where
  "stack_Push count s = stack_PushUnsafe count (stack_Reserve count s)"

definition stack_Pop :: "nat \<Rightarrow> mem_stack \<Rightarrow> mem_stack option" where
  "stack_Pop count s = (if stack_GetSize s \<ge> count then Some (s\<lparr>stk_top := stk_top s - count\<rparr>) else None)"

definition stack_ShrinkToFit :: "mem_stack \<Rightarrow> mem_stack" where
  "stack_ShrinkToFit s =
     (if stack_Empty s then s\<lparr>stk_null := True, stk_mem := [], stk_top := 0\<rparr> else stack_Resize (stack_GetSize s) s)"

text \<open>Writing bytes at a place, which must be inside of the memory.\<close>

definition stack_store :: "nat \<Rightarrow> byte list \<Rightarrow> mem_stack \<Rightarrow> mem_stack option" where
  "stack_store p bs s = map_option (\<lambda>m. s\<lparr>stk_mem := m\<rparr>) (copy_into (stk_mem s) p bs)"

subsection \<open>GenericStringBuffer\<close>

definition sb_new :: mem_stack where "sb_new = stack_new 256"

definition sb_Put :: "byte \<Rightarrow> mem_stack \<Rightarrow> mem_stack option" where
  "sb_Put c s = (case stack_Push 1 s of None \<Rightarrow> None | Some (p, s) \<Rightarrow> stack_store p [c] s)"

definition sb_PutUnsafe :: "byte \<Rightarrow> mem_stack \<Rightarrow> mem_stack option" where
  "sb_PutUnsafe c s = (case stack_PushUnsafe 1 s of None \<Rightarrow> None | Some (p, s) \<Rightarrow> stack_store p [c] s)"

text \<open>\<open>GetString\<close> returns the address of the buffer: the memory that a C function reads from there, up to the first zero.\<close>

definition sb_GetString :: "mem_stack \<Rightarrow> (byte list \<times> mem_stack) option" where
  "sb_GetString s = (case stack_Push 1 s of None \<Rightarrow> None
     | Some (p, s) \<Rightarrow> (case stack_store p [0] s of None \<Rightarrow> None
         | Some s \<Rightarrow> (case stack_Pop 1 s of None \<Rightarrow> None | Some s \<Rightarrow> Some (stk_mem s, s))))"

definition sb_ShrinkToFit :: "mem_stack \<Rightarrow> mem_stack option" where
  "sb_ShrinkToFit s = (case stack_Push 1 s of None \<Rightarrow> None
     | Some (p, s) \<Rightarrow> (case stack_store p [0] s of None \<Rightarrow> None | Some s \<Rightarrow> stack_Pop 1 (stack_ShrinkToFit s)))"

text \<open>\<open>PutN\<close>, specialised with \<open>memset\<close>.\<close>

definition sb_PutN :: "byte \<Rightarrow> nat \<Rightarrow> mem_stack \<Rightarrow> mem_stack option" where
  "sb_PutN c n s = (case stack_Push n s of None \<Rightarrow> None | Some (p, s) \<Rightarrow> stack_store p (replicate n c) s)"

subsection \<open>What a writer needs of its stream\<close>

fun put_all :: "(byte \<Rightarrow> 's \<Rightarrow> 's option) \<Rightarrow> byte list \<Rightarrow> 's \<Rightarrow> 's option" where
  "put_all put [] s = Some s"
| "put_all put (c # cs) s = (case put c s of None \<Rightarrow> None | Some s \<Rightarrow> put_all put cs s)"

lemma put_all_append: "put_all put (bs @ cs) s = (case put_all put bs s of None \<Rightarrow> None | Some s \<Rightarrow> put_all put cs s)"
  by (induction bs arbitrary: s) (auto split: option.splits)

locale output_stream =
  fixes good :: "'s \<Rightarrow> bool" and content :: "'s \<Rightarrow> byte list" and room :: "'s \<Rightarrow> nat"
    and put :: "byte \<Rightarrow> 's \<Rightarrow> 's option" and put_unsafe :: "byte \<Rightarrow> 's \<Rightarrow> 's option" and reserve :: "nat \<Rightarrow> 's \<Rightarrow> 's"
  assumes put_ok: "good s \<Longrightarrow> \<exists>s'. put c s = Some s' \<and> good s' \<and> content s' = content s @ [c]"
    and unsafe_ok: "good s \<Longrightarrow> 0 < room s \<Longrightarrow>
      \<exists>s'. put_unsafe c s = Some s' \<and> good s' \<and> content s' = content s @ [c] \<and> Suc (room s') = room s"
    and unsafe_full: "good s \<Longrightarrow> room s = 0 \<Longrightarrow> put_unsafe c s = None"
    and reserve_ok: "good s \<Longrightarrow> good (reserve n s) \<and> content (reserve n s) = content s \<and> n \<le> room (reserve n s)"
begin

lemma put_all_ok: "good s \<Longrightarrow> \<exists>s'. put_all put bs s = Some s' \<and> good s' \<and> content s' = content s @ bs"
proof (induction bs arbitrary: s)
  case (Cons c cs)
  obtain s1 where "put c s = Some s1" "good s1" "content s1 = content s @ [c]" using put_ok [OF Cons.prems] by blast
  then show ?case using Cons.IH [of s1] by auto
qed simp

text \<open>Unchecked output succeeds exactly when there is room for it.\<close>

lemma put_all_unsafe:
  "good s \<Longrightarrow> length bs \<le> room s \<Longrightarrow>
    \<exists>s'. put_all put_unsafe bs s = Some s' \<and> good s' \<and> content s' = content s @ bs \<and> room s' + length bs = room s"
proof (induction bs arbitrary: s)
  case (Cons c cs)
  then have "0 < room s" by simp
  then obtain s1 where "put_unsafe c s = Some s1" "good s1" "content s1 = content s @ [c]" "Suc (room s1) = room s"
    using unsafe_ok [OF Cons.prems(1)] by blast
  then show ?case using Cons.IH [of s1] Cons.prems(2) by auto
qed simp

lemma put_all_overrun: "good s \<Longrightarrow> room s < length bs \<Longrightarrow> put_all put_unsafe bs s = None"
proof (induction bs arbitrary: s)
  case (Cons c cs)
  show ?case
  proof (cases "room s = 0")
    case False
    then obtain s1 where "put_unsafe c s = Some s1" "good s1" "Suc (room s1) = room s"
      using unsafe_ok [OF Cons.prems(1)] by blast
    then show ?thesis using Cons.IH [of s1] Cons.prems(2) by simp
  qed (simp add: unsafe_full [OF Cons.prems(1)])
qed simp

lemma reserved_puts:
  assumes "good s" and "length bs \<le> n"
  shows "\<exists>s'. put_all put_unsafe bs (reserve n s) = Some s' \<and> good s' \<and> content s' = content s @ bs"
  using put_all_unsafe [of "reserve n s" bs] reserve_ok [OF assms(1), of n] assms(2) by auto

end

subsection \<open>The string buffer is an output stream\<close>

definition stack_wf :: "mem_stack \<Rightarrow> bool" where
  "stack_wf s \<longleftrightarrow> stk_top s \<le> length (stk_mem s) \<and> (stk_null s \<longrightarrow> stk_mem s = [])"

definition sb_content :: "mem_stack \<Rightarrow> byte list" where "sb_content s = take (stk_top s) (stk_mem s)"
definition sb_room :: "mem_stack \<Rightarrow> nat" where "sb_room s = length (stk_mem s) - stk_top s"

lemma sb_new_wf [simp]: "stack_wf sb_new" "sb_content sb_new = []" "sb_room sb_new = 0"
  by (simp_all add: sb_new_def stack_new_def stack_wf_def sb_content_def sb_room_def)

lemma length_sb_content: "stack_wf s \<Longrightarrow> length (sb_content s) = stk_top s"
  by (simp add: stack_wf_def sb_content_def)

lemma Resize_wf:
  assumes "stack_wf s" and "stk_top s \<le> n"
  shows "stack_wf (stack_Resize n s)" "sb_content (stack_Resize n s) = sb_content s" "length (stk_mem (stack_Resize n s)) = n"
    "stk_top (stack_Resize n s) = stk_top s" "stk_null (stack_Resize n s) = (n = 0)"
  using assms by (auto simp: stack_wf_def stack_Resize_def sb_content_def min_def)

lemma Reserve_wf:
  assumes "stack_wf s"
  shows "stack_wf (stack_Reserve n s)" "sb_content (stack_Reserve n s) = sb_content s" "n \<le> sb_room (stack_Reserve n s)"
    "stk_top (stack_Reserve n s) = stk_top s" "stk_null (stack_Reserve n s) \<longrightarrow> n = 0"
  using assms by (auto simp: stack_Reserve_def stack_Expand_def Let_def Resize_wf stack_GetSize_def sb_room_def stack_wf_def)

lemma PushUnsafe_store:
  assumes "stack_wf s" and "length bs \<le> sb_room s" and "bs \<noteq> []"
  shows "\<exists>s'. stack_PushUnsafe (length bs) s = Some (stk_top s, s\<lparr>stk_top := stk_top s + length bs\<rparr>) \<and>
    stack_store (stk_top s) bs (s\<lparr>stk_top := stk_top s + length bs\<rparr>) = Some s' \<and>
    stack_wf s' \<and> sb_content s' = sb_content s @ bs \<and> sb_room s' + length bs = sb_room s"
  using assms by (auto simp: stack_PushUnsafe_def stack_store_def copy_into_def stack_wf_def sb_room_def sb_content_def)

interpretation sb: output_stream stack_wf sb_content sb_room sb_Put sb_PutUnsafe stack_Reserve
proof unfold_locales
  fix s c
  assume s: "stack_wf s"
  show "\<exists>s'. sb_Put c s = Some s' \<and> stack_wf s' \<and> sb_content s' = sb_content s @ [c]"
    using PushUnsafe_store [of "stack_Reserve 1 s" "[c]"] Reserve_wf [OF s, of 1]
    by (auto simp: sb_Put_def stack_Push_def)
  show "0 < sb_room s \<Longrightarrow>
      \<exists>s'. sb_PutUnsafe c s = Some s' \<and> stack_wf s' \<and> sb_content s' = sb_content s @ [c] \<and> Suc (sb_room s') = sb_room s"
    using PushUnsafe_store [OF s, of "[c]"] by (auto simp: sb_PutUnsafe_def Suc_le_eq)
  show "sb_room s = 0 \<Longrightarrow> sb_PutUnsafe c s = None"
    by (simp add: sb_PutUnsafe_def stack_PushUnsafe_def sb_room_def)
next
  fix s n
  assume "stack_wf s"
  then show "stack_wf (stack_Reserve n s) \<and> sb_content (stack_Reserve n s) = sb_content s \<and> n \<le> sb_room (stack_Reserve n s)"
    by (simp add: Reserve_wf)
qed

lemma GetString_content:
  assumes "stack_wf s"
  shows "\<exists>mem s'. sb_GetString s = Some (mem, s') \<and> stack_wf s' \<and> sb_content s' = sb_content s \<and>
    (\<exists>rest. mem = sb_content s @ 0 # rest)"
proof -
  let ?r = "stack_Reserve 1 s"
  have r: "stack_wf ?r" "sb_content ?r = sb_content s" "1 \<le> sb_room ?r" using Reserve_wf [OF assms, of 1] by simp_all
  obtain s1 where s1: "stack_PushUnsafe 1 ?r = Some (stk_top ?r, ?r\<lparr>stk_top := stk_top ?r + 1\<rparr>)"
    "stack_store (stk_top ?r) [0] (?r\<lparr>stk_top := stk_top ?r + 1\<rparr>) = Some s1" "stack_wf s1" "sb_content s1 = sb_content s @ [0]"
    using PushUnsafe_store [of ?r "[0]"] r by auto
  have "stk_top s1 = Suc (length (sb_content s))" using length_sb_content [OF s1(3)] s1(4) by simp
  moreover have "stk_mem s1 = sb_content s1 @ drop (stk_top s1) (stk_mem s1)" by (simp add: sb_content_def)
  moreover have "sb_content (s1\<lparr>stk_top := stk_top s1 - 1\<rparr>) = butlast (sb_content s1)"
    using s1(3) by (simp add: sb_content_def butlast_take stack_wf_def)
  ultimately show ?thesis using s1 by (auto simp: sb_GetString_def stack_Push_def stack_Pop_def stack_GetSize_def stack_wf_def)
qed

lemma ShrinkToFit_content:
  assumes "stack_wf s"
  shows "\<exists>s'. sb_ShrinkToFit s = Some s' \<and> stack_wf s' \<and> sb_content s' = sb_content s \<and> sb_room s' = 1"
proof -
  let ?r = "stack_Reserve 1 s"
  have r: "stack_wf ?r" "sb_content ?r = sb_content s" "1 \<le> sb_room ?r" using Reserve_wf [OF assms, of 1] by simp_all
  obtain s1 where s1: "stack_PushUnsafe 1 ?r = Some (stk_top ?r, ?r\<lparr>stk_top := stk_top ?r + 1\<rparr>)"
    "stack_store (stk_top ?r) [0] (?r\<lparr>stk_top := stk_top ?r + 1\<rparr>) = Some s1" "stack_wf s1" "sb_content s1 = sb_content s @ [0]"
    using PushUnsafe_store [of ?r "[0]"] r by auto
  have t: "stk_top s1 = Suc (length (sb_content s))" using length_sb_content [OF s1(3)] s1(4) by simp
  then have f: "stack_ShrinkToFit s1 = stack_Resize (stk_top s1) s1"
    by (simp add: stack_ShrinkToFit_def stack_Empty_def stack_GetSize_def)
  let ?f = "stack_Resize (stk_top s1) s1"
  have w: "stack_wf ?f" "sb_content ?f = sb_content s @ [0]" "length (stk_mem ?f) = stk_top s1" "stk_top ?f = stk_top s1" "\<not> stk_null ?f"
    using Resize_wf [OF s1(3), of "stk_top s1"] s1(4) t by simp_all
  have "sb_content (?f\<lparr>stk_top := stk_top ?f - 1\<rparr>) = butlast (sb_content ?f)"
    using w(1) by (simp add: sb_content_def butlast_take stack_wf_def)
  then show ?thesis using s1 w f t
    by (auto simp: sb_ShrinkToFit_def stack_Push_def stack_Pop_def stack_GetSize_def stack_wf_def sb_room_def)
qed

end
