(* ===== verification/Json_Writer.thy ===== *)
theory Json_Writer imports Itoa Json_Buffer "HOL-Library.Monad_Syntax" begin

text \<open>
  The JSON writer of rapidjson, \<^verbatim>\<open>src/lib/rapidjson/include/rapidjson/writer.h\<close>, as \<open>Writer<StringBuffer>\<close>
  with UTF-8 on both sides and the default flags, without the SIMD versions, which the build does not select. \<open>None\<close> is a failed assertion or a
  write outside of the buffer. \<open>Double\<close> is left out (floating point).
\<close>

subsection \<open>State\<close>

datatype json_type = kNullType | kFalseType | kTrueType | kObjectType | kArrayType | kStringType | kNumberType

record json_level =
  valueCount :: nat
  inArray :: bool

record json_writer =
  jw_os :: mem_stack
  jw_level_stack :: "json_level list"
  jw_maxDecimalPlaces :: int
  jw_hasRoot :: bool

definition Level_new :: "bool \<Rightarrow> json_level" where "Level_new b = \<lparr>valueCount = 0, inArray = b\<rparr>"

definition Writer_new :: "mem_stack \<Rightarrow> json_writer" where
  "Writer_new os = \<lparr>jw_os = os, jw_level_stack = [], jw_maxDecimalPlaces = 324, jw_hasRoot = False\<rparr>"

definition Writer_Reset :: "mem_stack \<Rightarrow> json_writer \<Rightarrow> json_writer" where
  "Writer_Reset os w = w\<lparr>jw_os := os, jw_hasRoot := False, jw_level_stack := []\<rparr>"

definition IsComplete :: "json_writer \<Rightarrow> bool" where
  "IsComplete w \<longleftrightarrow> jw_hasRoot w \<and> jw_level_stack w = []"

subsection \<open>Output\<close>

definition WriteNull :: "mem_stack \<Rightarrow> (bool \<times> mem_stack) option" where
  "WriteNull os = do { os \<leftarrow> put_all sb_PutUnsafe [0x6E, 0x75, 0x6C, 0x6C] (stack_Reserve 4 os); Some (True, os) }"

definition WriteBool :: "bool \<Rightarrow> mem_stack \<Rightarrow> (bool \<times> mem_stack) option" where
  "WriteBool b os =
     (if b then do { os \<leftarrow> put_all sb_PutUnsafe [0x74, 0x72, 0x75, 0x65] (stack_Reserve 4 os); Some (True, os) }
      else do { os \<leftarrow> put_all sb_PutUnsafe [0x66, 0x61, 0x6C, 0x73, 0x65] (stack_Reserve 5 os); Some (True, os) })"

text \<open>Numbers: an area of \<open>n\<close> bytes is pushed, \<open>digits\<close> are stored at its beginning, the rest is popped.\<close>

definition write_digits :: "nat \<Rightarrow> byte list \<Rightarrow> mem_stack \<Rightarrow> (bool \<times> mem_stack) option" where
  "write_digits n digits os =
     do { (p, os) \<leftarrow> stack_Push n os;
          if length digits > n then None
          else do { os \<leftarrow> stack_store p digits os; os \<leftarrow> stack_Pop (n - length digits) os; Some (True, os) } }"

definition WriteInt :: "u32 \<Rightarrow> mem_stack \<Rightarrow> (bool \<times> mem_stack) option" where
  "WriteInt i = write_digits 11 (i32toa i)"

definition WriteUint :: "u32 \<Rightarrow> mem_stack \<Rightarrow> (bool \<times> mem_stack) option" where
  "WriteUint u = write_digits 10 (u32toa u)"

definition WriteInt64 :: "u64 \<Rightarrow> mem_stack \<Rightarrow> (bool \<times> mem_stack) option" where
  "WriteInt64 i64 = write_digits 21 (i64toa i64)"

definition WriteUint64 :: "u64 \<Rightarrow> mem_stack \<Rightarrow> (bool \<times> mem_stack) option" where
  "WriteUint64 u = write_digits 20 (u64toa u)"

definition hexDigits :: "byte list" where "hexDigits = ascii ''0123456789ABCDEF''"

definition Z16 :: "byte list" where "Z16 = [0, 0, 0, 0, 0, 0, 0, 0, 0, 0, 0, 0, 0, 0, 0, 0]"

definition escape :: "byte list" where
  "escape =
     [0x75, 0x75, 0x75, 0x75, 0x75, 0x75, 0x75, 0x75, 0x62, 0x74, 0x6E, 0x75, 0x66, 0x72, 0x75, 0x75,
      0x75, 0x75, 0x75, 0x75, 0x75, 0x75, 0x75, 0x75, 0x75, 0x75, 0x75, 0x75, 0x75, 0x75, 0x75, 0x75,
      0, 0, 0x22, 0, 0, 0, 0, 0, 0, 0, 0, 0, 0, 0, 0, 0]
     @ Z16 @ Z16
     @ [0, 0, 0, 0, 0, 0, 0, 0, 0, 0, 0, 0, 0x5C, 0, 0, 0]
     @ Z16 @ Z16 @ Z16 @ Z16 @ Z16 @ Z16 @ Z16 @ Z16 @ Z16 @ Z16"

text \<open>What the loop puts for one character (UTF-8 supports Unicode, so there is no escape for bytes from 0x80 on).\<close>

definition put_escaped :: "byte \<Rightarrow> byte list" where
  "put_escaped c =
     (if escape ! unat c \<noteq> 0 then
        [0x5C, escape ! unat c]
        @ (if escape ! unat c = 0x75
           then [0x30, 0x30, hexDigits ! unat (drop_bit 4 c), hexDigits ! unat (c AND 0xF)] else [])
      else [c])"

fun write_chars :: "byte list \<Rightarrow> mem_stack \<Rightarrow> mem_stack option" where
  "write_chars [] os = Some os"
| "write_chars (c # cs) os = do { os \<leftarrow> put_all sb_PutUnsafe (put_escaped c) os; write_chars cs os }"

text \<open>\<open>length\<close> is a 32-bit \<open>SizeType\<close>, and so is the size that is reserved. \<open>str\<close> is the memory of the string.\<close>

definition WriteString :: "byte list \<Rightarrow> u32 \<Rightarrow> mem_stack \<Rightarrow> (bool \<times> mem_stack) option" where
  "WriteString str len os =
     (if unat len > length str then None
      else do {
        os \<leftarrow> sb_PutUnsafe 0x22 (stack_Reserve (unat (2 + len * 6)) os);
        os \<leftarrow> write_chars (take (unat len) str) os;
        os \<leftarrow> sb_PutUnsafe 0x22 os;
        Some (True, os) })"

definition write_mark :: "byte \<Rightarrow> mem_stack \<Rightarrow> (bool \<times> mem_stack) option" where
  "write_mark c os = do { os \<leftarrow> sb_Put c os; Some (True, os) }"

definition WriteStartObject :: "mem_stack \<Rightarrow> (bool \<times> mem_stack) option" where "WriteStartObject = write_mark 0x7B"
definition WriteEndObject :: "mem_stack \<Rightarrow> (bool \<times> mem_stack) option" where "WriteEndObject = write_mark 0x7D"
definition WriteStartArray :: "mem_stack \<Rightarrow> (bool \<times> mem_stack) option" where "WriteStartArray = write_mark 0x5B"
definition WriteEndArray :: "mem_stack \<Rightarrow> (bool \<times> mem_stack) option" where "WriteEndArray = write_mark 0x5D"

definition WriteRawValue :: "byte list \<Rightarrow> nat \<Rightarrow> mem_stack \<Rightarrow> (bool \<times> mem_stack) option" where
  "WriteRawValue json len os =
     (if len > length json \<or> 0 \<in> set (take len json) then None
      else do { os \<leftarrow> put_all sb_PutUnsafe (take len json) (stack_Reserve len os); Some (True, os) })"

subsection \<open>Prefix and EndValue\<close>

definition Prefix :: "json_type \<Rightarrow> json_writer \<Rightarrow> json_writer option" where
  "Prefix type w =
     (case jw_level_stack w of
        level # levels \<Rightarrow>
          do { os \<leftarrow> (if valueCount level > 0 then
                       (if inArray level then sb_Put 0x2C (jw_os w)
                        else sb_Put (if valueCount level mod 2 = 0 then 0x2C else 0x3A) (jw_os w))
                     else Some (jw_os w));
               if \<not> inArray level \<and> valueCount level mod 2 = 0 \<and> type \<noteq> kStringType then None
               else Some (w\<lparr>jw_os := os, jw_level_stack := level\<lparr>valueCount := valueCount level + 1\<rparr> # levels\<rparr>) }
      | [] \<Rightarrow> if jw_hasRoot w then None else Some (w\<lparr>jw_hasRoot := True\<rparr>))"

text \<open>\<open>EndValue\<close> flushes the stream at the end of the text; flushing a string buffer does nothing.\<close>

definition EndValue :: "bool \<Rightarrow> json_writer \<Rightarrow> bool \<times> json_writer" where
  "EndValue ret w = (ret, w)"

subsection \<open>Handler\<close>

text \<open>\<open>Prefix(type)\<close>, then the output, then \<open>EndValue\<close>.\<close>

definition put_value :: "json_type \<Rightarrow> (mem_stack \<Rightarrow> (bool \<times> mem_stack) option) \<Rightarrow> json_writer \<Rightarrow> (bool \<times> json_writer) option" where
  "put_value type out w =
     do { w \<leftarrow> Prefix type w; (b, os) \<leftarrow> out (jw_os w); Some (EndValue b (w\<lparr>jw_os := os\<rparr>)) }"

definition jw_Null :: "json_writer \<Rightarrow> (bool \<times> json_writer) option" where "jw_Null = put_value kNullType WriteNull"
definition jw_Bool :: "bool \<Rightarrow> json_writer \<Rightarrow> (bool \<times> json_writer) option" where
  "jw_Bool b = put_value (if b then kTrueType else kFalseType) (WriteBool b)"
definition jw_Int :: "u32 \<Rightarrow> json_writer \<Rightarrow> (bool \<times> json_writer) option" where
  "jw_Int i = put_value kNumberType (WriteInt i)"
definition jw_Uint :: "u32 \<Rightarrow> json_writer \<Rightarrow> (bool \<times> json_writer) option" where
  "jw_Uint u = put_value kNumberType (WriteUint u)"
definition jw_Int64 :: "u64 \<Rightarrow> json_writer \<Rightarrow> (bool \<times> json_writer) option" where
  "jw_Int64 i64 = put_value kNumberType (WriteInt64 i64)"
definition jw_Uint64 :: "u64 \<Rightarrow> json_writer \<Rightarrow> (bool \<times> json_writer) option" where
  "jw_Uint64 u64 = put_value kNumberType (WriteUint64 u64)"
definition jw_RawNumber :: "byte list \<Rightarrow> u32 \<Rightarrow> json_writer \<Rightarrow> (bool \<times> json_writer) option" where
  "jw_RawNumber str len = put_value kNumberType (WriteString str len)"
definition jw_String :: "byte list \<Rightarrow> u32 \<Rightarrow> json_writer \<Rightarrow> (bool \<times> json_writer) option" where
  "jw_String str len = put_value kStringType (WriteString str len)"
definition jw_Key :: "byte list \<Rightarrow> u32 \<Rightarrow> json_writer \<Rightarrow> (bool \<times> json_writer) option" where
  "jw_Key str len = jw_String str len"
definition jw_RawValue :: "byte list \<Rightarrow> nat \<Rightarrow> json_type \<Rightarrow> json_writer \<Rightarrow> (bool \<times> json_writer) option" where
  "jw_RawValue json len type = put_value type (WriteRawValue json len)"

text \<open>The overloads for a C string: \<open>StrLen\<close> is \<open>strlen\<close>, truncated to \<open>SizeType\<close>.\<close>

definition StrLen :: "byte list \<Rightarrow> u32" where "StrLen s = of_nat (length (c_str s))"

definition jw_String_c :: "byte list \<Rightarrow> json_writer \<Rightarrow> (bool \<times> json_writer) option" where
  "jw_String_c str = jw_String str (StrLen str)"
definition jw_Key_c :: "byte list \<Rightarrow> json_writer \<Rightarrow> (bool \<times> json_writer) option" where
  "jw_Key_c str = jw_Key str (StrLen str)"

definition jw_StartObject :: "json_writer \<Rightarrow> (bool \<times> json_writer) option" where
  "jw_StartObject w =
     do { w \<leftarrow> Prefix kObjectType w;
          let w = w\<lparr>jw_level_stack := Level_new False # jw_level_stack w\<rparr>;
          (b, os) \<leftarrow> WriteStartObject (jw_os w); Some (b, w\<lparr>jw_os := os\<rparr>) }"

definition jw_EndObject :: "json_writer \<Rightarrow> (bool \<times> json_writer) option" where
  "jw_EndObject w =
     (case jw_level_stack w of
        [] \<Rightarrow> None
      | level # levels \<Rightarrow>
          if inArray level then None
          else if valueCount level mod 2 \<noteq> 0 then None
          else do { let w = w\<lparr>jw_level_stack := levels\<rparr>;
                    (b, os) \<leftarrow> WriteEndObject (jw_os w); Some (EndValue b (w\<lparr>jw_os := os\<rparr>)) })"

definition jw_StartArray :: "json_writer \<Rightarrow> (bool \<times> json_writer) option" where
  "jw_StartArray w =
     do { w \<leftarrow> Prefix kArrayType w;
          let w = w\<lparr>jw_level_stack := Level_new True # jw_level_stack w\<rparr>;
          (b, os) \<leftarrow> WriteStartArray (jw_os w); Some (b, w\<lparr>jw_os := os\<rparr>) }"

definition jw_EndArray :: "json_writer \<Rightarrow> (bool \<times> json_writer) option" where
  "jw_EndArray w =
     (case jw_level_stack w of
        [] \<Rightarrow> None
      | level # levels \<Rightarrow>
          if \<not> inArray level then None
          else do { let w = w\<lparr>jw_level_stack := levels\<rparr>;
                    (b, os) \<leftarrow> WriteEndArray (jw_os w); Some (EndValue b (w\<lparr>jw_os := os\<rparr>)) })"

subsection \<open>What the output functions write\<close>

lemma length_decimal: "n < 10 ^ Suc k \<Longrightarrow> length (decimal n) \<le> Suc k"
proof (induction k arbitrary: n)
  case 0
  then show ?case by (simp add: decimal_one)
next
  case (Suc k)
  then have "n div 10 < 10 ^ Suc k" by (simp add: less_mult_imp_div_less)
  then show ?case using Suc.IH [of "n div 10"] by (cases "n < 10") (simp_all add: decimal_one decimal_step not_less)
qed

lemma decimal_not_empty [simp]: "decimal n \<noteq> []"
  by (subst decimal.simps) simp

lemma decimal_int_not_empty [simp]: "decimal_int i \<noteq> []"
  by (simp add: decimal_int_def)

lemma length_decimal_int: "\<bar>i\<bar> < 10 ^ Suc k \<Longrightarrow> length (decimal_int i) \<le> Suc (Suc k)"
  using length_decimal [of "nat \<bar>i\<bar>" k] by (auto simp: decimal_int_def nat_less_iff abs_if split: if_splits)

text \<open>The digits fit into the areas that are pushed for them.\<close>

lemma digits_fit:
  "length (u32toa v) \<le> 10" "length (i32toa v) \<le> 11" "length (u64toa x) \<le> 20" "length (i64toa x) \<le> 21"
proof -
  have "unat v < 2 ^ 32" "unat x < 2 ^ 64" using unsigned_less [of v] unsigned_less [of x] by simp_all
  then have "unat v < 10 ^ Suc 9" "unat x < 10 ^ Suc 19" by simp_all
  then show "length (u32toa v) \<le> 10" "length (u64toa x) \<le> 20"
    using length_decimal [of "unat v" 9] length_decimal [of "unat x" 19] by (simp_all add: u32toa_decimal u64toa_decimal)
  have "\<bar>sint v\<bar> \<le> 2 ^ 31" "\<bar>sint x\<bar> \<le> 2 ^ 63"
    using sint_ge [of v] sint_lt [of v] sint_ge [of x] sint_lt [of x] by (simp_all add: abs_le_iff)
  then have "\<bar>sint v\<bar> < 10 ^ Suc 9" "\<bar>sint x\<bar> < 10 ^ Suc 19" by simp_all
  then show "length (i32toa v) \<le> 11" "length (i64toa x) \<le> 21"
    using length_decimal_int [of "sint v" 9] length_decimal_int [of "sint x" 19] by (simp_all add: i32toa_decimal i64toa_decimal)
qed

text \<open>Output functions that succeed on every buffer and append \<open>bs\<close>.\<close>

definition writes :: "(mem_stack \<Rightarrow> (bool \<times> mem_stack) option) \<Rightarrow> byte list \<Rightarrow> bool" where
  "writes out bs \<longleftrightarrow>
     (\<forall>os. stack_wf os \<longrightarrow> (\<exists>os'. out os = Some (True, os') \<and> stack_wf os' \<and> sb_content os' = sb_content os @ bs))"

lemma write_digits_writes:
  assumes "length digits \<le> n" and "digits \<noteq> []"
  shows "writes (write_digits n digits) digits"
  unfolding writes_def
proof (intro allI impI)
  fix os
  assume "stack_wf os"
  then have r: "stack_wf (stack_Reserve n os)" "sb_content (stack_Reserve n os) = sb_content os" "n \<le> sb_room (stack_Reserve n os)"
    using Reserve_wf [of os n] by simp_all
  let ?r = "stack_Reserve n os"
  have n: "0 < n" using assms by (cases digits) simp_all
  then have nn: "\<not> stk_null ?r" using r by (auto simp: stack_wf_def sb_room_def)
  let ?p = "?r\<lparr>stk_top := stk_top ?r + n\<rparr>"
  have push: "stack_Push n os = Some (stk_top ?r, ?p)"
    using r(3) nn by (simp add: stack_Push_def stack_PushUnsafe_def sb_room_def)
  let ?m = "?p\<lparr>stk_mem := take (stk_top ?r) (stk_mem ?r) @ digits @ drop (stk_top ?r + length digits) (stk_mem ?r)\<rparr>"
  have top: "stk_top ?r + n \<le> length (stk_mem ?r)" using r(1,3) unfolding stack_wf_def sb_room_def by linarith
  then have store: "stack_store (stk_top ?r) digits ?p = Some ?m"
    using assms(1) by (simp add: stack_store_def copy_into_def)
  have pop: "stack_Pop (n - length digits) ?m = Some (?m\<lparr>stk_top := stk_top ?r + length digits\<rparr>)"
    using assms(1) by (simp add: stack_Pop_def stack_GetSize_def)
  have "write_digits n digits os = Some (True, ?m\<lparr>stk_top := stk_top ?r + length digits\<rparr>)"
    using push store pop assms(1) by (simp add: write_digits_def)
  moreover have "stack_wf (?m\<lparr>stk_top := stk_top ?r + length digits\<rparr>)"
    using r(1) top assms(1) nn by (simp add: stack_wf_def)
  moreover have "sb_content (?m\<lparr>stk_top := stk_top ?r + length digits\<rparr>) = sb_content ?r @ digits"
    using top by (simp add: sb_content_def)
  then have "sb_content (?m\<lparr>stk_top := stk_top ?r + length digits\<rparr>) = sb_content os @ digits" by (simp only: r(2))
  ultimately show "\<exists>os'. write_digits n digits os = Some (True, os') \<and> stack_wf os' \<and> sb_content os' = sb_content os @ digits"
    by blast
qed

lemma number_writes:
  "writes (WriteInt i) (decimal_int (sint i))" "writes (WriteUint i) (decimal (unat i))"
  "writes (WriteInt64 x) (decimal_int (sint x))" "writes (WriteUint64 x) (decimal (unat x))"
  using digits_fit(1,2) [of i] digits_fit(3,4) [of x] by (simp_all add: WriteInt_def WriteUint_def WriteInt64_def WriteUint64_def write_digits_writes
      u32toa_decimal i32toa_decimal u64toa_decimal i64toa_decimal)

lemma literal_writes:
  "writes WriteNull (ascii ''null'')" "writes (WriteBool b) (if b then ascii ''true'' else ascii ''false'')"
  using sb.reserved_puts [of _ "[0x6E, 0x75, 0x6C, 0x6C]" 4] sb.reserved_puts [of _ "[0x74, 0x72, 0x75, 0x65]" 4]
    sb.reserved_puts [of _ "[0x66, 0x61, 0x6C, 0x73, 0x65]" 5]
  by (fastforce simp: writes_def WriteNull_def WriteBool_def ascii_def)+

lemma write_mark_writes: "writes (write_mark c) [c]"
  unfolding writes_def
proof (intro allI impI)
  fix os
  assume "stack_wf os"
  from sb.put_ok [OF this, of c]
  show "\<exists>os'. write_mark c os = Some (True, os') \<and> stack_wf os' \<and> sb_content os' = sb_content os @ [c]"
    by (auto simp: write_mark_def)
qed

lemma mark_writes:
  "writes WriteStartObject [0x7B]" "writes WriteEndObject [0x7D]" "writes WriteStartArray [0x5B]" "writes WriteEndArray [0x5D]"
  by (simp_all add: write_mark_writes WriteStartObject_def WriteEndObject_def WriteStartArray_def WriteEndArray_def)

subsection \<open>Strings\<close>

definition json_string :: "byte list \<Rightarrow> byte list" where
  "json_string bs = 0x22 # concat (map put_escaped bs) @ [0x22]"

lemma length_put_escaped: "length (put_escaped c) \<le> 6"
  by (simp add: put_escaped_def)

lemma length_escaped: "length (concat (map put_escaped bs)) \<le> 6 * length bs"
proof (induction bs)
  case (Cons c bs)
  then show ?case using length_put_escaped [of c] by simp
qed simp

lemma write_chars_put_all: "write_chars bs os = put_all sb_PutUnsafe (concat (map put_escaped bs)) os"
  by (induction bs arbitrary: os) (auto simp: put_all_append split: option.splits)

text \<open>\<open>WriteString\<close> is the unchecked output of the quoted string after one reservation.\<close>

lemma WriteString_puts:
  assumes "unat len \<le> length str"
  shows "WriteString str len os =
    (case put_all sb_PutUnsafe (json_string (take (unat len) str)) (stack_Reserve (unat (2 + len * 6)) os) of
       None \<Rightarrow> None | Some os \<Rightarrow> Some (True, os))"
  using assms by (auto simp: WriteString_def write_chars_put_all json_string_def put_all_append split: option.splits)

lemma reservation:
  fixes len :: u32
  assumes "2 + unat len * 6 < 2 ^ 32"
  shows "unat (2 + len * 6) = 2 + unat len * 6"
proof -
  have "unat (len * 6) = unat len * 6" using assms by (simp add: unat_mult_lem [THEN iffD1])
  then show ?thesis using assms by (simp add: unat_add_small)
qed

lemma WriteString_writes:
  assumes "unat len \<le> length str" and "2 + unat len * 6 < 2 ^ 32"
  shows "writes (WriteString str len) (json_string (take (unat len) str))"
proof -
  have l: "length (json_string (take (unat len) str)) \<le> unat (2 + len * 6)"
    using length_escaped [of "take (unat len) str"] assms by (simp add: reservation json_string_def)
  show ?thesis unfolding writes_def
  proof (intro allI impI)
    fix os
    assume "stack_wf os"
    from sb.reserved_puts [OF this l]
    show "\<exists>os'. WriteString str len os = Some (True, os') \<and> stack_wf os' \<and>
        sb_content os' = sb_content os @ json_string (take (unat len) str)"
      by (auto simp: WriteString_puts [OF assms(1)])
  qed
qed

end
