(* ===== verification/Json_Text.thy ===== *)
theory Json_Text imports Json_Writer begin

text \<open>
  What the writer of \<^verbatim>\<open>Json_Writer\<close> produces: JSON values and their text, the sequence of calls that emits a
  value, an abstract writer that only keeps the text, the open levels and whether a root was begun, and the proofs that the
  writer implements it and accepts exactly the call sequences of values.
\<close>

subsection \<open>Values, their text and their calls\<close>

datatype (plugins only: code size) json =
    JNull | JBool bool | JInt u32 | JUint u32 | JInt64 u64 | JUint64 u64 | JString "byte list"
  | JArray "json list" | JObject "(byte list \<times> json) list"

fun commas :: "byte list list \<Rightarrow> byte list" where
  "commas [] = []"
| "commas (x # xs) = x @ concat (map (\<lambda>y. 0x2C # y) xs)"

fun json_text :: "json \<Rightarrow> byte list" where
  "json_text JNull = ascii ''null''"
| "json_text (JBool b) = (if b then ascii ''true'' else ascii ''false'')"
| "json_text (JInt i) = decimal_int (sint i)"
| "json_text (JUint u) = decimal (unat u)"
| "json_text (JInt64 i) = decimal_int (sint i)"
| "json_text (JUint64 u) = decimal (unat u)"
| "json_text (JString s) = json_string s"
| "json_text (JArray js) = 0x5B # commas (map json_text js) @ [0x5D]"
| "json_text (JObject kvs) = 0x7B # commas (map (\<lambda>(k, v). json_string k @ 0x3A # json_text v) kvs) @ [0x7D]"

datatype (plugins only: code size) json_event =
    ENull | EBool bool | EInt u32 | EUint u32 | EInt64 u64 | EUint64 u64 | EString "byte list"
  | EStartObject | EEndObject | EStartArray | EEndArray

fun events :: "json \<Rightarrow> json_event list" where
  "events JNull = [ENull]"
| "events (JBool b) = [EBool b]"
| "events (JInt i) = [EInt i]"
| "events (JUint u) = [EUint u]"
| "events (JInt64 i) = [EInt64 i]"
| "events (JUint64 u) = [EUint64 u]"
| "events (JString s) = [EString s]"
| "events (JArray js) = EStartArray # concat (map events js) @ [EEndArray]"
| "events (JObject kvs) = EStartObject # concat (map (\<lambda>(k, v). EString k # events v) kvs) @ [EEndObject]"

fun handle :: "json_event \<Rightarrow> json_writer \<Rightarrow> (bool \<times> json_writer) option" where
  "handle ENull = jw_Null"
| "handle (EBool b) = jw_Bool b"
| "handle (EInt i) = jw_Int i"
| "handle (EUint u) = jw_Uint u"
| "handle (EInt64 i) = jw_Int64 i"
| "handle (EUint64 u) = jw_Uint64 u"
| "handle (EString s) = jw_String s (of_nat (length s))"
| "handle EStartObject = jw_StartObject"
| "handle EEndObject = jw_EndObject"
| "handle EStartArray = jw_StartArray"
| "handle EEndArray = jw_EndArray"

text \<open>A sequence of calls, whose results are ignored.\<close>

fun run_events :: "json_event list \<Rightarrow> json_writer \<Rightarrow> json_writer option" where
  "run_events [] w = Some w"
| "run_events (e # es) w = (case handle e w of None \<Rightarrow> None | Some (b, w) \<Rightarrow> run_events es w)"

subsection \<open>The abstract writer\<close>

type_synonym writer_spec = "byte list \<times> json_level list \<times> bool"

definition separator :: "json_level list \<Rightarrow> byte list" where
  "separator levels = (case levels of [] \<Rightarrow> []
     | l # _ \<Rightarrow> if valueCount l = 0 then [] else if inArray l \<or> even (valueCount l) then [0x2C] else [0x3A])"

definition accepts :: "json_type \<Rightarrow> json_level list \<Rightarrow> bool \<Rightarrow> bool" where
  "accepts type levels root = (case levels of [] \<Rightarrow> \<not> root
     | l # _ \<Rightarrow> inArray l \<or> odd (valueCount l) \<or> type = kStringType)"

definition bumped :: "json_level list \<Rightarrow> json_level list" where
  "bumped levels = (case levels of [] \<Rightarrow> [] | l # ls \<Rightarrow> l\<lparr>valueCount := valueCount l + 1\<rparr> # ls)"

definition spec_value :: "json_type \<Rightarrow> byte list \<Rightarrow> json_level list \<Rightarrow> writer_spec \<Rightarrow> writer_spec option" where
  "spec_value type bs opens st = (case st of (written, levels, root) \<Rightarrow>
     if accepts type levels root then Some (written @ separator levels @ bs, opens @ bumped levels, True) else None)"

definition spec_end :: "bool \<Rightarrow> byte \<Rightarrow> writer_spec \<Rightarrow> writer_spec option" where
  "spec_end arr c st = (case st of (written, levels, root) \<Rightarrow>
     (case levels of [] \<Rightarrow> None
      | l # ls \<Rightarrow> if inArray l = arr \<and> (arr \<or> even (valueCount l)) then Some (written @ [c], ls, root) else None))"

fun spec_handle :: "json_event \<Rightarrow> writer_spec \<Rightarrow> writer_spec option" where
  "spec_handle ENull = spec_value kNullType (ascii ''null'') []"
| "spec_handle (EBool b) = spec_value (if b then kTrueType else kFalseType) (if b then ascii ''true'' else ascii ''false'') []"
| "spec_handle (EInt i) = spec_value kNumberType (decimal_int (sint i)) []"
| "spec_handle (EUint u) = spec_value kNumberType (decimal (unat u)) []"
| "spec_handle (EInt64 i) = spec_value kNumberType (decimal_int (sint i)) []"
| "spec_handle (EUint64 u) = spec_value kNumberType (decimal (unat u)) []"
| "spec_handle (EString s) = spec_value kStringType (json_string s) []"
| "spec_handle EStartObject = spec_value kObjectType [0x7B] [Level_new False]"
| "spec_handle EEndObject = spec_end False 0x7D"
| "spec_handle EStartArray = spec_value kArrayType [0x5B] [Level_new True]"
| "spec_handle EEndArray = spec_end True 0x5D"

fun spec_run :: "json_event list \<Rightarrow> writer_spec \<Rightarrow> writer_spec option" where
  "spec_run [] st = Some st"
| "spec_run (e # es) st = (case spec_handle e st of None \<Rightarrow> None | Some st \<Rightarrow> spec_run es st)"

lemma spec_run_append: "spec_run (es @ fs) st = (case spec_run es st of None \<Rightarrow> None | Some st \<Rightarrow> spec_run fs st)"
  by (induction es arbitrary: st) (auto split: option.splits)

subsection \<open>The writer implements the abstract writer\<close>

definition jw_abs :: "json_writer \<Rightarrow> writer_spec" where
  "jw_abs w = (sb_content (jw_os w), jw_level_stack w, jw_hasRoot w)"

definition jw_wf :: "json_writer \<Rightarrow> bool" where
  "jw_wf w \<longleftrightarrow> stack_wf (jw_os w) \<and> (jw_level_stack w \<noteq> [] \<longrightarrow> jw_hasRoot w)"

definition short_string :: "byte list \<Rightarrow> bool" where "short_string s \<longleftrightarrow> 2 + length s * 6 < 2 ^ 32"

fun short_event :: "json_event \<Rightarrow> bool" where
  "short_event (EString s) = short_string s"
| "short_event _ = True"

text \<open>A call fails an assertion exactly when the abstract writer refuses it; otherwise it returns \<open>true\<close> in the same state.\<close>

definition implements :: "(bool \<times> json_writer) option \<Rightarrow> writer_spec option \<Rightarrow> bool" where
  "implements r spec \<longleftrightarrow> (case spec of None \<Rightarrow> r = None | Some st \<Rightarrow> \<exists>w. r = Some (True, w) \<and> jw_wf w \<and> jw_abs w = st)"

lemma Prefix_None:
  assumes "jw_wf w" and "\<not> accepts type (jw_level_stack w) (jw_hasRoot w)"
  shows "Prefix type w = None"
  using assms by (auto simp: Prefix_def accepts_def even_iff_mod_2_eq_zero split: list.splits option.splits)

lemma Prefix_Some:
  assumes "jw_wf w" and "accepts type (jw_level_stack w) (jw_hasRoot w)"
  shows "\<exists>w'. Prefix type w = Some w' \<and> jw_wf w' \<and>
    jw_abs w' = (sb_content (jw_os w) @ separator (jw_level_stack w), bumped (jw_level_stack w), True)"
proof (cases "jw_level_stack w")
  case Nil
  then show ?thesis using assms by (auto simp: Prefix_def accepts_def jw_wf_def jw_abs_def separator_def bumped_def)
next
  case (Cons l ls)
  have wf: "stack_wf (jw_os w)" "jw_hasRoot w" using assms(1) Cons by (auto simp: jw_wf_def)
  obtain os1 where c: "sb_Put 0x2C (jw_os w) = Some os1" "stack_wf os1" "sb_content os1 = sb_content (jw_os w) @ [0x2C]"
    using sb.put_ok [OF wf(1)] by blast
  obtain os2 where d: "sb_Put 0x3A (jw_os w) = Some os2" "stack_wf os2" "sb_content os2 = sb_content (jw_os w) @ [0x3A]"
    using sb.put_ok [OF wf(1)] by blast
  have e: "valueCount l mod 2 = 0 \<longleftrightarrow> even (valueCount l)" by (simp only: even_iff_mod_2_eq_zero)
  have ok: "inArray l \<or> odd (valueCount l) \<or> type = kStringType" using assms(2) Cons by (simp add: accepts_def)
  consider (first) "valueCount l = 0" | (comma) "0 < valueCount l" "inArray l \<or> even (valueCount l)"
    | (colon) "0 < valueCount l" "\<not> inArray l" "odd (valueCount l)" by blast
  then show ?thesis
  proof cases
    case first
    then show ?thesis using Cons wf ok by (auto simp: Prefix_def jw_wf_def jw_abs_def separator_def bumped_def)
  next
    case comma
    then show ?thesis using Cons wf c ok
      by (cases "inArray l") (auto simp: Prefix_def e jw_wf_def jw_abs_def separator_def bumped_def)
  next
    case colon
    then show ?thesis using Cons wf d by (auto simp: Prefix_def e jw_wf_def jw_abs_def separator_def bumped_def)
  qed
qed

lemma put_value_refines:
  assumes "jw_wf w" and "writes out bs"
  shows "implements (put_value type out w) (spec_value type bs [] (jw_abs w))"
proof (cases "accepts type (jw_level_stack w) (jw_hasRoot w)")
  case True
  then obtain w1 where w1: "Prefix type w = Some w1" "jw_wf w1"
    "jw_abs w1 = (sb_content (jw_os w) @ separator (jw_level_stack w), bumped (jw_level_stack w), True)"
    using Prefix_Some [OF assms(1)] by blast
  then obtain os where "out (jw_os w1) = Some (True, os)" "stack_wf os" "sb_content os = sb_content (jw_os w1) @ bs"
    using assms(2) by (auto simp: writes_def jw_wf_def)
  then show ?thesis using w1 True
    by (auto simp: implements_def put_value_def spec_value_def EndValue_def jw_abs_def jw_wf_def)
next
  case False
  then show ?thesis using Prefix_None [OF assms(1)] by (auto simp: implements_def put_value_def spec_value_def jw_abs_def)
qed

lemma start_refines:
  assumes "jw_wf w" and "writes out [c]"
  shows "implements (do { w \<leftarrow> Prefix type w; let w = w\<lparr>jw_level_stack := Level_new arr # jw_level_stack w\<rparr>;
      (b, os) \<leftarrow> out (jw_os w); Some (b, w\<lparr>jw_os := os\<rparr>) }) (spec_value type [c] [Level_new arr] (jw_abs w))"
proof (cases "accepts type (jw_level_stack w) (jw_hasRoot w)")
  case True
  then obtain w1 where w1: "Prefix type w = Some w1" "jw_wf w1"
    "jw_abs w1 = (sb_content (jw_os w) @ separator (jw_level_stack w), bumped (jw_level_stack w), True)"
    using Prefix_Some [OF assms(1)] by blast
  then obtain os where "out (jw_os w1) = Some (True, os)" "stack_wf os" "sb_content os = sb_content (jw_os w1) @ [c]"
    using assms(2) by (auto simp: writes_def jw_wf_def)
  then show ?thesis using w1 True by (auto simp: implements_def spec_value_def jw_abs_def jw_wf_def)
next
  case False
  then show ?thesis using Prefix_None [OF assms(1)] by (auto simp: implements_def spec_value_def jw_abs_def)
qed

lemma starts_refine:
  assumes "jw_wf w"
  shows "implements (jw_StartObject w) (spec_value kObjectType [0x7B] [Level_new False] (jw_abs w))"
    "implements (jw_StartArray w) (spec_value kArrayType [0x5B] [Level_new True] (jw_abs w))"
  unfolding jw_StartObject_def jw_StartArray_def by (rule start_refines [OF assms] mark_writes)+

lemma end_refines:
  assumes "jw_wf w"
  shows "implements (jw_EndObject w) (spec_end False 0x7D (jw_abs w))" "implements (jw_EndArray w) (spec_end True 0x5D (jw_abs w))"
proof -
  have wf: "stack_wf (jw_os w)" using assms by (simp add: jw_wf_def)
  obtain os1 where "WriteEndObject (jw_os w) = Some (True, os1)" "stack_wf os1" "sb_content os1 = sb_content (jw_os w) @ [0x7D]"
    using mark_writes(2) wf by (auto simp: writes_def)
  then show "implements (jw_EndObject w) (spec_end False 0x7D (jw_abs w))"
    using assms by (cases "jw_level_stack w")
      (auto simp: implements_def spec_end_def jw_EndObject_def EndValue_def jw_abs_def jw_wf_def simp flip: even_iff_mod_2_eq_zero)
  obtain os2 where "WriteEndArray (jw_os w) = Some (True, os2)" "stack_wf os2" "sb_content os2 = sb_content (jw_os w) @ [0x5D]"
    using mark_writes(4) wf by (auto simp: writes_def)
  then show "implements (jw_EndArray w) (spec_end True 0x5D (jw_abs w))"
    using assms by (cases "jw_level_stack w")
      (auto simp: implements_def spec_end_def jw_EndArray_def EndValue_def jw_abs_def jw_wf_def)
qed

lemma short_string_length:
  assumes "short_string s"
  shows "unat (of_nat (length s) :: u32) = length s"
proof -
  have "length s < 2 ^ 32" using assms unfolding short_string_def by linarith
  then show ?thesis by (simp add: unat_of_nat take_bit_nat_eq_self)
qed

lemma short_string_writes:
  assumes "short_string s"
  shows "writes (WriteString s (of_nat (length s))) (json_string s)"
  using WriteString_writes [of "of_nat (length s)" s] short_string_length [OF assms] assms by (simp add: short_string_def)

lemma handle_refines:
  assumes "jw_wf w" and "short_event e"
  shows "implements (handle e w) (spec_handle e (jw_abs w))"
  using assms by (cases e) (simp_all add: put_value_refines literal_writes number_writes short_string_writes mark_writes
      jw_Null_def jw_Bool_def jw_Int_def jw_Uint_def jw_Int64_def jw_Uint64_def jw_String_def
      starts_refine end_refines del: if_split)

lemma run_refines:
  assumes "jw_wf w" and "list_all short_event es"
  shows "case spec_run es (jw_abs w) of None \<Rightarrow> run_events es w = None
    | Some st \<Rightarrow> \<exists>w'. run_events es w = Some w' \<and> jw_wf w' \<and> jw_abs w' = st"
  using assms
proof (induction es arbitrary: w)
  case (Cons e es)
  have h: "implements (handle e w) (spec_handle e (jw_abs w))" using handle_refines [of w e] Cons.prems by simp
  show ?case
  proof (cases "spec_handle e (jw_abs w)")
    case (Some st)
    then obtain w' where "handle e w = Some (True, w')" "jw_wf w'" "jw_abs w' = st" using h by (auto simp: implements_def)
    then show ?thesis using Cons.IH [of w'] Cons.prems(2) Some by (auto split: option.splits)
  qed (use h in \<open>simp add: implements_def\<close>)
qed simp

subsection \<open>The calls of a value write its text\<close>

lemma spec_scalar:
  assumes "accepts kObjectType levels root"
  shows "spec_value type bs opens (written, levels, root) = Some (written @ separator levels @ bs, opens @ bumped levels, True)"
  using assms by (auto simp: spec_value_def accepts_def split: list.splits)

lemma run_array_items:
  assumes "\<And>j written levels root es. j \<in> set js \<Longrightarrow> accepts kObjectType levels root \<Longrightarrow>
      spec_run (events j @ es) (written, levels, root) = spec_run es (written @ separator levels @ json_text j, bumped levels, True)"
    and "inArray l"
  shows "spec_run (concat (map events js) @ es) (written, l # ls, True) =
    spec_run es (written @ (if valueCount l = 0 then commas (map json_text js) else concat (map (\<lambda>y. 0x2C # y) (map json_text js))),
      l\<lparr>valueCount := valueCount l + length js\<rparr> # ls, True)"
  using assms
proof (induction js arbitrary: l written)
  case (Cons j js)
  have a: "accepts kObjectType (l # ls) True" using Cons.prems(2) by (simp add: accepts_def)
  have "spec_run (concat (map events (j # js)) @ es) (written, l # ls, True) =
      spec_run (concat (map events js) @ es) (written @ separator (l # ls) @ json_text j, bumped (l # ls), True)"
    using Cons.prems(1) [OF _ a, of j "concat (map events js) @ es" written] by simp
  also have "\<dots> = spec_run es (written @ separator (l # ls) @ json_text j @ concat (map (\<lambda>y. 0x2C # y) (map json_text js)),
      l\<lparr>valueCount := valueCount l + length (j # js)\<rparr> # ls, True)"
    using Cons.IH [of "l\<lparr>valueCount := valueCount l + 1\<rparr>"] Cons.prems by (simp add: bumped_def)
  finally show ?case using Cons.prems(2) by (simp add: separator_def)
qed simp

lemma run_object_members:
  assumes "\<And>k v written levels root es. (k, v) \<in> set kvs \<Longrightarrow> accepts kObjectType levels root \<Longrightarrow>
      spec_run (events v @ es) (written, levels, root) = spec_run es (written @ separator levels @ json_text v, bumped levels, True)"
    and "\<not> inArray l" and "even (valueCount l)"
  shows "spec_run (concat (map (\<lambda>(k, v). EString k # events v) kvs) @ es) (written, l # ls, True) =
    spec_run es (written @ (let xs = map (\<lambda>(k, v). json_string k @ 0x3A # json_text v) kvs
        in if valueCount l = 0 then commas xs else concat (map (\<lambda>y. 0x2C # y) xs)),
      l\<lparr>valueCount := valueCount l + 2 * length kvs\<rparr> # ls, True)"
  using assms
proof (induction kvs arbitrary: l written)
  case (Cons kv kvs)
  obtain k v where kv: "kv = (k, v)" by (cases kv)
  let ?l = "l\<lparr>valueCount := valueCount l + 1\<rparr>"
  let ?key = "written @ separator (l # ls) @ json_string k"
  have a: "accepts kObjectType (?l # ls) True" using Cons.prems(2,3) by (simp add: accepts_def)
  have "spec_run (concat (map (\<lambda>(k, v). EString k # events v) (kv # kvs)) @ es) (written, l # ls, True) =
      spec_run (events v @ concat (map (\<lambda>(k, v). EString k # events v) kvs) @ es) (?key, ?l # ls, True)"
    using Cons.prems(2,3) by (simp add: kv spec_value_def accepts_def bumped_def)
  also have "\<dots> = spec_run (concat (map (\<lambda>(k, v). EString k # events v) kvs) @ es)
      (?key @ separator (?l # ls) @ json_text v, bumped (?l # ls), True)"
    using Cons.prems(1) [OF _ a, of k v "concat (map (\<lambda>(k, v). EString k # events v) kvs) @ es" ?key] kv by simp
  also have "\<dots> = spec_run (concat (map (\<lambda>(k, v). EString k # events v) kvs) @ es)
      (?key @ 0x3A # json_text v, l\<lparr>valueCount := valueCount l + 2\<rparr> # ls, True)"
    using Cons.prems(2,3) by (simp add: separator_def bumped_def)
  also have "\<dots> = spec_run es (?key @ 0x3A # json_text v
        @ concat (map (\<lambda>y. 0x2C # y) (map (\<lambda>(k, v). json_string k @ 0x3A # json_text v) kvs)),
      l\<lparr>valueCount := valueCount l + 2 * length (kv # kvs)\<rparr> # ls, True)"
    by (subst Cons.IH) (use Cons.prems(2,3) in \<open>auto intro!: Cons.prems(1) simp: Let_def\<close>)
  finally show ?case using Cons.prems(2,3) by (simp add: separator_def kv Let_def)
qed simp

lemma run_value:
  "accepts kObjectType levels root \<Longrightarrow>
    spec_run (events j @ es) (written, levels, root) = spec_run es (written @ separator levels @ json_text j, bumped levels, True)"
proof (induction j arbitrary: levels root written es)
  case (JArray js)
  have "spec_run (events (JArray js) @ es) (written, levels, root) =
      spec_run (concat (map events js) @ EEndArray # es) (written @ separator levels @ [0x5B], Level_new True # bumped levels, True)"
    using JArray.prems by (simp add: spec_scalar)
  also have "\<dots> = spec_run (EEndArray # es) ((written @ separator levels @ [0x5B]) @ commas (map json_text js),
      (Level_new True)\<lparr>valueCount := length js\<rparr> # bumped levels, True)"
    by (subst run_array_items [OF JArray.IH]) (simp_all add: Level_new_def)
  finally show ?case by (simp add: spec_end_def Level_new_def)
next
  case (JObject kvs)
  have "spec_run (events (JObject kvs) @ es) (written, levels, root) =
      spec_run (concat (map (\<lambda>(k, v). EString k # events v) kvs) @ EEndObject # es)
        (written @ separator levels @ [0x7B], Level_new False # bumped levels, True)"
    using JObject.prems by (simp add: spec_scalar)
  also have "\<dots> = spec_run (EEndObject # es) ((written @ separator levels @ [0x7B])
        @ commas (map (\<lambda>(k, v). json_string k @ 0x3A # json_text v) kvs),
      (Level_new False)\<lparr>valueCount := 2 * length kvs\<rparr> # bumped levels, True)"
    by (subst run_object_members) (auto intro: JObject.IH simp: Level_new_def Let_def)
  finally show ?case by (simp add: spec_end_def Level_new_def)
qed (simp_all add: spec_scalar)

subsection \<open>Only the calls of values are accepted\<close>

text \<open>What the calls so far have begun: the open arrays and objects with their complete parts, the innermost first.\<close>

datatype (plugins only: code size) frame = FArray "json list" | FObject "(byte list \<times> json) list" "byte list option"

fun frame_events :: "frame \<Rightarrow> json_event list" where
  "frame_events (FArray js) = EStartArray # concat (map events js)"
| "frame_events (FObject kvs None) = EStartObject # concat (map (\<lambda>(k, v). EString k # events v) kvs)"
| "frame_events (FObject kvs (Some k)) = EStartObject # concat (map (\<lambda>(k, v). EString k # events v) kvs) @ [EString k]"

fun frame_level :: "frame \<Rightarrow> json_level" where
  "frame_level (FArray js) = \<lparr>valueCount = length js, inArray = True\<rparr>"
| "frame_level (FObject kvs None) = \<lparr>valueCount = 2 * length kvs, inArray = False\<rparr>"
| "frame_level (FObject kvs (Some k)) = \<lparr>valueCount = 2 * length kvs + 1, inArray = False\<rparr>"

fun waits :: "frame \<Rightarrow> bool" where
  "waits (FObject kvs None) = False"
| "waits _ = True"

definition open_calls :: "frame list \<Rightarrow> json_event list" where
  "open_calls fs = concat (map frame_events (rev fs))"

definition count_up :: "json_level \<Rightarrow> json_level" where "count_up l = l\<lparr>valueCount := valueCount l + 1\<rparr>"

definition shape :: "json_event list \<Rightarrow> json_level list \<Rightarrow> bool \<Rightarrow> bool" where
  "shape es levels root \<longleftrightarrow> es = [] \<and> levels = [] \<and> \<not> root \<or>
     root \<and> ((\<exists>j. es = events j \<and> levels = []) \<or>
       (\<exists>f fs. es = open_calls (f # fs) \<and> levels = frame_level f # map (count_up \<circ> frame_level) fs \<and> list_all waits fs))"

lemma bumped_Cons [simp]: "bumped (l # ls) = count_up l # ls"
  by (simp add: bumped_def count_up_def)

lemma shape_open:
  "es = open_calls (f # fs) \<Longrightarrow> levels = frame_level f # map (count_up \<circ> frame_level) fs \<Longrightarrow> list_all waits fs \<Longrightarrow> shape es levels True"
  by (auto simp: shape_def)

lemma shape_value:
  assumes "list_all waits fs"
  shows "shape (open_calls fs @ events j) (map (count_up \<circ> frame_level) fs) True"
proof (cases fs)
  case Nil
  then show ?thesis by (auto simp: shape_def open_calls_def)
next
  case (Cons f fs')
  show ?thesis
  proof (cases f)
    case (FArray js)
    then show ?thesis using Cons assms
      by (intro shape_open [of _ "FArray (js @ [j])" fs']) (simp_all add: open_calls_def count_up_def)
  next
    case (FObject kvs ko)
    then obtain k where "ko = Some k" using Cons assms by (cases ko) simp_all
    then show ?thesis using Cons assms FObject
      by (intro shape_open [of _ "FObject (kvs @ [(k, j)]) None" fs']) (simp_all add: open_calls_def count_up_def)
  qed
qed

lemma accepts_frame: "accepts type (frame_level f # ls) root \<longleftrightarrow> waits f \<or> type = kStringType"
  by (cases f rule: waits.cases) (simp_all add: accepts_def)

text \<open>The frames that wait for a value, if one is accepted.\<close>

lemma shape_accepts:
  assumes "shape es levels root" and "accepts kObjectType levels root"
  shows "\<exists>fs. es = open_calls fs \<and> bumped levels = map (count_up \<circ> frame_level) fs \<and> list_all waits fs"
proof -
  consider (a) "es = []" "levels = []" "\<not> root" | (b) "levels = []" "root"
    | (c) f fs where "es = open_calls (f # fs)" "levels = frame_level f # map (count_up \<circ> frame_level) fs" "list_all waits fs"
    using assms(1) unfolding shape_def by blast
  then show ?thesis
  proof cases
    case a
    then show ?thesis by (intro exI [of _ "[]"]) (simp add: open_calls_def bumped_def)
  next
    case b
    then show ?thesis using assms(2) by (simp add: accepts_def)
  next
    case c
    then show ?thesis using assms(2) by (intro exI [of _ "f # fs"]) (simp add: accepts_frame)
  qed
qed

lemma accepts_other: "type \<noteq> kStringType \<Longrightarrow> accepts type levels root = accepts kObjectType levels root"
  by (auto simp: accepts_def split: list.splits)

lemma shape_scalar:
  assumes "shape es levels root" and "spec_value type bs [] (written, levels, root) = Some (written', levels', root')"
    and "events j = [e]" and "type \<noteq> kStringType"
  shows "shape (es @ [e]) levels' root'"
proof -
  have "accepts kObjectType levels root" "levels' = bumped levels" "root'"
    using assms(2) accepts_other [OF assms(4)] by (auto simp: spec_value_def split: if_splits)
  then show ?thesis using shape_accepts [OF assms(1)] shape_value [of _ j] assms(3) by auto
qed

lemma shape_string:
  assumes "shape es levels root" and "spec_value kStringType bs [] (written, levels, root) = Some (written', levels', root')"
  shows "shape (es @ [EString s]) levels' root'"
proof (cases "accepts kObjectType levels root")
  case True
  have "levels' = bumped levels" "root'" using assms(2) by (auto simp: spec_value_def split: if_splits)
  then show ?thesis using shape_accepts [OF assms(1) True] shape_value [of _ "JString s"] by auto
next
  case False
  then obtain kvs fs where f: "es = open_calls (FObject kvs None # fs)" "list_all waits fs"
    "levels = frame_level (FObject kvs None) # map (count_up \<circ> frame_level) fs"
  proof -
    have acc: "accepts kStringType levels root" using assms(2) by (auto simp: spec_value_def split: if_splits)
    then have "levels \<noteq> []" using False by (auto simp: accepts_def)
    then obtain f fs where f: "es = open_calls (f # fs)" "levels = frame_level f # map (count_up \<circ> frame_level) fs" "list_all waits fs"
      using assms(1) by (auto simp: shape_def)
    then have "\<not> waits f" using False by (simp add: accepts_frame)
    then show ?thesis using that f by (cases f rule: waits.cases) auto
  qed
  moreover have "levels' = bumped levels" "root'" using assms(2) by (auto simp: spec_value_def split: if_splits)
  ultimately show ?thesis
    by (auto intro!: shape_open [of _ "FObject kvs (Some s)" fs] simp: open_calls_def count_up_def)
qed

lemma shape_start:
  assumes "shape es levels root"
    and "spec_value type bs [Level_new arr] (written, levels, root) = Some (written', levels', root')" and "type \<noteq> kStringType"
    and "frame_events f = [e]" and "frame_level f = Level_new arr"
  shows "shape (es @ [e]) levels' root'"
proof -
  have acc: "accepts kObjectType levels root" "levels' = Level_new arr # bumped levels" "root'"
    using assms(2) accepts_other [OF assms(3)] by (auto simp: spec_value_def split: if_splits)
  obtain fs where fs: "es = open_calls fs" "bumped levels = map (count_up \<circ> frame_level) fs" "list_all waits fs"
    using shape_accepts [OF assms(1) acc(1)] by blast
  have "shape (es @ [e]) levels' True"
    using fs acc assms(4,5) by (intro shape_open [of _ f fs]) (simp_all add: open_calls_def)
  then show ?thesis using acc(3) by simp
qed

lemma shape_end:
  assumes "shape es levels root" and "spec_end arr c (written, levels, root) = Some (written', levels', root')"
    and "e = (if arr then EEndArray else EEndObject)"
  shows "shape (es @ [e]) levels' root'"
proof -
  have "levels \<noteq> []" using assms(2) by (auto simp: spec_end_def)
  then obtain f fs where f: "es = open_calls (f # fs)" "levels = frame_level f # map (count_up \<circ> frame_level) fs"
    "list_all waits fs" "root"
    using assms(1) by (auto simp: shape_def)
  then have l: "inArray (frame_level f) = arr" "arr \<or> even (valueCount (frame_level f))"
    "levels' = map (count_up \<circ> frame_level) fs" "root'"
    using assms(2) by (auto simp: spec_end_def split: if_splits)
  obtain j where "frame_events f @ [e] = events j"
  proof (cases f)
    case (FArray js)
    then show ?thesis using that [of "JArray js"] l assms(3) by auto
  next
    case (FObject kvs ko)
    then show ?thesis using that [of "JObject kvs"] l assms(3) by (cases ko) auto
  qed
  then have "es @ [e] = open_calls fs @ events j" using f(1) by (simp add: open_calls_def)
  then show ?thesis using shape_value [OF f(3), of j] l by simp
qed

lemma shape_step:
  assumes "shape es levels root" and "spec_handle e (written, levels, root) = Some (written', levels', root')"
  shows "shape (es @ [e]) levels' root'"
proof (cases e)
  case (EBool b)
  with assms(2) have "spec_value (if b then kTrueType else kFalseType) (if b then ascii ''true'' else ascii ''false'') []
      (written, levels, root) = Some (written', levels', root')" by simp
  then show ?thesis unfolding EBool by (rule shape_scalar [OF assms(1), where j = "JBool b"]) simp_all
next
  case ENull
  show ?thesis using assms(2) unfolding ENull spec_handle.simps
    by (rule shape_scalar [OF assms(1), where j = JNull]) (simp_all add: Level_new_def)
next
  case (EInt i)
  show ?thesis using assms(2) unfolding EInt spec_handle.simps
    by (rule shape_scalar [OF assms(1), where j = "JInt i"]) (simp_all add: Level_new_def)
next
  case (EUint i)
  show ?thesis using assms(2) unfolding EUint spec_handle.simps
    by (rule shape_scalar [OF assms(1), where j = "JUint i"]) (simp_all add: Level_new_def)
next
  case (EInt64 i)
  show ?thesis using assms(2) unfolding EInt64 spec_handle.simps
    by (rule shape_scalar [OF assms(1), where j = "JInt64 i"]) (simp_all add: Level_new_def)
next
  case (EUint64 i)
  show ?thesis using assms(2) unfolding EUint64 spec_handle.simps
    by (rule shape_scalar [OF assms(1), where j = "JUint64 i"]) (simp_all add: Level_new_def)
next
  case (EString s)
  show ?thesis using assms(2) unfolding EString spec_handle.simps
    by (rule shape_string [OF assms(1)])
next
  case EStartObject
  show ?thesis using assms(2) unfolding EStartObject spec_handle.simps
    by (rule shape_start [OF assms(1), where f = "FObject [] None" and arr = False]) (simp_all add: Level_new_def)
next
  case EStartArray
  show ?thesis using assms(2) unfolding EStartArray spec_handle.simps
    by (rule shape_start [OF assms(1), where f = "FArray []" and arr = True]) (simp_all add: Level_new_def)
next
  case EEndObject
  show ?thesis using assms(2) unfolding EEndObject spec_handle.simps
    by (rule shape_end [OF assms(1), where arr = False]) (simp_all add: Level_new_def)
next
  case EEndArray
  show ?thesis using assms(2) unfolding EEndArray spec_handle.simps
    by (rule shape_end [OF assms(1), where arr = True]) (simp_all add: Level_new_def)
qed

lemma run_shape: "spec_run es ([], [], False) = Some (written, levels, root) \<Longrightarrow> shape es levels root"
proof (induction es arbitrary: written levels root rule: rev_induct)
  case Nil
  then show ?case by (simp add: shape_def)
next
  case (snoc e es)
  then obtain w0 l0 r0 where "spec_run es ([], [], False) = Some (w0, l0, r0)" "spec_handle e (w0, l0, r0) = Some (written, levels, root)"
    by (auto simp: spec_run_append split: option.splits)
  then show ?case using snoc.IH [of w0 l0 r0] shape_step by blast
qed

subsection \<open>Text without a terminator\<close>

lemma hexDigits_no_zero: "i < 16 \<Longrightarrow> hexDigits ! i \<noteq> 0"
  using nth_mem [of i hexDigits] by (auto simp: hexDigits_def ascii_def)

lemma put_escaped_no_zero: "0 \<notin> set (put_escaped c)"
proof (cases "c = 0")
  case True
  then show ?thesis using hexDigits_no_zero [of 0] by (simp add: put_escaped_def escape_def)
next
  case False
  then show ?thesis using hexDigits_no_zero [OF nibble_bounds(1) [of c]] hexDigits_no_zero [OF nibble_bounds(2) [of c]]
    by (auto simp: put_escaped_def)
qed

lemma decimal_no_zero: "0 \<notin> set (decimal n)"
proof (induction n rule: decimal.induct)
  case (1 n)
  have d: "chr_0 + of_nat k \<noteq> (0 :: byte)" if k: "k < 10" for k
  proof -
    have "unat (chr_0 + of_nat k :: byte) = 48 + k" using k by (simp add: unat_add_small unat_of_nat take_bit_nat_eq_self)
    then show ?thesis by auto
  qed
  show ?case using 1 d [of n] d [of "n mod 10"] by (cases "n < 10") (simp_all add: decimal_one decimal_step not_less)
qed

lemma json_string_no_zero: "0 \<notin> set (json_string s)"
  using put_escaped_no_zero by (auto simp: json_string_def)

lemma commas_no_zero: "\<forall>x \<in> set xs. 0 \<notin> set x \<Longrightarrow> 0 \<notin> set (commas xs)"
  by (cases xs) auto

lemma json_text_no_zero: "0 \<notin> set (json_text j)"
proof (induction j)
  case (JArray js)
  then show ?case using commas_no_zero [of "map json_text js"] by auto
next
  case (JObject kvs)
  have "0 \<notin> set (json_string k @ 0x3A # json_text v)" if "(k, v) \<in> set kvs" for k v
    using JObject.IH [OF that, of v] json_string_no_zero by simp
  then have "\<forall>x \<in> set (map (\<lambda>(k, v). json_string k @ 0x3A # json_text v) kvs). 0 \<notin> set x" by auto
  from commas_no_zero [OF this] show ?case by simp
qed (auto simp: json_string_no_zero decimal_no_zero decimal_int_def ascii_def)

subsection \<open>Properties\<close>

lemma new_writer: "jw_wf (Writer_new sb_new)" "jw_abs (Writer_new sb_new) = ([], [], False)"
  by (simp_all add: jw_wf_def jw_abs_def Writer_new_def)

lemma spec_run_value: "spec_run (events j) ([], [], False) = Some (json_text j, [], True)"
  using run_value [of "[]" False j "[]" "[]"] by (simp add: accepts_def separator_def bumped_def)

text \<open>C33: On an empty string buffer, the calls of the writer that fail no assertion and end in \<open>IsComplete()\<close> are exactly the
  calls of one JSON value (nested in any way): no other sequence of calls gets through the checks of \<open>Prefix\<close>, \<open>EndObject\<close> and
  \<open>EndArray\<close>.\<close>

theorem writer_accepts_values:
  assumes "list_all short_event es"
  shows "(\<exists>w. run_events es (Writer_new sb_new) = Some w \<and> IsComplete w) \<longleftrightarrow> (\<exists>j. es = events j)"
proof
  assume "\<exists>w. run_events es (Writer_new sb_new) = Some w \<and> IsComplete w"
  then obtain w where w: "run_events es (Writer_new sb_new) = Some w" "IsComplete w" by blast
  then obtain written where "spec_run es ([], [], False) = Some (written, [], True)"
    using run_refines [OF new_writer(1) assms] unfolding new_writer(2)
    by (auto simp: jw_abs_def IsComplete_def split: option.splits)
  from run_shape [OF this] show "\<exists>j. es = events j" by (simp add: shape_def)
next
  assume "\<exists>j. es = events j"
  then obtain j where "es = events j" by blast
  then show "\<exists>w. run_events es (Writer_new sb_new) = Some w \<and> IsComplete w"
    using run_refines [OF new_writer(1) assms] unfolding new_writer(2) by (auto simp: spec_run_value jw_abs_def IsComplete_def)
qed

theorem writer_accepts_values_witness:
  "(\<exists>w. run_events [EStartObject, EString [105, 100], EInt 7, EEndObject] (Writer_new sb_new) = Some w \<and> IsComplete w) \<longleftrightarrow>
   (\<exists>j. [EStartObject, EString [105, 100], EInt 7, EEndObject] = events j)"
  by (rule writer_accepts_values) (simp add: short_string_def)

lemma events_written:
  assumes "list_all short_event (events j)"
  shows "\<exists>w mem os. run_events (events j) (Writer_new sb_new) = Some w \<and> IsComplete w \<and>
    sb_GetString (jw_os w) = Some (mem, os) \<and> c_str mem = json_text j"
proof -
  obtain w where w: "run_events (events j) (Writer_new sb_new) = Some w" "jw_wf w" "jw_abs w = (json_text j, [], True)"
    using run_refines [OF new_writer(1) assms] unfolding new_writer(2) by (auto simp: spec_run_value)
  then obtain mem os rest where "sb_GetString (jw_os w) = Some (mem, os)" "mem = json_text j @ 0 # rest"
    using GetString_content [of "jw_os w"] by (auto simp: jw_abs_def jw_wf_def)
  moreover have "c_str (json_text j @ 0 # rest) = json_text j"
    unfolding c_str_def by (subst takeWhile_append2) (use json_text_no_zero [of j] in auto)
  ultimately show ?thesis using w by (auto simp: jw_abs_def IsComplete_def)
qed

text \<open>C34: The calls of a JSON value leave its text in the buffer, and \<open>GetString()\<close> returns it as a C string: arrays and objects with
  their commas and colons, strings quoted and escaped, integers of 32 and 64 bits in decimal.\<close>

theorem writer_text:
  assumes "list_all short_event (events j)"
  shows "\<exists>w mem os. run_events (events j) (Writer_new sb_new) = Some w \<and> IsComplete w \<and>
    sb_GetString (jw_os w) = Some (mem, os) \<and> c_str mem = json_text j"
  by (rule events_written [OF assms])

theorem writer_text_witness:
  "\<exists>w mem os. run_events (events (JObject [([105, 100], JInt 0xFFFFFFFF), ([97], JArray [JNull, JBool True])])) (Writer_new sb_new) = Some w
     \<and> IsComplete w \<and> sb_GetString (jw_os w) = Some (mem, os) \<and>
     c_str mem = json_text (JObject [([105, 100], JInt 0xFFFFFFFF), ([97], JArray [JNull, JBool True])])"
  by (rule writer_text) (simp add: short_string_def)

text \<open>C39: \<open>WriteString\<close> computes the size that it reserves, \<open>2 + length * 6\<close>, in 32 bits: on a new buffer a string of 715827883 to
  858993459 bytes reserves less than it writes, and the unchecked writes leave the buffer.\<close>

theorem string_overruns_reserve:
  assumes "715827883 \<le> length str" and "length str \<le> 858993459"
  shows "jw_String str (of_nat (length str)) (Writer_new sb_new) = None"
proof -
  let ?n = "of_nat (length str) :: u32"
  have n: "unat ?n = length str" using assms by (simp add: unat_of_nat take_bit_nat_eq_self)
  have "unat (2 + ?n * 6) = (2 + length str * 6) mod 2 ^ 32"
    by (simp add: unat_word_ariths n mod_simps)
  also have "\<dots> = 2 + length str * 6 - 2 ^ 32"
    using assms by (subst le_mod_geq) simp_all
  finally have r: "unat (2 + ?n * 6) = 2 + length str * 6 - 2 ^ 32" .
  let ?os = "stack_Reserve (unat (2 + ?n * 6)) sb_new"
  have "sb_room ?os \<le> max 256 (2 + length str * 6 - 2 ^ 32)"
    by (simp add: r stack_Reserve_def stack_Expand_def stack_Resize_def Let_def sb_room_def sb_new_def stack_new_def
        stack_GetSize_def stack_GetCapacity_def)
  also have "\<dots> < 2 + length str" using assms by simp
  also have "\<dots> \<le> length (json_string str)"
  proof -
    have "length bs \<le> length (concat (map put_escaped bs))" for bs
    proof (induction bs)
      case (Cons c bs)
      obtain x xs where "put_escaped c = x # xs" by (cases "put_escaped c") (simp_all add: put_escaped_def split: if_splits)
      then show ?case using Cons by simp
    qed simp
    then show ?thesis by (simp add: json_string_def)
  qed
  finally have "put_all sb_PutUnsafe (json_string str) ?os = None"
    using Reserve_wf(1) [OF sb_new_wf(1)] by (intro sb.put_all_overrun) simp_all
  then have "WriteString str ?n sb_new = None" by (simp add: WriteString_puts n)
  then show ?thesis by (simp add: jw_String_def put_value_def Prefix_def Writer_new_def)
qed

theorem string_overruns_reserve_witness:
  "jw_String (replicate 715827883 97) (of_nat (length (replicate 715827883 (97 :: byte)))) (Writer_new sb_new) = None"
  by (rule string_overruns_reserve; unfold length_replicate; simp)

end
