(* ===== verification/ClientExample.thy ===== *)
theory ClientExample imports WS_Client_Msg Json_Text begin

text \<open>
  The program of the repository, \<^verbatim>\<open>src/src/ClientExample.cpp\<close>: \<open>connect\<close> and \<open>subscribe\<close> of its client, over the
  WebSocket client of \<^verbatim>\<open>WS_Client\<close> and the JSON writer of \<^verbatim>\<open>Json_Writer\<close>, and that the bytes which
  \<open>subscribe\<close> writes are one text message with the request.
\<close>

subsection \<open>The program\<close>

definition ex_connect :: "'j content_lib \<Rightarrow> 'io net \<Rightarrow> byte list \<Rightarrow> ('j, 'io) client_world \<Rightarrow> (int \<times> ('j, 'io) client_world) outcome" where
  "ex_connect lib net url w = client_open lib net (c_str url) [] w"

fun write_instruments :: "byte list list \<Rightarrow> json_writer \<Rightarrow> json_writer option" where
  "write_instruments [] w = Some w"
| "write_instruments (instrument # instruments) w =
     do { (b, w) \<leftarrow> jw_String_c instrument w; write_instruments instruments w }"

definition write_request :: "u32 \<Rightarrow> byte list list \<Rightarrow> json_writer \<Rightarrow> json_writer option" where
  "write_request m_request_id instruments w =
     do { (b, w) \<leftarrow> jw_StartObject w;
          (b, w) \<leftarrow> jw_Key_c (ascii ''jsonrpc'') w;
          (b, w) \<leftarrow> jw_String_c (ascii ''2.0'') w;
          (b, w) \<leftarrow> jw_Key_c (ascii ''id'') w;
          (b, w) \<leftarrow> jw_Int m_request_id w;
          (b, w) \<leftarrow> jw_Key_c (ascii ''method'') w;
          (b, w) \<leftarrow> jw_String_c (ascii ''public/subscribe'') w;
          (b, w) \<leftarrow> jw_Key_c (ascii ''params'') w;
          (b, w) \<leftarrow> jw_StartObject w;
          (b, w) \<leftarrow> jw_Key_c (ascii ''channels'') w;
          (b, w) \<leftarrow> jw_StartArray w;
          w \<leftarrow> write_instruments instruments w;
          (b, w) \<leftarrow> jw_EndArray w;
          (b, w) \<leftarrow> jw_EndObject w;
          (b, w) \<leftarrow> jw_EndObject w;
          Some w }"

text \<open>The loop that sleeps until \<open>isConnected()\<close>: the states of the client that its tests find, and the first one that is
  connected; \<open>None\<close> while there is none.\<close>

fun wait_connected :: "('j, 'io) client_world list \<Rightarrow> ('j, 'io) client_world option" where
  "wait_connected [] = None"
| "wait_connected (w # ws) = (if client_isConnected w then Some w else wait_connected ws)"

text \<open>The result is the client and the next \<open>m_request_id\<close>, whose overflow is undefined; \<open>None\<close> is still waiting.\<close>

definition subscribe :: "'io net \<Rightarrow> byte list list \<Rightarrow> ('j, 'io) client_world list \<Rightarrow> u32 \<Rightarrow>
    (('j, 'io) client_world \<times> u32) outcome option" where
  "subscribe net instruments seen m_request_id =
     (case write_request m_request_id instruments (Writer_new sb_new) of None \<Rightarrow> Some Undefined
      | Some writer \<Rightarrow>
          (case wait_connected seen of None \<Rightarrow> None
           | Some world \<Rightarrow>
               (case sb_GetString (jw_os writer) of None \<Rightarrow> Some Undefined
                | Some (mem, os) \<Rightarrow>
                    (case client_send_text net (c_str mem) world of
                       Done (n, world) \<Rightarrow>
                         if m_request_id = 0x7FFFFFFF then Some Undefined else Some (Done (world, m_request_id + 1))
                     | Uncaught \<Rightarrow> Some Uncaught | Undefined \<Rightarrow> Some Undefined))))"

subsection \<open>The request\<close>

definition request_json :: "u32 \<Rightarrow> byte list list \<Rightarrow> json" where
  "request_json m_request_id instruments = JObject [
     (ascii ''jsonrpc'', JString (ascii ''2.0'')), (ascii ''id'', JInt m_request_id),
     (ascii ''method'', JString (ascii ''public/subscribe'')),
     (ascii ''params'', JObject [(ascii ''channels'', JArray (map (\<lambda>i. JString (c_str i)) instruments))])]"

text \<open>The overload for C strings writes the bytes before the terminator.\<close>

lemma String_c_handle: "short_string (c_str s) \<Longrightarrow> jw_String_c s w = handle (EString (c_str s)) w"
proof -
  assume "short_string (c_str s)"
  then have l: "unat (StrLen s) = length (c_str s)" by (simp add: StrLen_def short_string_length)
  have "take (length (c_str s)) s = c_str s" by (simp add: c_str_def takeWhile_eq_take [symmetric])
  moreover have "length (c_str s) \<le> length s" by (simp add: c_str_def length_takeWhile_le)
  ultimately have "WriteString s (StrLen s) = WriteString (c_str s) (StrLen s)"
    by (simp add: WriteString_def l fun_eq_iff)
  then show ?thesis by (simp add: jw_String_c_def jw_String_def StrLen_def)
qed

lemma run_events_append: "run_events (es @ fs) w = do { w \<leftarrow> run_events es w; run_events fs w }"
  by (induction es arbitrary: w) (auto split: option.splits)

lemma write_instruments_run:
  "list_all (\<lambda>i. short_string (c_str i)) is \<Longrightarrow> write_instruments is w = run_events (map (\<lambda>i. EString (c_str i)) is) w"
  by (induction "is" arbitrary: w) (auto simp: String_c_handle split: option.splits Option.bind_splits)

lemma short_keys: "short_string s" if "length s \<le> 20"
  using that by (simp add: short_string_def)

lemma Key_c_handle: "short_string (c_str s) \<Longrightarrow> jw_Key_c s w = handle (EString (c_str s)) w"
  using String_c_handle [of s w] by (simp add: jw_Key_c_def jw_Key_def jw_String_c_def)

lemma literals [simp]:
  "c_str (ascii ''jsonrpc'') = ascii ''jsonrpc''" "c_str (ascii ''2.0'') = ascii ''2.0''" "c_str (ascii ''id'') = ascii ''id''"
  "c_str (ascii ''method'') = ascii ''method''" "c_str (ascii ''public/subscribe'') = ascii ''public/subscribe''"
  "c_str (ascii ''params'') = ascii ''params''" "c_str (ascii ''channels'') = ascii ''channels''"
  by (simp_all add: ascii_def c_str_def)

lemma write_request_run:
  assumes "list_all (\<lambda>i. short_string (c_str i)) instruments"
  shows "write_request m_request_id instruments w = run_events (events (request_json m_request_id instruments)) w"
proof -
  have e: "run_events (e # es) w = do { (b, w) \<leftarrow> handle e w; run_events es w }" for e es w
    by (auto split: option.splits)
  have k: "short_string (c_str (ascii ''jsonrpc''))" "short_string (c_str (ascii ''2.0''))" "short_string (c_str (ascii ''id''))"
    "short_string (c_str (ascii ''method''))" "short_string (c_str (ascii ''public/subscribe''))"
    "short_string (c_str (ascii ''params''))" "short_string (c_str (ascii ''channels''))"
    by (simp_all add: short_keys ascii_def)
  have i: "map (\<lambda>i. EString (c_str i)) instruments = concat (map events (map (\<lambda>i. JString (c_str i)) instruments))"
    by (induction instruments) simp_all
  show ?thesis unfolding write_request_def
    by (simp add: k [THEN Key_c_handle] k [THEN String_c_handle] write_instruments_run [OF assms] request_json_def i
        run_events_append e del: run_events.simps(2) cong: option.case_cong)
qed

subsection \<open>Properties\<close>

lemma wait_connected_first:
  "list_all (\<lambda>w. \<not> client_isConnected w) ws \<Longrightarrow> wait_connected (ws @ rest) = wait_connected rest"
  by (induction ws) simp_all

text \<open>C32: \<open>subscribe\<close> waits until the client is connected, then writes exactly one text message to the connection, whose
  content is the JSON text of the subscription request with the instruments, in whatever state the handshake is, and counts the
  request.\<close>

theorem subscribe_sends_request:
  assumes "list_all (\<lambda>i. short_string (c_str i)) instruments"
    and "int (length (json_text (request_json m_request_id instruments))) \<le> 2 ^ 31 - 15" and "m_request_id \<noteq> 0x7FFFFFFF"
    and "list_all (\<lambda>w. \<not> client_isConnected w) ws" and "client_isConnected world"
    and "cw_channel world = Some ch" and "length (ch_sendbuf (cc_ws ch)) < 2 ^ 64"
    and "transport (net_rand net) (net_write net) good out" and "good (cw_io world)"
  shows "\<exists>world' fs. subscribe net instruments (ws @ world # later) m_request_id = Some (Done (world', m_request_id + 1)) \<and>
    cw_state world' = cw_state world \<and> out (cw_io world') = out (cw_io world) @ concat (map frame_bytes fs) \<and>
    one_message WS_OPCODE_TEXT (json_text (request_json m_request_id instruments)) fs"
proof -
  let ?j = "request_json m_request_id instruments"
  have "list_all short_event (events ?j)"
    using assms(1) by (auto simp: request_json_def list_all_iff short_keys ascii_def)
  from events_written [OF this] obtain w mem os where w: "write_request m_request_id instruments (Writer_new sb_new) = Some w"
    "sb_GetString (jw_os w) = Some (mem, os)" "c_str mem = json_text ?j"
    by (auto simp: write_request_run [OF assms(1)])
  have conn: "isConnected ch" using assms(5,6) by (simp add: client_isConnected_def)
  then have wr: "channel_write net ch = net_write net" by (simp add: channel_write_def isConnected_def fun_eq_iff)
  obtain n ws' io fs where "channel_send (net_rand net) (net_write net) (json_text ?j) (int (length (json_text ?j))) WS_OPCODE_TEXT True
      (cc_ws ch, cw_io world) = Some (n, ws', io)" "sent good out (cw_io world) fs (ws', io)"
      "one_message WS_OPCODE_TEXT (json_text ?j) fs"
    using channel_send_sent [OF assms(8,9,7,2), of WS_OPCODE_TEXT] by auto
  then show ?thesis using w wr assms(3,5,6)
    by (auto simp: subscribe_def wait_connected_first [OF assms(4)] client_send_text_def client_send_def sent_def)
qed

text \<open>A connected client whose handshake has not begun, and the text of a request.\<close>

definition connected_world :: "(unit, byte list) client_world" where
  "connected_world = (cl_world connecting_client)\<lparr>cw_channel := Some (connecting_channel\<lparr>cc_status := CH_CONNECTED\<rparr>)\<rparr>"

lemma example_request_text:
  \<open>json_text (request_json 1 [ascii ''trades.BTC-PERPETUAL.100ms'']) = ascii
     ''{"jsonrpc":"2.0","id":1,"method":"public/subscribe","params":{"channels":["trades.BTC-PERPETUAL.100ms"]}}''\<close>
  by code_simp

theorem subscribe_sends_request_witness:
  "\<exists>world' fs. subscribe log_net [ascii ''trades.BTC-PERPETUAL.100ms''] ([cl_world connecting_client] @ connected_world # []) 1 =
      Some (Done (world', 1 + 1)) \<and>
    cw_state world' = cw_state connected_world \<and> cw_io world' = cw_io connected_world @ concat (map frame_bytes fs) \<and>
    one_message WS_OPCODE_TEXT (json_text (request_json 1 [ascii ''trades.BTC-PERPETUAL.100ms''])) fs"
proof (rule subscribe_sends_request [where good = "\<lambda>_. True" and ch = "connecting_channel\<lparr>cc_status := CH_CONNECTED\<rparr>"])
  show "list_all (\<lambda>i. short_string (c_str i)) [ascii ''trades.BTC-PERPETUAL.100ms'']"
    by (simp add: short_string_def c_str_def ascii_def)
  show "int (length (json_text (request_json 1 [ascii ''trades.BTC-PERPETUAL.100ms'']))) \<le> 2 ^ 31 - 15"
    unfolding example_request_text by (simp add: ascii_def)
  show "transport (net_rand log_net) (net_write log_net) (\<lambda>_. True) (\<lambda>io. io)" by (simp add: log_net_def log_transport)
qed (simp_all add: connected_world_def connecting_client_def connecting_channel_def new_channel_def client_new_def
    client_isConnected_def isConnected_def isOpened_def)

end
