(* ===== verification/Json_Reader.thy ===== *)
theory Json_Reader imports Json_Text begin

text \<open>
  The recursive JSON reader of rapidjson, \<^verbatim>\<open>src/lib/rapidjson/include/rapidjson/reader.h\<close>: \<open>Reader::Parse\<close> of a C
  string with the default flags and UTF-8, without the SIMD versions, which the build does not select. The arithmetic of \<open>double\<close> is a
  parameter (\<open>floats\<close>), and so is the handler that the reader calls. The counters of type \<open>int\<close> (\<open>significandDigit\<close>, \<open>expFrac\<close>,
  \<open>exp\<close>) are unbounded here; in the code they overflow only in numbers of more than 200 million digits. Strings are
  assumed shorter than the 32-bit \<open>SizeType\<close>, and the C stack deep enough for the nesting.
\<close>

subsection \<open>Streams and results\<close>

datatype (plugins only: code size) parse_error =
    kParseErrorDocumentEmpty | kParseErrorDocumentRootNotSingular | kParseErrorValueInvalid
  | kParseErrorObjectMissName | kParseErrorObjectMissColon | kParseErrorObjectMissCommaOrCurlyBracket
  | kParseErrorArrayMissCommaOrSquareBracket
  | kParseErrorStringUnicodeEscapeInvalidHex | kParseErrorStringUnicodeSurrogateInvalid
  | kParseErrorStringEscapeInvalid | kParseErrorStringMissQuotationMark | kParseErrorStringInvalidEncoding
  | kParseErrorNumberTooBig | kParseErrorNumberMissFraction | kParseErrorNumberMissExponent
  | kParseErrorTermination

text \<open>A stream is its position (\<open>Tell\<close>) and the characters before the terminator. At the end \<open>Peek\<close> is the terminator, which no
  test before a \<open>Take\<close> accepts.\<close>

type_synonym json_stream = "nat \<times> byte list"

definition js_Peek :: "json_stream \<Rightarrow> byte" where "js_Peek s = (case snd s of [] \<Rightarrow> 0 | c # _ \<Rightarrow> c)"
definition js_Take :: "json_stream \<Rightarrow> json_stream" where "js_Take s = (fst s + 1, tl (snd s))"

definition Consume :: "byte \<Rightarrow> json_stream \<Rightarrow> bool \<times> json_stream" where
  "Consume expect s = (if js_Peek s = expect then (True, js_Take s) else (False, s))"

fun SkipWhitespace :: "json_stream \<Rightarrow> json_stream" where
  "SkipWhitespace (p, []) = (p, [])"
| "SkipWhitespace (p, c # cs) =
     (if c = 0x20 \<or> c = 0x0A \<or> c = 0x0D \<or> c = 0x09 then SkipWhitespace (p + 1, cs) else (p, c # cs))"

text \<open>The result of a part without calls of the handler, and of one with: the handler's state, also behind an error.
  \<open>SFault\<close> is a failed assertion.\<close>

datatype (plugins only: code size) 'a sresult = SDone 'a json_stream | SError parse_error nat | SFault
datatype (plugins only: code size) 'h presult = PDone json_stream 'h | PError parse_error nat 'h | PFault | PFuel

fun sbind :: "'a sresult \<Rightarrow> ('a \<Rightarrow> json_stream \<Rightarrow> 'b sresult) \<Rightarrow> 'b sresult" where
  "sbind (SDone x s) f = f x s"
| "sbind (SError e n) f = SError e n"
| "sbind SFault f = SFault"

fun pbind :: "'h presult \<Rightarrow> (json_stream \<Rightarrow> 'h \<Rightarrow> 'h presult) \<Rightarrow> 'h presult" where
  "pbind (PDone s st) f = f s st"
| "pbind (PError e n st) f = PError e n st"
| "pbind PFault f = PFault"
| "pbind PFuel f = PFuel"

lemma sbind_SDone [simp]: "sbind r f = SDone x s \<longleftrightarrow> (\<exists>y t. r = SDone y t \<and> f y t = SDone x s)"
  by (cases r) auto

lemma sbind_SDoneE: "sbind r f = SDone x s \<Longrightarrow> (\<And>y t. r = SDone y t \<Longrightarrow> f y t = SDone x s \<Longrightarrow> P) \<Longrightarrow> P"
  by auto

lemma pbind_PDoneE: "pbind r f = PDone s st \<Longrightarrow> (\<And>t u. r = PDone t u \<Longrightarrow> f t u = PDone s st \<Longrightarrow> P) \<Longrightarrow> P"
  by (cases r) auto

lemma pbind_PDone [simp]: "pbind r f = PDone s st \<longleftrightarrow> (\<exists>t u. r = PDone t u \<and> f t u = PDone s st)"
  by (cases r) auto

subsection \<open>Strings\<close>

fun ParseHex4 :: "nat \<Rightarrow> u32 \<Rightarrow> nat \<Rightarrow> json_stream \<Rightarrow> u32 sresult" where
  "ParseHex4 0 codepoint escapeOffset s = SDone codepoint s"
| "ParseHex4 (Suc i) codepoint escapeOffset s =
     (let c = js_Peek s; codepoint = push_bit 4 codepoint + ucast c
      in if 0x30 \<le> c \<and> c \<le> 0x39 then ParseHex4 i (codepoint - 0x30) escapeOffset (js_Take s)
         else if 0x41 \<le> c \<and> c \<le> 0x46 then ParseHex4 i (codepoint - (0x41 - 10)) escapeOffset (js_Take s)
         else if 0x61 \<le> c \<and> c \<le> 0x66 then ParseHex4 i (codepoint - (0x61 - 10)) escapeOffset (js_Take s)
         else SError kParseErrorStringUnicodeEscapeInvalidHex escapeOffset)"

text \<open>\<open>UTF8::Encode\<close>\<close>

definition utf8_Encode :: "u32 \<Rightarrow> byte list option" where
  "utf8_Encode codepoint =
     (if codepoint \<le> 0x7F then Some [ucast (codepoint AND 0xFF)]
      else if codepoint \<le> 0x7FF then
        Some [ucast (0xC0 OR (drop_bit 6 codepoint AND 0xFF)), ucast (0x80 OR (codepoint AND 0x3F))]
      else if codepoint \<le> 0xFFFF then
        Some [ucast (0xE0 OR (drop_bit 12 codepoint AND 0xFF)), ucast (0x80 OR (drop_bit 6 codepoint AND 0x3F)),
              ucast (0x80 OR (codepoint AND 0x3F))]
      else if codepoint \<le> 0x10FFFF then
        Some [ucast (0xF0 OR (drop_bit 18 codepoint AND 0xFF)), ucast (0x80 OR (drop_bit 12 codepoint AND 0x3F)),
              ucast (0x80 OR (drop_bit 6 codepoint AND 0x3F)), ucast (0x80 OR (codepoint AND 0x3F))]
      else None)"

definition read_escape :: "byte list" where
  "read_escape =
     Z16 @ Z16 @ [0, 0, 0x22, 0, 0, 0, 0, 0, 0, 0, 0, 0, 0, 0, 0, 0x2F]
     @ Z16 @ Z16 @ [0, 0, 0, 0, 0, 0, 0, 0, 0, 0, 0, 0, 0x5C, 0, 0, 0]
     @ [0, 0, 0x08, 0, 0, 0, 0x0C, 0, 0, 0, 0, 0, 0, 0, 0x0A, 0]
     @ [0, 0, 0x0D, 0, 0x09, 0, 0, 0, 0, 0, 0, 0, 0, 0, 0, 0]
     @ Z16 @ Z16 @ Z16 @ Z16 @ Z16 @ Z16 @ Z16 @ Z16"

text \<open>After \<open>u\<close>: four digits, and four more for a surrogate pair.\<close>

definition low_surrogate :: "nat \<Rightarrow> u32 \<Rightarrow> json_stream \<Rightarrow> u32 sresult" where
  "low_surrogate escapeOffset codepoint s =
     sbind (ParseHex4 4 0 escapeOffset s) (\<lambda>codepoint2 s.
       if codepoint2 < 0xDC00 \<or> codepoint2 > 0xDFFF then SError kParseErrorStringUnicodeSurrogateInvalid escapeOffset
       else SDone ((push_bit 10 (codepoint - 0xD800) OR (codepoint2 - 0xDC00)) + 0x10000) s)"

definition ParseUnicode :: "nat \<Rightarrow> json_stream \<Rightarrow> u32 sresult" where
  "ParseUnicode escapeOffset s =
     sbind (ParseHex4 4 0 escapeOffset s) (\<lambda>codepoint s.
       if codepoint \<ge> 0xD800 \<and> codepoint \<le> 0xDFFF then
         if codepoint \<le> 0xDBFF then
           (case Consume 0x5C s of (b, s) \<Rightarrow>
              if \<not> b then SError kParseErrorStringUnicodeSurrogateInvalid escapeOffset
              else case Consume 0x75 s of (b, s) \<Rightarrow>
                if \<not> b then SError kParseErrorStringUnicodeSurrogateInvalid escapeOffset
                else low_surrogate escapeOffset codepoint s)
         else SError kParseErrorStringUnicodeSurrogateInvalid escapeOffset
       else SDone codepoint s)"

lemma ParseHex4_rest: "ParseHex4 n cp off s = SDone cp' s' \<Longrightarrow> length (snd s') \<le> length (snd s)"
proof (induction n arbitrary: cp s)
  case (Suc n)
  then have "length (snd s') \<le> length (snd (js_Take s))" by (auto simp: Let_def split: if_splits)
  then show ?case by (simp add: js_Take_def)
qed simp

lemma ParseUnicode_rest: "ParseUnicode off s = SDone cp s' \<Longrightarrow> length (snd s') \<le> length (snd s)"
  by (auto simp: ParseUnicode_def low_surrogate_def Consume_def js_Take_def split: if_splits dest!: ParseHex4_rest)

text \<open>The loop of \<open>ParseStringToStream\<close>; \<open>out\<close> is what it has put.\<close>

function ParseStringToStream :: "byte list \<Rightarrow> json_stream \<Rightarrow> byte list sresult" where
  "ParseStringToStream out s =
     (let c = js_Peek s in
      if c = 0x5C then
        let escapeOffset = fst s; s1 = js_Take s; e = js_Peek s1 in
        if read_escape ! unat e \<noteq> 0 then ParseStringToStream (out @ [read_escape ! unat e]) (js_Take s1)
        else if e = 0x75 then
          (case ParseUnicode escapeOffset (js_Take s1) of
             SDone codepoint s2 \<Rightarrow>
               (case utf8_Encode codepoint of None \<Rightarrow> SFault | Some bs \<Rightarrow> ParseStringToStream (out @ bs) s2)
           | SError e n \<Rightarrow> SError e n | SFault \<Rightarrow> SFault)
        else SError kParseErrorStringEscapeInvalid escapeOffset
      else if c = 0x22 then SDone out (js_Take s)
      else if c < 0x20 then
        SError (if c = 0 then kParseErrorStringMissQuotationMark else kParseErrorStringInvalidEncoding) (fst s)
      else ParseStringToStream (out @ [c]) (js_Take s))"
  by pat_completeness auto
termination
  by (relation "measure (\<lambda>(out, s). length (snd s))")
    (auto simp: js_Peek_def js_Take_def dest!: ParseUnicode_rest split: list.splits)

declare ParseStringToStream.simps [simp del]

subsection \<open>Numbers\<close>

text \<open>Floating point: the conversion of a 64-bit integer, \<open>d * 10.0 + digit\<close>, the test \<open>d > 0.0\<close>, product, quotient, the
  constants of \<open>Pow10\<close>, zero, the test for more than the largest finite number, and the sign.\<close>

record 'd floats =
  fl_of_u64 :: "u64 \<Rightarrow> 'd"
  fl_digit :: "'d \<Rightarrow> u32 \<Rightarrow> 'd"
  fl_positive :: "'d \<Rightarrow> bool"
  fl_mult :: "'d \<Rightarrow> 'd \<Rightarrow> 'd"
  fl_div :: "'d \<Rightarrow> 'd \<Rightarrow> 'd"
  fl_pow10 :: "nat \<Rightarrow> 'd"
  fl_zero :: 'd
  fl_too_big :: "'d \<Rightarrow> bool"
  fl_neg :: "'d \<Rightarrow> 'd"

definition Pow10 :: "'d floats \<Rightarrow> int \<Rightarrow> 'd option" where
  "Pow10 fl n = (if n \<ge> 0 \<and> n \<le> 308 then Some (fl_pow10 fl (nat n)) else None)"

definition FastPath :: "'d floats \<Rightarrow> 'd \<Rightarrow> int \<Rightarrow> 'd option" where
  "FastPath fl significand exp =
     (if exp < -308 then Some (fl_zero fl)
      else if exp \<ge> 0 then map_option (fl_mult fl significand) (Pow10 fl exp)
      else map_option (fl_div fl significand) (Pow10 fl (- exp)))"

definition StrtodNormalPrecision :: "'d floats \<Rightarrow> 'd \<Rightarrow> int \<Rightarrow> 'd option" where
  "StrtodNormalPrecision fl d p =
     (if p < -308 then do { d \<leftarrow> FastPath fl d (-308); FastPath fl d (p + 308) } else FastPath fl d p)"

definition is_digit :: "byte \<Rightarrow> bool" where "is_digit c \<longleftrightarrow> 0x30 \<le> c \<and> c \<le> 0x39"

definition digit_of :: "byte \<Rightarrow> 'a::len word" where "digit_of c = ucast (c - 0x30)"

text \<open>The loops over digits, on the position and the rest of the stream. The code has the first one four times, for negative and other
  numbers, in 32 and 64 bits; \<open>lim\<close> and \<open>lst\<close> are the constants of its test for the next width.\<close>

fun int_digits :: "'a::len word \<Rightarrow> byte \<Rightarrow> 'a word \<Rightarrow> int \<Rightarrow> json_stream \<Rightarrow> 'a word \<times> bool \<times> int \<times> json_stream" where
  "int_digits lim lst i significandDigit (p, []) = (i, False, significandDigit, (p, []))"
| "int_digits lim lst i significandDigit (p, c # cs) =
     (if is_digit c then
        if i \<ge> lim \<and> (i \<noteq> lim \<or> c > lst) then (i, True, significandDigit, (p, c # cs))
        else int_digits lim lst (i * 10 + digit_of c) (significandDigit + 1) (p + 1, cs)
      else (i, False, significandDigit, (p, c # cs)))"

fun big_digits :: "'d floats \<Rightarrow> 'd \<Rightarrow> json_stream \<Rightarrow> 'd \<times> json_stream" where
  "big_digits fl d (p, []) = (d, (p, []))"
| "big_digits fl d (p, c # cs) =
     (if is_digit c then big_digits fl (fl_digit fl d (digit_of c)) (p + 1, cs) else (d, (p, c # cs)))"

fun frac_digits64 :: "u64 \<Rightarrow> int \<Rightarrow> int \<Rightarrow> json_stream \<Rightarrow> u64 \<times> int \<times> int \<times> json_stream" where
  "frac_digits64 i64 expFrac significandDigit (p, []) = (i64, expFrac, significandDigit, (p, []))"
| "frac_digits64 i64 expFrac significandDigit (p, c # cs) =
     (if is_digit c then
        if i64 > 0x1FFFFFFFFFFFFF then (i64, expFrac, significandDigit, (p, c # cs))
        else let i64 = i64 * 10 + digit_of c
             in frac_digits64 i64 (expFrac - 1) (if i64 \<noteq> 0 then significandDigit + 1 else significandDigit) (p + 1, cs)
      else (i64, expFrac, significandDigit, (p, c # cs)))"

fun frac_digits :: "'d floats \<Rightarrow> 'd \<Rightarrow> int \<Rightarrow> int \<Rightarrow> json_stream \<Rightarrow> 'd \<times> int \<times> json_stream" where
  "frac_digits fl d expFrac significandDigit (p, []) = (d, expFrac, (p, []))"
| "frac_digits fl d expFrac significandDigit (p, c # cs) =
     (if is_digit c then
        if significandDigit < 17 then
          let d = fl_digit fl d (digit_of c)
          in frac_digits fl d (expFrac - 1) (if fl_positive fl d then significandDigit + 1 else significandDigit) (p + 1, cs)
        else frac_digits fl d expFrac significandDigit (p + 1, cs)
      else (d, expFrac, (p, c # cs)))"

text \<open>The digits of the exponent: once a negative one is below \<open>-maxExp\<close> the rest is skipped, a positive one above
  \<open>maxExp\<close> is an error (\<open>None\<close>).\<close>

fun skip_digits :: "json_stream \<Rightarrow> json_stream" where
  "skip_digits (p, []) = (p, [])"
| "skip_digits (p, c # cs) = (if is_digit c then skip_digits (p + 1, cs) else (p, c # cs))"

fun exp_digits_minus :: "int \<Rightarrow> int \<Rightarrow> json_stream \<Rightarrow> int \<times> json_stream" where
  "exp_digits_minus maxExp exp (p, []) = (exp, (p, []))"
| "exp_digits_minus maxExp exp (p, c # cs) =
     (if is_digit c then
        let exp = exp * 10 + uint (digit_of c :: u32)
        in if exp > maxExp then (exp, skip_digits (p + 1, cs)) else exp_digits_minus maxExp exp (p + 1, cs)
      else (exp, (p, c # cs)))"

fun exp_digits_plus :: "int \<Rightarrow> int \<Rightarrow> json_stream \<Rightarrow> (int \<times> json_stream) option" where
  "exp_digits_plus maxExp exp (p, []) = Some (exp, (p, []))"
| "exp_digits_plus maxExp exp (p, c # cs) =
     (if is_digit c then
        let exp = exp * 10 + uint (digit_of c :: u32)
        in if exp > maxExp then None else exp_digits_plus maxExp exp (p + 1, cs)
      else Some (exp, (p, c # cs)))"

datatype (plugins only: code size) 'd json_number = NInt u32 | NUint u32 | NInt64 u64 | NUint64 u64 | NDouble 'd

text \<open>The integer part: \<open>i\<close>, \<open>i64\<close>, \<open>use64bit\<close>, \<open>significandDigit\<close>.\<close>

definition number_int :: "bool \<Rightarrow> json_stream \<Rightarrow> (u32 \<times> u64 \<times> bool \<times> int) sresult" where
  "number_int negative s =
     (let c = js_Peek s in
      if c = 0x30 then SDone (0, 0, False, 0) (js_Take s)
      else if 0x31 \<le> c \<and> c \<le> 0x39 then
        (case (if negative then int_digits 214748364 0x38 (digit_of c) 0 (js_Take s)
               else int_digits 429496729 0x35 (digit_of c) 0 (js_Take s)) of
           (i, use64bit, significandDigit, s) \<Rightarrow>
             SDone (i, if use64bit then ucast i else 0, use64bit, significandDigit) s)
      else SError kParseErrorValueInvalid (fst s))"

text \<open>The fraction: \<open>d\<close>, \<open>useDouble\<close>, \<open>expFrac\<close>, and \<open>i64\<close>, which the exponent does not read any more then.\<close>

definition number_frac :: "'d floats \<Rightarrow> u32 \<Rightarrow> u64 \<Rightarrow> bool \<Rightarrow> int \<Rightarrow> 'd \<Rightarrow> bool \<Rightarrow> json_stream \<Rightarrow> ('d \<times> bool \<times> int) sresult" where
  "number_frac fl i i64 use64bit significandDigit d useDouble s =
     (case Consume 0x2E s of (dot, s) \<Rightarrow>
        if \<not> dot then SDone (d, useDouble, 0) s
        else if \<not> is_digit (js_Peek s) then SError kParseErrorNumberMissFraction (fst s)
        else
          (case (if useDouble then (d, 0, significandDigit, s)
                 else case frac_digits64 (if use64bit then i64 else ucast i) 0 significandDigit s of
                   (i64, expFrac, significandDigit, s) \<Rightarrow> (fl_of_u64 fl i64, expFrac, significandDigit, s)) of
             (d, expFrac, significandDigit, s) \<Rightarrow>
               (case frac_digits fl d expFrac significandDigit s of (d, expFrac, s) \<Rightarrow> SDone (d, True, expFrac) s)))"

text \<open>The exponent: \<open>d\<close>, \<open>useDouble\<close>, \<open>exp\<close>.\<close>

definition number_exp :: "'d floats \<Rightarrow> nat \<Rightarrow> u32 \<Rightarrow> u64 \<Rightarrow> bool \<Rightarrow> 'd \<Rightarrow> bool \<Rightarrow> int \<Rightarrow> json_stream \<Rightarrow> ('d \<times> bool \<times> int) sresult" where
  "number_exp fl startOffset i i64 use64bit d useDouble expFrac s =
     (if js_Peek s = 0x65 \<or> js_Peek s = 0x45 then
        let s = js_Take s;
            d = (if useDouble then d else fl_of_u64 fl (if use64bit then i64 else ucast i));
            expMinus = (js_Peek s = 0x2D);
            s = (if js_Peek s = 0x2B \<or> js_Peek s = 0x2D then js_Take s else s)
        in if is_digit (js_Peek s) then
             let exp = uint (digit_of (js_Peek s) :: u32); s = js_Take s in
             if expMinus then
               (case exp_digits_minus ((expFrac + 2147483639) div 10) exp s of (exp, s) \<Rightarrow> SDone (d, True, - exp) s)
             else
               (case exp_digits_plus (308 - expFrac) exp s of
                  None \<Rightarrow> SError kParseErrorNumberTooBig startOffset
                | Some (exp, s) \<Rightarrow> SDone (d, True, exp) s)
           else SError kParseErrorNumberMissExponent (fst s)
      else SDone (d, useDouble, 0) s)"

text \<open>The digits that do not fit into 32 bits: \<open>i64\<close>, \<open>useDouble\<close>, \<open>significandDigit\<close>; and those of a big integer.\<close>

definition number_int64 :: "bool \<Rightarrow> u64 \<Rightarrow> bool \<Rightarrow> int \<Rightarrow> json_stream \<Rightarrow> u64 \<times> bool \<times> int \<times> json_stream" where
  "number_int64 negative i64 use64bit significandDigit s =
     (if use64bit then
        (if negative then int_digits 0x0CCCCCCCCCCCCCCC 0x38 i64 significandDigit s
         else int_digits 0x1999999999999999 0x35 i64 significandDigit s)
      else (i64, False, significandDigit, s))"

definition number_big :: "'d floats \<Rightarrow> u64 \<Rightarrow> bool \<Rightarrow> json_stream \<Rightarrow> 'd \<times> json_stream" where
  "number_big fl i64 useDouble s = (if useDouble then big_digits fl (fl_of_u64 fl i64) s else (fl_zero fl, s))"

text \<open>The call that a complete number makes.\<close>

definition number_value :: "'d floats \<Rightarrow> nat \<Rightarrow> bool \<Rightarrow> u32 \<Rightarrow> u64 \<Rightarrow> bool \<Rightarrow> 'd \<Rightarrow> bool \<Rightarrow> int \<Rightarrow> json_stream \<Rightarrow> 'd json_number sresult" where
  "number_value fl startOffset negative i i64 use64bit d useDouble p s =
     (if useDouble then
        (case StrtodNormalPrecision fl d p of None \<Rightarrow> SFault
         | Some d \<Rightarrow>
             if fl_too_big fl d then SError kParseErrorNumberTooBig startOffset
             else SDone (NDouble (if negative then fl_neg fl d else d)) s)
      else if use64bit then SDone (if negative then NInt64 (NOT i64 + 1) else NUint64 i64) s
      else SDone (if negative then NInt (NOT i + 1) else NUint i) s)"

text \<open>\<open>ParseNumber\<close> up to the call of the handler.\<close>

definition ParseNumber :: "'d floats \<Rightarrow> json_stream \<Rightarrow> 'd json_number sresult" where
  "ParseNumber fl s =
     (let startOffset = fst s in
      case Consume 0x2D s of (negative, s) \<Rightarrow>
      sbind (number_int negative s) (\<lambda>(i, i64, use64bit, significandDigit) s.
        case number_int64 negative i64 use64bit significandDigit s of (i64, useDouble, significandDigit, s) \<Rightarrow>
        case number_big fl i64 useDouble s of (d, s) \<Rightarrow>
        sbind (number_frac fl i i64 use64bit significandDigit d useDouble s) (\<lambda>(d, useDouble, expFrac) s.
        sbind (number_exp fl startOffset i i64 use64bit d useDouble expFrac s) (\<lambda>(d, useDouble, exp) s.
          number_value fl startOffset negative i i64 use64bit d useDouble (exp + expFrac) s))))"

subsection \<open>Values\<close>

text \<open>The calls of the handler, which returns whether to go on.\<close>

datatype (plugins only: code size) 'd reader_call =
    CNull | CBool bool | CNumber "'d json_number" | CString "byte list" | CStartObject | CKey "byte list" | CEndObject u32
  | CStartArray | CEndArray u32

type_synonym ('d, 'h) json_handler = "'d reader_call \<Rightarrow> 'h \<Rightarrow> bool \<times> 'h"

text \<open>A call whose refusal is \<open>kParseErrorTermination\<close> at \<open>off\<close>.\<close>

definition call :: "('d, 'h) json_handler \<Rightarrow> 'd reader_call \<Rightarrow> nat \<Rightarrow> json_stream \<Rightarrow> 'h \<Rightarrow> 'h presult" where
  "call h c off s st = (case h c st of (b, st) \<Rightarrow> if b then PDone s st else PError kParseErrorTermination off st)"

fun Consumes :: "byte list \<Rightarrow> json_stream \<Rightarrow> bool \<times> json_stream" where
  "Consumes [] s = (True, s)"
| "Consumes (c # cs) s = (case Consume c s of (b, s) \<Rightarrow> if b then Consumes cs s else (False, s))"

text \<open>\<open>ParseNull\<close>, \<open>ParseTrue\<close> and \<open>ParseFalse\<close> skip the first character and compare the others.\<close>

definition ParseLiteral :: "('d, 'h) json_handler \<Rightarrow> byte list \<Rightarrow> 'd reader_call \<Rightarrow> json_stream \<Rightarrow> 'h \<Rightarrow> 'h presult" where
  "ParseLiteral h others c s st =
     (case Consumes others (js_Take s) of (b, s) \<Rightarrow>
        if b then call h c (fst s) s st else PError kParseErrorValueInvalid (fst s) st)"

definition ParseNull :: "('d, 'h) json_handler \<Rightarrow> json_stream \<Rightarrow> 'h \<Rightarrow> 'h presult" where
  "ParseNull h = ParseLiteral h [0x75, 0x6C, 0x6C] CNull"
definition ParseTrue :: "('d, 'h) json_handler \<Rightarrow> json_stream \<Rightarrow> 'h \<Rightarrow> 'h presult" where
  "ParseTrue h = ParseLiteral h [0x72, 0x75, 0x65] (CBool True)"
definition ParseFalse :: "('d, 'h) json_handler \<Rightarrow> json_stream \<Rightarrow> 'h \<Rightarrow> 'h presult" where
  "ParseFalse h = ParseLiteral h [0x61, 0x6C, 0x73, 0x65] (CBool False)"

definition ParseString :: "('d, 'h) json_handler \<Rightarrow> bool \<Rightarrow> json_stream \<Rightarrow> 'h \<Rightarrow> 'h presult" where
  "ParseString h isKey s st =
     (case ParseStringToStream [] (js_Take s) of
        SDone str s \<Rightarrow> call h (if isKey then CKey str else CString str) (fst s) s st
      | SError e n \<Rightarrow> PError e n st | SFault \<Rightarrow> PFault)"

definition ParseNumberValue :: "'d floats \<Rightarrow> ('d, 'h) json_handler \<Rightarrow> json_stream \<Rightarrow> 'h \<Rightarrow> 'h presult" where
  "ParseNumberValue fl h s st =
     (case ParseNumber fl s of
        SDone x s' \<Rightarrow> call h (CNumber x) (fst s) s' st
      | SError e n \<Rightarrow> PError e n st | SFault \<Rightarrow> PFault)"

text \<open>The bodies of \<open>ParseValue\<close> and of the loops of \<open>ParseObject\<close> and \<open>ParseArray\<close>, over the functions they call.\<close>

type_synonym 'h parse_fn = "json_stream \<Rightarrow> 'h \<Rightarrow> 'h presult"

definition ParseObject :: "('d, 'h) json_handler \<Rightarrow> (u32 \<Rightarrow> 'h parse_fn) \<Rightarrow> 'h parse_fn" where
  "ParseObject h loop s st =
     (let s = js_Take s in
      pbind (call h CStartObject (fst s) s st) (\<lambda>s st.
        case Consume 0x7D (SkipWhitespace s) of (b, s) \<Rightarrow>
          if b then call h (CEndObject 0) (fst s) s st else loop 0 s st))"

definition object_member :: "('d, 'h) json_handler \<Rightarrow> 'h parse_fn \<Rightarrow> (u32 \<Rightarrow> 'h parse_fn) \<Rightarrow> u32 \<Rightarrow> 'h parse_fn" where
  "object_member h val loop memberCount s st =
     (if js_Peek s \<noteq> 0x22 then PError kParseErrorObjectMissName (fst s) st
      else pbind (ParseString h True s st) (\<lambda>s st.
        case Consume 0x3A (SkipWhitespace s) of (b, s) \<Rightarrow>
          if \<not> b then PError kParseErrorObjectMissColon (fst s) st
          else pbind (val (SkipWhitespace s) st) (\<lambda>s st.
            let s = SkipWhitespace s; memberCount = memberCount + 1 in
            if js_Peek s = 0x2C then loop memberCount (SkipWhitespace (js_Take s)) st
            else if js_Peek s = 0x7D then (let s = js_Take s in call h (CEndObject memberCount) (fst s) s st)
            else PError kParseErrorObjectMissCommaOrCurlyBracket (fst s) st)))"

definition ParseArray :: "('d, 'h) json_handler \<Rightarrow> (u32 \<Rightarrow> 'h parse_fn) \<Rightarrow> 'h parse_fn" where
  "ParseArray h loop s st =
     (let s = js_Take s in
      pbind (call h CStartArray (fst s) s st) (\<lambda>s st.
        case Consume 0x5D (SkipWhitespace s) of (b, s) \<Rightarrow>
          if b then call h (CEndArray 0) (fst s) s st else loop 0 s st))"

definition array_element :: "('d, 'h) json_handler \<Rightarrow> 'h parse_fn \<Rightarrow> (u32 \<Rightarrow> 'h parse_fn) \<Rightarrow> u32 \<Rightarrow> 'h parse_fn" where
  "array_element h val loop elementCount s st =
     pbind (val s st) (\<lambda>s st.
       let elementCount = elementCount + 1; s = SkipWhitespace s in
       case Consume 0x2C s of (b, s) \<Rightarrow>
         if b then loop elementCount (SkipWhitespace s) st
         else case Consume 0x5D s of (b, s) \<Rightarrow>
           if b then call h (CEndArray elementCount) (fst s) s st
           else PError kParseErrorArrayMissCommaOrSquareBracket (fst s) st)"

definition value_switch ::
    "'d floats \<Rightarrow> ('d, 'h) json_handler \<Rightarrow> (u32 \<Rightarrow> 'h parse_fn) \<Rightarrow> (u32 \<Rightarrow> 'h parse_fn) \<Rightarrow> 'h parse_fn" where
  "value_switch fl h members elements s st =
     (let c = js_Peek s in
      if c = 0x6E then ParseNull h s st
      else if c = 0x74 then ParseTrue h s st
      else if c = 0x66 then ParseFalse h s st
      else if c = 0x22 then ParseString h False s st
      else if c = 0x7B then ParseObject h members s st
      else if c = 0x5B then ParseArray h elements s st
      else ParseNumberValue fl h s st)"

text \<open>Values nest through the recursion of the code; \<open>PFuel\<close> is the result when the first argument is used up.\<close>

fun ParseValue :: "nat \<Rightarrow> 'd floats \<Rightarrow> ('d, 'h) json_handler \<Rightarrow> 'h parse_fn"
  and object_loop :: "nat \<Rightarrow> 'd floats \<Rightarrow> ('d, 'h) json_handler \<Rightarrow> u32 \<Rightarrow> 'h parse_fn"
  and array_loop :: "nat \<Rightarrow> 'd floats \<Rightarrow> ('d, 'h) json_handler \<Rightarrow> u32 \<Rightarrow> 'h parse_fn" where
  "ParseValue 0 fl h = (\<lambda>s st. PFuel)"
| "ParseValue (Suc n) fl h = value_switch fl h (object_loop n fl h) (array_loop n fl h)"
| "object_loop 0 fl h = (\<lambda>memberCount s st. PFuel)"
| "object_loop (Suc n) fl h = object_member h (ParseValue n fl h) (object_loop n fl h)"
| "array_loop 0 fl h = (\<lambda>elementCount s st. PFuel)"
| "array_loop (Suc n) fl h = array_element h (ParseValue n fl h) (array_loop n fl h)"

text \<open>\<open>Parse\<close>; the fuel is enough for every text (\<open>reader_returns\<close>).\<close>

definition Reader_Parse :: "'d floats \<Rightarrow> ('d, 'h) json_handler \<Rightarrow> byte list \<Rightarrow> 'h \<Rightarrow> 'h presult" where
  "Reader_Parse fl h str st =
     (let s = SkipWhitespace (0, c_str str) in
      if js_Peek s = 0 then PError kParseErrorDocumentEmpty (fst s) st
      else pbind (ParseValue (2 * length str + 1) fl h s st) (\<lambda>s st.
        let s = SkipWhitespace s in
        if js_Peek s \<noteq> 0 then PError kParseErrorDocumentRootNotSingular (fst s) st else PDone s st))"

end
