(* ===== verification/Json_Reader_Safe.thy ===== *)
theory Json_Reader_Safe imports Json_Reader begin

text \<open>
  What the reader of \<^verbatim>\<open>Json_Reader\<close> does on every text: it ends, fails no assertion, and when it succeeds the handler
  has been called with exactly the calls of one value.
\<close>

subsection \<open>Every part consumes\<close>

abbreviation remaining :: "json_stream \<Rightarrow> nat" where "remaining s \<equiv> length (snd s)"

lemma Peek_Take: "js_Peek s \<noteq> 0 \<Longrightarrow> remaining (js_Take s) < remaining s"
  by (cases "snd s") (simp_all add: js_Peek_def js_Take_def)

lemma Take_le: "remaining (js_Take s) \<le> remaining s"
  by (simp add: js_Take_def)

lemma Consume_True: "Consume c s = (True, s') \<Longrightarrow> c \<noteq> 0 \<Longrightarrow> remaining s' < remaining s"
  by (auto simp: Consume_def Peek_Take split: if_splits)

lemma Consume_le: "Consume c s = (b, s') \<Longrightarrow> remaining s' \<le> remaining s"
  using Take_le [of s] by (auto simp: Consume_def split: if_splits)

lemma SkipWhitespace_le: "remaining (SkipWhitespace s) \<le> remaining s"
  by (induction s rule: SkipWhitespace.induct) auto

lemma Consumes_le: "Consumes cs s = (b, s') \<Longrightarrow> remaining s' \<le> remaining s"
proof (induction cs arbitrary: s)
  case (Cons c cs)
  obtain b1 s1 where "Consume c s = (b1, s1)" by (cases "Consume c s")
  then show ?case using Cons.IH [of s1] Cons.prems Consume_le [of c s b1 s1] by (cases b1) auto
qed simp

text \<open>The four ways through the loop.\<close>

lemma ParseStringToStream_step:
  assumes "ParseStringToStream out s = SDone str s'"
  obtains (quote) "js_Peek s = 0x22" "str = out" "s' = js_Take s"
    | (char) "js_Peek s \<ge> 0x20" "js_Peek s \<noteq> 0x22" "js_Peek s \<noteq> 0x5C" "ParseStringToStream (out @ [js_Peek s]) (js_Take s) = SDone str s'"
    | (escape) e where "js_Peek s = 0x5C" "ParseStringToStream (out @ [e]) (js_Take (js_Take s)) = SDone str s'"
    | (unicode) cp s2 bs where "js_Peek s = 0x5C" "ParseUnicode (fst s) (js_Take (js_Take s)) = SDone cp s2"
        "utf8_Encode cp = Some bs" "ParseStringToStream (out @ bs) s2 = SDone str s'"
proof -
  note e = assms [unfolded ParseStringToStream.simps [of out s] Let_def]
  let ?e = "js_Peek (js_Take s)"
  consider (a) "js_Peek s = 0x22" | (b) "js_Peek s < 0x20" | (c) "js_Peek s \<ge> 0x20" "js_Peek s \<noteq> 0x22" "js_Peek s \<noteq> 0x5C"
    | (d) "js_Peek s = 0x5C" "read_escape ! unat ?e \<noteq> 0" | (f) "js_Peek s = 0x5C" "read_escape ! unat ?e = 0"
    by (meson not_less)
  then show ?thesis
  proof cases
    case a
    then show ?thesis using e quote by simp
  next
    case b
    then show ?thesis using e by (simp split: if_splits)
  next
    case c
    then show ?thesis using e char by (simp split: if_splits)
  next
    case d
    then show ?thesis using e escape by simp
  next
    case f
    then have "(case ParseUnicode (fst s) (js_Take (js_Take s)) of SDone cp s2 \<Rightarrow>
          (case utf8_Encode cp of None \<Rightarrow> SFault | Some bs \<Rightarrow> ParseStringToStream (out @ bs) s2)
        | SError e n \<Rightarrow> SError e n | SFault \<Rightarrow> SFault) = SDone str s'"
      using e by (simp split: if_splits)
    then show ?thesis using unicode f(1) by (cases "ParseUnicode (fst s) (js_Take (js_Take s))") (auto split: option.splits)
  qed
qed

lemma ParseStringToStream_less: "ParseStringToStream out s = SDone str s' \<Longrightarrow> remaining s' < remaining s"
proof (induction "remaining s" arbitrary: out s rule: less_induct)
  case less
  have go: "remaining s' < remaining s" if "ParseStringToStream out2 s2 = SDone str s'" "remaining s2 < remaining s" for out2 s2
    using less.hyps [OF that(2) that(1)] that(2) by simp
  from less.prems show ?case
  proof (cases rule: ParseStringToStream_step)
    case quote
    then show ?thesis using Peek_Take [of s] by simp
  next
    case char
    then have "js_Peek s \<noteq> 0" by auto
    then show ?thesis using go [OF char(4)] Peek_Take by blast
  next
    case (escape e)
    then show ?thesis using go [OF escape(2)] Peek_Take [of s] Take_le [of "js_Take s"] by simp
  next
    case (unicode cp s2 bs)
    then show ?thesis using go [OF unicode(4)] ParseUnicode_rest [OF unicode(2)] Peek_Take [of s] Take_le [of "js_Take s"] by simp
  qed
qed

lemma int_digits_le: "int_digits lim lst i sig s = (i', b, sig', s') \<Longrightarrow> remaining s' \<le> remaining s"
  by (induction lim lst i sig s rule: int_digits.induct) (auto split: if_splits)

lemma big_digits_le: "big_digits fl d s = (d', s') \<Longrightarrow> remaining s' \<le> remaining s"
  by (induction fl d s rule: big_digits.induct) (auto split: if_splits)

lemma frac_digits64_le: "frac_digits64 i ef sig s = (i', ef', sig', s') \<Longrightarrow> remaining s' \<le> remaining s \<and> ef' \<le> ef"
  by (induction i ef sig s rule: frac_digits64.induct) (auto simp: Let_def split: if_splits)

lemma frac_digits_le: "frac_digits fl d ef sig s = (d', ef', s') \<Longrightarrow> remaining s' \<le> remaining s \<and> ef' \<le> ef"
  by (induction fl d ef sig s rule: frac_digits.induct) (auto simp: Let_def split: if_splits)

lemma skip_digits_le: "remaining (skip_digits s) \<le> remaining s"
  by (induction s rule: skip_digits.induct) auto

lemma exp_digits_minus_le:
  "exp_digits_minus m e s = (e', s') \<Longrightarrow> 0 \<le> e \<Longrightarrow> remaining s' \<le> remaining s \<and> 0 \<le> e'"
proof (induction m e s rule: exp_digits_minus.induct)
  case (2 m e p c cs)
  have u: "0 \<le> e * 10 + uint (digit_of c :: u32)" using 2(3) by simp
  show ?case
  proof (cases "is_digit c \<and> e * 10 + uint (digit_of c :: u32) \<le> m")
    case True
    then show ?thesis using 2(1) [OF _ refl _ _ u] 2(2) by (auto simp: Let_def)
  next
    case False
    then show ?thesis using 2(2,3) u skip_digits_le [of "(p + 1, cs)"] by (auto simp: Let_def split: if_splits)
  qed
qed auto

lemma exp_digits_plus_le:
  "exp_digits_plus m e s = Some (e', s') \<Longrightarrow> 0 \<le> e \<Longrightarrow> e \<le> m \<Longrightarrow> remaining s' \<le> remaining s \<and> 0 \<le> e' \<and> e' \<le> m"
proof (induction m e s rule: exp_digits_plus.induct)
  case (2 m e p c cs)
  have u: "0 \<le> e * 10 + uint (digit_of c :: u32)" using 2(3) by simp
  show ?case
  proof (cases "is_digit c \<and> e * 10 + uint (digit_of c :: u32) \<le> m")
    case True
    then show ?thesis using 2(1) [OF _ refl _ _ u] 2(2) by (auto simp: Let_def)
  next
    case False
    then show ?thesis using 2(2,3,4) u by (auto simp: Let_def split: if_splits)
  qed
qed auto

lemma number_int_less: "number_int neg s = SDone x s' \<Longrightarrow> remaining s' < remaining s"
proof -
  assume a: "number_int neg s = SDone x s'"
  then have "js_Peek s \<noteq> 0" by (auto simp: number_int_def Let_def split: if_splits)
  then have "remaining (js_Take s) < remaining s" by (rule Peek_Take)
  moreover have "remaining s' \<le> remaining (js_Take s)"
    using a by (auto simp: number_int_def Let_def split: if_splits prod.splits dest!: int_digits_le)
  ultimately show ?thesis by simp
qed

lemma number_frac_le:
  assumes "number_frac fl i i64 b sig d ud s = SDone (d', ud', ef) s'"
  shows "remaining s' \<le> remaining s" "ef \<le> 0"
  using assms by (auto simp: number_frac_def split: if_splits prod.splits dest!: Consume_le frac_digits64_le frac_digits_le)

lemma digit_bound: "is_digit c \<Longrightarrow> uint (digit_of c :: u32) \<le> 9"
proof -
  assume d: "is_digit c"
  then have "uint (c - 0x30) = uint c - 0x30" by (simp add: is_digit_def uint_sub_lem [THEN iffD1] word_le_def)
  then show ?thesis using d by (simp add: digit_of_def is_digit_def word_le_def unsigned_ucast_eq take_bit_int_eq_self)
qed

lemma number_exp_le:
  assumes "number_exp fl off i i64 b d ud ef s = SDone (d', ud', e) s'" and "ef \<le> 0"
  shows "remaining s' \<le> remaining s \<and> e + ef \<le> 308"
proof (cases "js_Peek s = 0x65 \<or> js_Peek s = 0x45")
  case True
  define s1 where "s1 = (if js_Peek (js_Take s) = 0x2B \<or> js_Peek (js_Take s) = 0x2D then js_Take (js_Take s) else js_Take s)"
  have s1: "remaining (js_Take s1) \<le> remaining s"
    using Take_le [of s] Take_le [of "js_Take s"] Take_le [of s1] by (auto simp: s1_def)
  define x where "x = uint (digit_of (js_Peek s1) :: u32)"
  have dig: "is_digit (js_Peek s1)"
    using assms(1) True unfolding number_exp_def Let_def s1_def [symmetric] by (auto split: if_splits)
  then have x: "0 \<le> x" "x \<le> 9" using digit_bound by (simp_all add: x_def)
  show ?thesis
  proof (cases "js_Peek (js_Take s) = 0x2D")
    case minus: True
    then obtain e1 where "exp_digits_minus ((ef + 2147483639) div 10) x (js_Take s1) = (e1, s')" "e = - e1"
      using assms(1) True dig unfolding number_exp_def Let_def s1_def [symmetric] x_def [symmetric] by (auto split: prod.splits)
    then show ?thesis using exp_digits_minus_le [OF _ x(1)] s1 assms(2) by fastforce
  next
    case False
    then obtain e1 where "exp_digits_plus (308 - ef) x (js_Take s1) = Some (e1, s')" "e = e1"
      using assms(1) True dig unfolding number_exp_def Let_def s1_def [symmetric] x_def [symmetric]
      by (auto split: prod.splits option.splits)
    then show ?thesis using exp_digits_plus_le [OF _ x(1)] x(2) s1 assms(2) by fastforce
  qed
qed (use assms in \<open>simp add: number_exp_def\<close>)

text \<open>No number indexes outside of the table of \<open>Pow10\<close>.\<close>

lemma StrtodNormalPrecision_Some: "p \<le> 308 \<Longrightarrow> StrtodNormalPrecision fl d p \<noteq> None"
  by (auto simp: StrtodNormalPrecision_def FastPath_def Pow10_def)

lemma number_no_fault:
  "number_int neg s \<noteq> SFault" "number_frac fl i i64 b sig d ud s \<noteq> SFault" "number_exp fl off i i64 b d ud ef s \<noteq> SFault"
  by (auto simp: number_int_def number_frac_def number_exp_def Let_def split: prod.splits option.splits)

lemma number_value_ok:
  "p \<le> 308 \<Longrightarrow> number_value fl off neg i i64 b d ud p s \<noteq> SFault"
  "number_value fl off neg i i64 b d ud p s = SDone x s' \<Longrightarrow> s' = s"
  using StrtodNormalPrecision_Some [of p fl d] by (auto simp: number_value_def split: option.splits if_splits)

lemma number_int64_le: "number_int64 neg i64 b sig s = (i64', ud, sig', s') \<Longrightarrow> remaining s' \<le> remaining s"
  by (auto simp: number_int64_def split: if_splits dest!: int_digits_le)

lemma number_big_le: "number_big fl i64 ud s = (d, s') \<Longrightarrow> remaining s' \<le> remaining s"
  by (auto simp: number_big_def split: if_splits dest!: big_digits_le)

text \<open>The stages of a number: integer part, 64-bit digits, digits of a big integer, fraction, exponent, value.\<close>

lemma ParseNumber_stages:
  obtains (error) e n where "ParseNumber fl s = SError e n"
    | (number) neg s0 i i64 b sig s1 i64' ud sig' s2 d s3 d2 ud2 ef s4 d3 ud3 e s5 where
        "Consume 0x2D s = (neg, s0)" "number_int neg s0 = SDone (i, i64, b, sig) s1"
        "number_int64 neg i64 b sig s1 = (i64', ud, sig', s2)" "number_big fl i64' ud s2 = (d, s3)"
        "number_frac fl i i64' b sig' d ud s3 = SDone (d2, ud2, ef) s4"
        "number_exp fl (fst s) i i64' b d2 ud2 ef s4 = SDone (d3, ud3, e) s5"
        "ParseNumber fl s = number_value fl (fst s) neg i i64' b d3 ud3 (e + ef) s5" "e + ef \<le> 308"
proof -
  obtain neg s0 where c: "Consume 0x2D s = (neg, s0)" by (cases "Consume 0x2D s")
  show ?thesis
  proof (cases "number_int neg s0")
    case (SError e n)
    then show ?thesis using error [of e n] by (simp add: ParseNumber_def c)
  next
    case int: (SDone y s1)
    obtain i i64 b sig where y: "y = (i, i64, b, sig)" by (cases y)
    obtain i64' ud sig' s2 where q: "number_int64 neg i64 b sig s1 = (i64', ud, sig', s2)" by (rule prod_cases4)
    obtain d s3 where d: "number_big fl i64' ud s2 = (d, s3)" by (rule prod.exhaust)
    show ?thesis
    proof (cases "number_frac fl i i64' b sig' d ud s3")
      case (SError e n)
      then show ?thesis using error [of e n] by (simp add: ParseNumber_def c int y q d)
    next
      case frac: (SDone z s4)
      obtain d2 ud2 ef where z: "z = (d2, ud2, ef)" by (cases z)
      show ?thesis
      proof (cases "number_exp fl (fst s) i i64' b d2 ud2 ef s4")
        case (SError e n)
        then show ?thesis using error [of e n] by (simp add: ParseNumber_def c int y q d frac z)
      next
        case exp: (SDone v s5)
        obtain d3 ud3 e where v: "v = (d3, ud3, e)" by (cases v)
        have "ParseNumber fl s = number_value fl (fst s) neg i i64' b d3 ud3 (e + ef) s5"
          by (simp add: ParseNumber_def c int y q d frac z exp v)
        moreover have "e + ef \<le> 308"
          using number_exp_le [OF exp [unfolded v]] number_frac_le(2) [OF frac [unfolded z]] by blast
        ultimately show ?thesis
          using number [OF c int [unfolded y] q d frac [unfolded z] exp [unfolded v]] by blast
      qed (simp add: number_no_fault)
    qed (simp add: number_no_fault)
  qed (simp add: number_no_fault)
qed

lemma ParseNumber_ok: "ParseNumber fl s \<noteq> SFault" "ParseNumber fl s = SDone x s' \<Longrightarrow> remaining s' < remaining s"
proof -
  show "ParseNumber fl s \<noteq> SFault"
  proof (cases rule: ParseNumber_stages [of fl s])
    case (number neg s0 i i64 b sig s1 i64' ud sig' s2 d s3 d2 ud2 ef s4 d3 ud3 e s5)
    then show ?thesis using number_value_ok(1) by metis
  qed simp
  show "remaining s' < remaining s" if "ParseNumber fl s = SDone x s'"
  proof (cases rule: ParseNumber_stages [of fl s])
    case (number neg s0 i i64 b sig s1 i64' ud sig' s2 d s3 d2 ud2 ef s4 d3 ud3 e s5)
    have "s' = s5" using number(7) that number_value_ok(2) by metis
    moreover have "remaining s4 \<le> remaining s3" "remaining s5 \<le> remaining s4"
      using number_frac_le [OF number(5)] number_exp_le [OF number(6)] by simp_all
    ultimately show ?thesis
      using Consume_le [OF number(1)] number_int_less [OF number(2)] number_int64_le [OF number(3)] number_big_le [OF number(4)] by simp
  qed (use that in simp)
qed

subsection \<open>Strings fail no assertion\<close>

lemma hex_digit_step:
  fixes cp d :: u32
  assumes "unat d < 16" and "(unat cp + 1) * 16 \<le> 2 ^ 32"
  shows "unat (push_bit 4 cp + d) = 16 * unat cp + unat d"
proof -
  have "unat (push_bit 4 cp) = unat cp * 2 ^ 4" using assms(2) by (intro unat_push_bit) simp
  then show ?thesis using assms by (subst unat_add_small) simp_all
qed

lemma uint_byte_u32: "uint (ucast (c :: byte) :: u32) = uint c"
  by (simp add: unsigned_ucast_eq take_bit_int_eq_self order_less_trans [OF unsigned_less])

lemma hex_digit_value:
  fixes c :: byte and k :: u32
  assumes "uint k \<le> uint c" and "uint c - uint k < 16"
  shows "unat (ucast c - k) < 16"
proof -
  have "uint (ucast c - k) = uint c - uint k" using assms(1) uint_byte_u32 [of c] by (simp add: uint_sub_lem [THEN iffD1])
  then have "unat (ucast c - k) = nat (uint c - uint k)" by (simp only: unat_eq_nat_uint)
  then show ?thesis using assms(2) by simp
qed

lemma ParseHex4_bound:
  "ParseHex4 n cp off s = SDone cp' s' \<Longrightarrow> (unat cp + 1) * 16 ^ n \<le> 2 ^ 32 \<Longrightarrow> unat cp' < (unat cp + 1) * 16 ^ n"
proof (induction n arbitrary: cp s)
  case (Suc n)
  have step: "unat cp' < (unat cp + 1) * 16 ^ Suc n"
    if "unat d < 16" "ParseHex4 n (push_bit 4 cp + d) off (js_Take s) = SDone cp' s'" for d :: u32
  proof -
    have "(unat cp + 1) * 16 \<le> (unat cp + 1) * 16 ^ Suc n" by (intro mult_le_mono2) simp
    then have u: "unat (push_bit 4 cp + d) = 16 * unat cp + unat d"
      using Suc.prems(2) that(1) by (intro hex_digit_step) simp_all
    have "(16 * unat cp + unat d + 1) * 16 ^ n \<le> ((unat cp + 1) * 16) * 16 ^ n" using that(1) by (intro mult_le_mono1) simp
    then have le: "(16 * unat cp + unat d + 1) * 16 ^ n \<le> (unat cp + 1) * 16 ^ Suc n" by (simp only: mult.assoc power_Suc)
    then have "unat cp' < (unat (push_bit 4 cp + d) + 1) * 16 ^ n"
      using Suc.IH [OF that(2)] Suc.prems(2) le unfolding u by linarith
    then show ?thesis using le unfolding u by linarith
  qed
  let ?c = "js_Peek s"
  have a: "unat (ucast ?c - 0x30 :: u32) < 16" if "0x30 \<le> ?c" "?c \<le> 0x39"
    using that by (intro hex_digit_value) (simp_all add: word_le_def)
  have b: "unat (ucast ?c - (0x41 - 10) :: u32) < 16" if "0x41 \<le> ?c" "?c \<le> 0x46"
    using that by (intro hex_digit_value) (simp_all add: word_le_def)
  have c: "unat (ucast ?c - (0x61 - 10) :: u32) < 16" if "0x61 \<le> ?c" "?c \<le> 0x66"
    using that by (intro hex_digit_value) (simp_all add: word_le_def)
  have r: "push_bit 4 cp + ucast ?c - k = push_bit 4 cp + (ucast ?c - k :: u32)" for k by simp
  show ?case using Suc.prems(1) unfolding ParseHex4.simps Let_def r
    using step a b c by (auto split: if_splits simp del: push_bit_numeral_minus_1)
qed simp

text \<open>A code point that is encoded is at most 0x10FFFF.\<close>

lemma surrogate_bound:
  fixes a b :: u32
  assumes "0xD800 \<le> a" "a \<le> 0xDBFF" "0xDC00 \<le> b" "b \<le> 0xDFFF"
  shows "(push_bit 10 (a - 0xD800) OR (b - 0xDC00)) + 0x10000 \<le> 0x10FFFF"
proof -
  have a: "uint (a - 0xD800) = uint a - 0xD800" and b: "uint (b - 0xDC00) = uint b - 0xDC00"
    using assms by (simp_all add: word_le_def uint_sub_lem [THEN iffD1])
  have la: "uint (a - 0xD800) < 2 ^ 10" and lb: "uint (b - 0xDC00) < 2 ^ 10" unfolding a b using assms by (simp_all add: word_le_def)
  have "uint (push_bit 10 x) = uint x * 2 ^ 10" if "uint x < 2 ^ 10" for x :: u32
    unfolding unsigned_push_bit_eq unfolding push_bit_eq_mult by (rule take_bit_int_eq_self) (use that in simp_all)
  from this [OF la] have "uint (push_bit 10 (a - 0xD800)) < 2 ^ 20" using la by simp
  moreover have "uint (b - 0xDC00) < 2 ^ 20" using lb by simp
  ultimately have o: "uint (push_bit 10 (a - 0xD800) OR (b - 0xDC00)) < 2 ^ 20"
    unfolding unsigned_or_eq by (intro OR_upper) simp_all
  let ?w = "push_bit 10 (a - 0xD800) OR (b - 0xDC00)"
  have "uint (?w + 0x10000) = uint ?w + 0x10000" using o by (simp add: uint_add_lem [THEN iffD1])
  then show ?thesis using o by (simp add: word_le_def)
qed

lemma ParseHex4_bmp: "ParseHex4 4 0 off s = SDone c t \<Longrightarrow> c \<le> 0xFFFF"
  using ParseHex4_bound [of 4 0 off s c t] by (simp add: word_le_nat_alt)

lemma low_surrogate_bound:
  assumes "low_surrogate off c s = SDone cp s'" and "0xD800 \<le> c" "c \<le> 0xDBFF"
  shows "cp \<le> 0x10FFFF"
proof (rule sbind_SDoneE [OF assms(1) [unfolded low_surrogate_def]])
  fix c2 t
  assume a: "(if c2 < 0xDC00 \<or> c2 > 0xDFFF then SError kParseErrorStringUnicodeSurrogateInvalid off
      else SDone ((push_bit 10 (c - 0xD800) OR (c2 - 0xDC00)) + 0x10000) t) = SDone cp s'"
  then have c2: "0xDC00 \<le> c2" "c2 \<le> 0xDFFF" by (simp_all add: not_less split: if_splits)
  then have "cp = (push_bit 10 (c - 0xD800) OR (c2 - 0xDC00)) + 0x10000" using a by (simp only: not_less [symmetric] simp_thms if_False sresult.inject)
  then show ?thesis using surrogate_bound [OF assms(2,3) c2] by (simp only:)
qed

lemma ParseUnicode_bound:
  assumes "ParseUnicode off s = SDone cp s'"
  shows "cp \<le> 0x10FFFF"
proof (rule sbind_SDoneE [OF assms [unfolded ParseUnicode_def]])
  fix c t
  assume c: "ParseHex4 4 0 off s = SDone c t"
    and r: "(if c \<ge> 0xD800 \<and> c \<le> 0xDFFF then
         if c \<le> 0xDBFF then
           (case Consume 0x5C t of (b, s) \<Rightarrow>
              if \<not> b then SError kParseErrorStringUnicodeSurrogateInvalid off
              else case Consume 0x75 s of (b, s) \<Rightarrow>
                if \<not> b then SError kParseErrorStringUnicodeSurrogateInvalid off else low_surrogate off c s)
         else SError kParseErrorStringUnicodeSurrogateInvalid off
       else SDone c t) = SDone cp s'"
  show ?thesis
  proof (cases "c \<ge> 0xD800 \<and> c \<le> 0xDFFF")
    case True
    obtain b1 s1 where 1: "Consume 0x5C t = (b1, s1)" by (rule prod.exhaust)
    obtain b2 s2 where 2: "Consume 0x75 s1 = (b2, s2)" by (rule prod.exhaust)
    have "c \<le> 0xDBFF \<and> low_surrogate off c s2 = SDone cp s'"
      using r True unfolding 1 2 prod.case by (cases "c \<le> 0xDBFF"; cases b1; cases b2) simp_all
    then show ?thesis using low_surrogate_bound True by blast
  next
    case False
    then have "cp = c" using r by (simp only: if_False sresult.inject)
    then show ?thesis using order_trans [OF ParseHex4_bmp [OF c], of "0x10FFFF"] by simp
  qed
qed

lemma ParseHex4_no_fault: "ParseHex4 n cp off s \<noteq> SFault"
  by (induction n arbitrary: cp s) (simp_all add: Let_def)

lemma low_surrogate_no_fault: "low_surrogate off c s \<noteq> SFault"
  unfolding low_surrogate_def using ParseHex4_no_fault by (cases "ParseHex4 4 0 off s") auto

lemma ParseUnicode_no_fault: "ParseUnicode off s \<noteq> SFault"
  unfolding ParseUnicode_def using ParseHex4_no_fault low_surrogate_no_fault
  by (cases "ParseHex4 4 0 off s") (auto split: prod.splits)

lemma utf8_Encode_Some: "cp \<le> 0x10FFFF \<Longrightarrow> utf8_Encode cp \<noteq> None"
  by (simp add: utf8_Encode_def)

lemma ParseStringToStream_no_fault: "ParseStringToStream out s \<noteq> SFault"
proof (induction "remaining s" arbitrary: out s rule: less_induct)
  case less
  note IH = less.hyps
  have t: "remaining (js_Take (js_Take s)) < remaining s" if "js_Peek s = 0x5C"
    using Peek_Take [of s] Take_le [of "js_Take s"] that by simp
  show ?case
  proof (cases "js_Peek s = 0x5C")
    case True
    let ?u = "ParseUnicode (fst s) (js_Take (js_Take s))"
    have u: "(case ?u of SDone cp s2 \<Rightarrow> (case utf8_Encode cp of None \<Rightarrow> SFault | Some bs \<Rightarrow> ParseStringToStream (out @ bs) s2)
        | SError e n \<Rightarrow> SError e n | SFault \<Rightarrow> SFault) \<noteq> SFault"
    proof (cases ?u)
      case (SDone cp s2)
      then have "remaining s2 < remaining s" using ParseUnicode_rest [OF SDone] t True by simp
      then show ?thesis using IH SDone utf8_Encode_Some [OF ParseUnicode_bound [OF SDone]] by (auto split: option.splits)
    qed (simp_all add: ParseUnicode_no_fault)
    show ?thesis using True t IH u by (subst ParseStringToStream.simps) (simp add: Let_def)
  next
    case False
    have "remaining (js_Take s) < remaining s" if "\<not> js_Peek s < 0x20"
      using that by (intro Peek_Take) auto
    then show ?thesis using False IH by (subst ParseStringToStream.simps) (simp add: Let_def)
  qed
qed

subsection \<open>Values and their calls\<close>

datatype (plugins only: code size) 'd json_value =
    VNull | VBool bool | VNumber "'d json_number" | VString "byte list"
  | VArray "'d json_value list" | VObject "(byte list \<times> 'd json_value) list"

fun calls :: "'d json_value \<Rightarrow> 'd reader_call list" where
  "calls VNull = [CNull]"
| "calls (VBool b) = [CBool b]"
| "calls (VNumber x) = [CNumber x]"
| "calls (VString s) = [CString s]"
| "calls (VArray vs) = CStartArray # concat (map calls vs) @ [CEndArray (of_nat (length vs))]"
| "calls (VObject kvs) = CStartObject # concat (map (\<lambda>(k, v). CKey k # calls v) kvs) @ [CEndObject (of_nat (length kvs))]"

text \<open>The handler called with a sequence of calls, none of which it refuses.\<close>

fun feed :: "('d, 'h) json_handler \<Rightarrow> 'd reader_call list \<Rightarrow> 'h \<Rightarrow> 'h option" where
  "feed h [] st = Some st"
| "feed h (c # cs) st = (case h c st of (b, st) \<Rightarrow> if b then feed h cs st else None)"

lemma feed_append: "feed h (cs @ ds) st = (case feed h cs st of None \<Rightarrow> None | Some st \<Rightarrow> feed h ds st)"
  by (induction cs arbitrary: st) (auto split: prod.splits)

lemma call_PDone [simp]: "call h c off s st = PDone s' st' \<longleftrightarrow> h c st = (True, st') \<and> s' = s"
  by (auto simp: call_def split: prod.splits if_splits)

lemma call_total [simp]: "call h c off s st \<noteq> PFuel" "call h c off s st \<noteq> PFault"
  by (auto simp: call_def split: prod.splits)

text \<open>What the parsing functions promise: they consume, and the handler has been called with the calls of a value, or of the rest
  of an object or array.\<close>

definition parses :: "('d, 'h) json_handler \<Rightarrow> 'h parse_fn \<Rightarrow> bool" where
  "parses h f \<longleftrightarrow> (\<forall>s st s' st'. f s st = PDone s' st' \<longrightarrow>
     remaining s' < remaining s \<and> (\<exists>v. feed h (calls v) st = Some st'))"

definition parses_members :: "('d, 'h) json_handler \<Rightarrow> (u32 \<Rightarrow> 'h parse_fn) \<Rightarrow> bool" where
  "parses_members h f \<longleftrightarrow> (\<forall>n s st s' st'. f n s st = PDone s' st' \<longrightarrow> remaining s' < remaining s \<and>
     (\<exists>kvs. feed h (concat (map (\<lambda>(k, v). CKey k # calls v) kvs) @ [CEndObject (n + of_nat (length kvs))]) st = Some st'))"

definition parses_elements :: "('d, 'h) json_handler \<Rightarrow> (u32 \<Rightarrow> 'h parse_fn) \<Rightarrow> bool" where
  "parses_elements h f \<longleftrightarrow> (\<forall>n s st s' st'. f n s st = PDone s' st' \<longrightarrow> remaining s' < remaining s \<and>
     (\<exists>vs. feed h (concat (map calls vs) @ [CEndArray (n + of_nat (length vs))]) st = Some st'))"

lemma ParseLiteral_parses:
  assumes "ParseLiteral h cs c s st = PDone s' st'" and "js_Peek s \<noteq> 0"
  shows "remaining s' < remaining s" "h c st = (True, st')"
proof -
  obtain b s1 where "Consumes cs (js_Take s) = (b, s1)" by (rule prod.exhaust)
  then show "remaining s' < remaining s" "h c st = (True, st')"
    using assms Consumes_le [of cs "js_Take s" b s1] Peek_Take [OF assms(2)] by (auto simp: ParseLiteral_def split: if_splits)
qed

lemma ParseString_parses:
  assumes "ParseString h isKey s st = PDone s' st'"
  shows "remaining s' < remaining s" "\<exists>str. h (if isKey then CKey str else CString str) st = (True, st')"
proof -
  obtain str s1 where s1: "ParseStringToStream [] (js_Take s) = SDone str s1"
    using assms by (cases "ParseStringToStream [] (js_Take s)") (simp_all add: ParseString_def)
  then have "s' = s1" "h (if isKey then CKey str else CString str) st = (True, st')" using assms by (simp_all add: ParseString_def)
  then show "remaining s' < remaining s" "\<exists>str. h (if isKey then CKey str else CString str) st = (True, st')"
    using ParseStringToStream_less [OF s1] Take_le [of s] by auto
qed

lemma ParseNumberValue_parses:
  assumes "ParseNumberValue fl h s st = PDone s' st'"
  shows "remaining s' < remaining s" "\<exists>x. h (CNumber x) st = (True, st')"
proof -
  obtain x s1 where s1: "ParseNumber fl s = SDone x s1"
    using assms by (cases "ParseNumber fl s") (simp_all add: ParseNumberValue_def)
  then show "remaining s' < remaining s" "\<exists>x. h (CNumber x) st = (True, st')"
    using assms ParseNumber_ok(2) [OF s1] by (auto simp: ParseNumberValue_def)
qed

lemma ParseArray_parses:
  assumes "parses_elements h loop" and "ParseArray h loop s st = PDone s' st'" and "js_Peek s \<noteq> 0"
  shows "remaining s' < remaining s \<and> (\<exists>v. feed h (calls v) st = Some st')"
proof -
  obtain st1 where h: "h CStartArray st = (True, st1)" using assms(2) by (auto simp: ParseArray_def Let_def elim!: pbind_PDoneE)
  obtain b s1 where c: "Consume 0x5D (SkipWhitespace (js_Take s)) = (b, s1)" by (rule prod.exhaust)
  have l: "remaining s1 < remaining s"
    using Consume_le [OF c] SkipWhitespace_le [of "js_Take s"] Peek_Take [OF assms(3)] by simp
  have r: "(if b then call h (CEndArray 0) (fst s1) s1 st1 else loop 0 s1 st1) = PDone s' st'"
    using assms(2) by (simp add: ParseArray_def Let_def h c)
  show ?thesis
  proof (cases b)
    case True
    then have "feed h (calls (VArray [])) st = Some st'" "s' = s1" using r h by simp_all
    then show ?thesis using l by blast
  next
    case False
    then obtain vs where "remaining s' < remaining s1" "feed h (concat (map calls vs) @ [CEndArray (of_nat (length vs))]) st1 = Some st'"
      using r assms(1) unfolding parses_elements_def by fastforce
    then have "remaining s' < remaining s" "feed h (calls (VArray vs)) st = Some st'" using l h by simp_all
    then show ?thesis by blast
  qed
qed

lemma ParseObject_parses:
  assumes "parses_members h loop" and "ParseObject h loop s st = PDone s' st'" and "js_Peek s \<noteq> 0"
  shows "remaining s' < remaining s \<and> (\<exists>v. feed h (calls v) st = Some st')"
proof -
  obtain st1 where h: "h CStartObject st = (True, st1)" using assms(2) by (auto simp: ParseObject_def Let_def elim!: pbind_PDoneE)
  obtain b s1 where c: "Consume 0x7D (SkipWhitespace (js_Take s)) = (b, s1)" by (rule prod.exhaust)
  have l: "remaining s1 < remaining s"
    using Consume_le [OF c] SkipWhitespace_le [of "js_Take s"] Peek_Take [OF assms(3)] by simp
  have r: "(if b then call h (CEndObject 0) (fst s1) s1 st1 else loop 0 s1 st1) = PDone s' st'"
    using assms(2) by (simp add: ParseObject_def Let_def h c)
  show ?thesis
  proof (cases b)
    case True
    then have "feed h (calls (VObject [])) st = Some st'" "s' = s1" using r h by simp_all
    then show ?thesis using l by blast
  next
    case False
    then obtain kvs where "remaining s' < remaining s1"
      "feed h (concat (map (\<lambda>(k, v). CKey k # calls v) kvs) @ [CEndObject (of_nat (length kvs))]) st1 = Some st'"
      using r assms(1) unfolding parses_members_def by fastforce
    then have "remaining s' < remaining s" "feed h (calls (VObject kvs)) st = Some st'" using l h by simp_all
    then show ?thesis by blast
  qed
qed

lemma array_element_parses:
  assumes "parses h val" and "parses_elements h loop"
  shows "parses_elements h (array_element h val loop)"
  unfolding parses_elements_def
proof (intro allI impI)
  fix n s st s' st'
  assume p: "array_element h val loop n s st = PDone s' st'"
  then obtain s1 st1 where v: "val s st = PDone s1 st1" by (auto simp: array_element_def elim!: pbind_PDoneE)
  obtain x where x: "remaining s1 < remaining s" "feed h (calls x) st = Some st1" using assms(1) v unfolding parses_def by blast
  obtain b s2 where b: "Consume 0x2C (SkipWhitespace s1) = (b, s2)" by (rule prod.exhaust)
  obtain d s3 where d: "Consume 0x5D s2 = (d, s3)" by (rule prod.exhaust)
  have l: "remaining s2 \<le> remaining s1" "remaining s3 \<le> remaining s2"
    using Consume_le [OF b] Consume_le [OF d] SkipWhitespace_le [of s1] by simp_all
  have r: "(if b then loop (n + 1) (SkipWhitespace s2) st1
      else if d then call h (CEndArray (n + 1)) (fst s3) s3 st1
      else PError kParseErrorArrayMissCommaOrSquareBracket (fst s3) st1) = PDone s' st'"
    using p by (cases b; cases d) (simp_all add: array_element_def Let_def v b d)
  show "remaining s' < remaining s \<and> (\<exists>vs. feed h (concat (map calls vs) @ [CEndArray (n + of_nat (length vs))]) st = Some st')"
  proof (cases b)
    case True
    then obtain vs where "remaining s' < remaining (SkipWhitespace s2)"
      "feed h (concat (map calls vs) @ [CEndArray (n + 1 + of_nat (length vs))]) st1 = Some st'"
      using r assms(2) unfolding parses_elements_def by fastforce
    then have "remaining s' < remaining s"
      "feed h (concat (map calls (x # vs)) @ [CEndArray (n + of_nat (length (x # vs)))]) st = Some st'"
      using x l SkipWhitespace_le [of s2] by (simp_all add: feed_append ac_simps)
    then show ?thesis by blast
  next
    case False
    then have "h (CEndArray (n + 1)) st1 = (True, st')" "s' = s3" using r by (simp_all split: if_splits)
    then have "remaining s' < remaining s"
      "feed h (concat (map calls [x]) @ [CEndArray (n + of_nat (length [x]))]) st = Some st'"
      using x l by (simp_all add: feed_append)
    then show ?thesis by blast
  qed
qed

lemma object_member_parses:
  assumes "parses h val" and "parses_members h loop"
  shows "parses_members h (object_member h val loop)"
  unfolding parses_members_def
proof (intro allI impI)
  fix n s st s' st'
  assume p: "object_member h val loop n s st = PDone s' st'"
  then have q: "js_Peek s = 0x22" by (simp add: object_member_def split: if_splits)
  obtain s0 st0 where k: "ParseString h True s st = PDone s0 st0"
    using p q by (auto simp: object_member_def elim!: pbind_PDoneE)
  then obtain key where key: "remaining s0 < remaining s" "h (CKey key) st = (True, st0)" using ParseString_parses [OF k] by auto
  obtain b s1 where b: "Consume 0x3A (SkipWhitespace s0) = (b, s1)" by (rule prod.exhaust)
  have t: b using p q k b by (simp add: object_member_def split: if_splits)
  obtain s2 st2 where v: "val (SkipWhitespace s1) st0 = PDone s2 st2"
    using p q k b t by (auto simp: object_member_def elim!: pbind_PDoneE)
  then obtain x where x: "remaining s2 < remaining (SkipWhitespace s1)" "feed h (calls x) st0 = Some st2"
    using assms(1) unfolding parses_def by blast
  let ?s = "SkipWhitespace s2"
  have l: "remaining ?s < remaining s" "remaining (js_Take ?s) \<le> remaining ?s"
    using key(1) x(1) Consume_le [OF b] SkipWhitespace_le [of s0] SkipWhitespace_le [of s1] SkipWhitespace_le [of s2] Take_le by simp_all
  have r: "(if js_Peek ?s = 0x2C then loop (n + 1) (SkipWhitespace (js_Take ?s)) st2
      else if js_Peek ?s = 0x7D then call h (CEndObject (n + 1)) (fst (js_Take ?s)) (js_Take ?s) st2
      else PError kParseErrorObjectMissCommaOrCurlyBracket (fst ?s) st2) = PDone s' st'"
    using p q k b t by (auto simp: object_member_def Let_def v split: if_splits)
  show "remaining s' < remaining s \<and>
     (\<exists>kvs. feed h (concat (map (\<lambda>(k, v). CKey k # calls v) kvs) @ [CEndObject (n + of_nat (length kvs))]) st = Some st')"
  proof (cases "js_Peek ?s = 0x2C")
    case True
    then obtain kvs where "remaining s' < remaining (SkipWhitespace (js_Take ?s))"
      "feed h (concat (map (\<lambda>(k, v). CKey k # calls v) kvs) @ [CEndObject (n + 1 + of_nat (length kvs))]) st2 = Some st'"
      using r assms(2) unfolding parses_members_def by fastforce
    then have "remaining s' < remaining s" "feed h (concat (map (\<lambda>(k, v). CKey k # calls v) ((key, x) # kvs))
        @ [CEndObject (n + of_nat (length ((key, x) # kvs)))]) st = Some st'"
      using key x l SkipWhitespace_le [of "js_Take ?s"] by (simp_all add: feed_append ac_simps)
    then show ?thesis by blast
  next
    case False
    then have "h (CEndObject (n + 1)) st2 = (True, st')" "s' = js_Take ?s" using r by (simp_all split: if_splits)
    then have "remaining s' < remaining s" "feed h (concat (map (\<lambda>(k, v). CKey k # calls v) [(key, x)])
        @ [CEndObject (n + of_nat (length [(key, x)]))]) st = Some st'"
      using key x l by (simp_all add: feed_append)
    then show ?thesis by blast
  qed
qed

lemma value_switch_parses:
  assumes "parses_members h members" and "parses_elements h elements"
  shows "parses h (value_switch fl h members elements)"
  unfolding parses_def
proof (intro allI impI)
  fix s st s' st'
  assume p: "value_switch fl h members elements s st = PDone s' st'"
  have leaf: "remaining s' < remaining s \<and> (\<exists>v. feed h (calls v) st = Some st')"
    if "remaining s' < remaining s" "h c st = (True, st')" "calls v = [c]" for c v
    using that by (auto intro!: exI [of _ v])
  consider (n) "js_Peek s = 0x6E" | (t) "js_Peek s = 0x74" | (f) "js_Peek s = 0x66" | (q) "js_Peek s = 0x22" | (o) "js_Peek s = 0x7B"
    | (a) "js_Peek s = 0x5B" | (d) "js_Peek s \<notin> {0x6E, 0x74, 0x66, 0x22, 0x7B, 0x5B}" by auto
  then show "remaining s' < remaining s \<and> (\<exists>v. feed h (calls v) st = Some st')"
  proof cases
    case n
    then show ?thesis using p ParseLiteral_parses [of h _ CNull s st s' st'] leaf [of CNull VNull]
      by (simp add: value_switch_def Let_def ParseNull_def)
  next
    case t
    then show ?thesis using p ParseLiteral_parses [of h _ "CBool True" s st s' st'] leaf [of "CBool True" "VBool True"]
      by (simp add: value_switch_def Let_def ParseTrue_def)
  next
    case f
    then show ?thesis using p ParseLiteral_parses [of h _ "CBool False" s st s' st'] leaf [of "CBool False" "VBool False"]
      by (simp add: value_switch_def Let_def ParseFalse_def)
  next
    case q
    then obtain str where "remaining s' < remaining s" "h (CString str) st = (True, st')"
      using p ParseString_parses [of h False s st s' st'] by (auto simp: value_switch_def Let_def)
    then show ?thesis using leaf [of "CString str" "VString str"] by simp
  next
    case o
    then show ?thesis using p ParseObject_parses [OF assms(1)] by (simp add: value_switch_def Let_def)
  next
    case a
    then show ?thesis using p ParseArray_parses [OF assms(2)] by (simp add: value_switch_def Let_def)
  next
    case d
    then have "ParseNumberValue fl h s st = PDone s' st'" using p by (simp add: value_switch_def Let_def)
    from ParseNumberValue_parses [OF this] obtain x where "remaining s' < remaining s" "h (CNumber x) st = (True, st')" by blast
    then show ?thesis using leaf [of "CNumber x" "VNumber x"] by simp
  qed
qed

lemma parses_all: "parses h (ParseValue n fl h) \<and> parses_members h (object_loop n fl h) \<and> parses_elements h (array_loop n fl h)"
proof (induction n)
  case 0
  then show ?case by (simp add: parses_def parses_members_def parses_elements_def)
next
  case (Suc n)
  then show ?case by (simp add: value_switch_parses object_member_parses array_element_parses)
qed

subsection \<open>The reader returns\<close>

definition returns :: "nat \<Rightarrow> 'h parse_fn \<Rightarrow> bool" where
  "returns n f \<longleftrightarrow> (\<forall>s st. remaining s < n \<longrightarrow> f s st \<noteq> PFuel \<and> f s st \<noteq> PFault)"

lemma returnsD: "returns n f \<Longrightarrow> remaining s < n \<Longrightarrow> f s st \<noteq> PFuel \<and> f s st \<noteq> PFault"
  unfolding returns_def by blast

lemma pbind_returns:
  assumes "r \<noteq> PFuel" "r \<noteq> PFault" and "\<And>s st. r = PDone s st \<Longrightarrow> f s st \<noteq> PFuel \<and> f s st \<noteq> PFault"
  shows "pbind r f \<noteq> PFuel \<and> pbind r f \<noteq> PFault"
  using assms by (cases r) auto

lemma leaves_return:
  "ParseLiteral h cs c s st \<noteq> PFuel \<and> ParseLiteral h cs c s st \<noteq> PFault"
  "ParseString h k s st \<noteq> PFuel \<and> ParseString h k s st \<noteq> PFault"
  "ParseNumberValue fl h s st \<noteq> PFuel \<and> ParseNumberValue fl h s st \<noteq> PFault"
  by (auto simp: ParseLiteral_def ParseString_def ParseNumberValue_def ParseStringToStream_no_fault ParseNumber_ok(1)
      split: prod.splits sresult.splits)

lemma ParseArray_returns:
  assumes "\<And>k. returns n (loop k)" and "remaining s \<le> n" and "js_Peek s \<noteq> 0"
  shows "ParseArray h loop s st \<noteq> PFuel \<and> ParseArray h loop s st \<noteq> PFault"
proof -
  obtain b s1 where c: "Consume 0x5D (SkipWhitespace (js_Take s)) = (b, s1)" by (rule prod.exhaust)
  have "remaining s1 < n"
    using Consume_le [OF c] SkipWhitespace_le [of "js_Take s"] Peek_Take [OF assms(3)] assms(2) by simp
  then show ?thesis unfolding ParseArray_def Let_def
    by (intro pbind_returns) (auto simp: c returnsD [OF assms(1)])
qed

lemma ParseObject_returns:
  assumes "\<And>k. returns n (loop k)" and "remaining s \<le> n" and "js_Peek s \<noteq> 0"
  shows "ParseObject h loop s st \<noteq> PFuel \<and> ParseObject h loop s st \<noteq> PFault"
proof -
  obtain b s1 where c: "Consume 0x7D (SkipWhitespace (js_Take s)) = (b, s1)" by (rule prod.exhaust)
  have "remaining s1 < n"
    using Consume_le [OF c] SkipWhitespace_le [of "js_Take s"] Peek_Take [OF assms(3)] assms(2) by simp
  then show ?thesis unfolding ParseObject_def Let_def
    by (intro pbind_returns) (auto simp: c returnsD [OF assms(1)])
qed

lemma array_element_returns:
  assumes "returns n val" and "parses h val" and "\<And>k. returns m (loop k)" and "n \<le> Suc m"
  shows "returns n (array_element h val loop k)"
  unfolding returns_def
proof (intro allI impI)
  fix s st
  assume s: "remaining s < n"
  have "f \<noteq> PFuel \<and> f \<noteq> PFault"
    if "val s st = PDone s1 st1" and "f = (case Consume 0x2C (SkipWhitespace s1) of (b, s) \<Rightarrow>
         if b then loop (k + 1) (SkipWhitespace s) st1
         else case Consume 0x5D s of (b, s) \<Rightarrow>
           if b then call h (CEndArray (k + 1)) (fst s) s st1
           else PError kParseErrorArrayMissCommaOrSquareBracket (fst s) st1)" for s1 st1 f
  proof -
    obtain b s2 where b: "Consume 0x2C (SkipWhitespace s1) = (b, s2)" by (rule prod.exhaust)
    obtain d s3 where d: "Consume 0x5D s2 = (d, s3)" by (rule prod.exhaust)
    have "remaining s1 < remaining s" using assms(2) that(1) unfolding parses_def by blast
    then have "remaining (SkipWhitespace s2) < m"
      using Consume_le [OF b] SkipWhitespace_le [of s1] SkipWhitespace_le [of s2] s assms(4) by simp
    then show ?thesis using that(2) by (auto simp: b d returnsD [OF assms(3)])
  qed
  then show "array_element h val loop k s st \<noteq> PFuel \<and> array_element h val loop k s st \<noteq> PFault"
    unfolding array_element_def Let_def using returnsD [OF assms(1) s] by (intro pbind_returns) blast+
qed

lemma object_member_returns:
  assumes "returns n val" and "parses h val" and "\<And>k. returns m (loop k)" and "n \<le> Suc m"
  shows "returns n (object_member h val loop k)"
  unfolding returns_def
proof (intro allI impI)
  fix s st
  assume s: "remaining s < n"
  have after: "f \<noteq> PFuel \<and> f \<noteq> PFault"
    if "remaining s2 < remaining s" and "f = (let s = SkipWhitespace s2; k = k + 1 in
        if js_Peek s = 0x2C then loop k (SkipWhitespace (js_Take s)) st2
        else if js_Peek s = 0x7D then (let s = js_Take s in call h (CEndObject k) (fst s) s st2)
        else PError kParseErrorObjectMissCommaOrCurlyBracket (fst s) st2)" for s2 st2 f
  proof -
    have "remaining (SkipWhitespace (js_Take (SkipWhitespace s2))) < m"
      using that(1) s assms(4) SkipWhitespace_le [of s2] SkipWhitespace_le [of "js_Take (SkipWhitespace s2)"]
        Take_le [of "SkipWhitespace s2"] by simp
    then show ?thesis using that(2) by (auto simp: Let_def returnsD [OF assms(3)])
  qed
  have val: "f \<noteq> PFuel \<and> f \<noteq> PFault"
    if "remaining s0 < remaining s" and "f = (case Consume 0x3A (SkipWhitespace s0) of (b, s) \<Rightarrow>
        if \<not> b then PError kParseErrorObjectMissColon (fst s) st0
        else pbind (val (SkipWhitespace s) st0) (\<lambda>s st.
          let s = SkipWhitespace s; k = k + 1 in
          if js_Peek s = 0x2C then loop k (SkipWhitespace (js_Take s)) st
          else if js_Peek s = 0x7D then (let s = js_Take s in call h (CEndObject k) (fst s) s st)
          else PError kParseErrorObjectMissCommaOrCurlyBracket (fst s) st))" for s0 st0 f
  proof -
    obtain b s1 where b: "Consume 0x3A (SkipWhitespace s0) = (b, s1)" by (rule prod.exhaust)
    have l: "remaining (SkipWhitespace s1) < remaining s"
      using that(1) Consume_le [OF b] SkipWhitespace_le [of s0] SkipWhitespace_le [of s1] by simp
    have v: "remaining s2 < remaining s" if "val (SkipWhitespace s1) st0 = PDone s2 st2" for s2 st2
      using assms(2) that l less_trans unfolding parses_def by blast
    show ?thesis
    proof (cases b)
      case True
      show ?thesis unfolding that(2) b prod.case using True
        by (simp only: simp_thms if_False)
          (rule pbind_returns, use returnsD [OF assms(1) less_trans [OF l s]] in blast,
            use returnsD [OF assms(1) less_trans [OF l s]] in blast, rule after [OF v refl])
    qed (use that(2) in \<open>simp add: b\<close>)
  qed
  show "object_member h val loop k s st \<noteq> PFuel \<and> object_member h val loop k s st \<noteq> PFault"
  proof (cases "js_Peek s = 0x22")
    case True
    show ?thesis unfolding object_member_def using True
      by (simp only: simp_thms if_False)
        (rule pbind_returns, use leaves_return(2) [of h True s st] in blast, use leaves_return(2) [of h True s st] in blast,
          rule val [OF ParseString_parses(1) refl])
  qed (simp add: object_member_def)
qed

lemma value_switch_returns:
  assumes "\<And>k. returns m (members k)" and "\<And>k. returns m (elements k)"
  shows "returns (Suc m) (value_switch fl h members elements)"
  unfolding returns_def
proof (intro allI impI)
  fix s st
  assume s: "remaining s < Suc m"
  then have a: "ParseArray h elements s st \<noteq> PFuel \<and> ParseArray h elements s st \<noteq> PFault" if "js_Peek s = 0x5B"
    using that by (intro ParseArray_returns [OF assms(2)]) simp_all
  have o: "ParseObject h members s st \<noteq> PFuel \<and> ParseObject h members s st \<noteq> PFault" if "js_Peek s = 0x7B"
    using s that by (intro ParseObject_returns [OF assms(1)]) simp_all
  show "value_switch fl h members elements s st \<noteq> PFuel \<and> value_switch fl h members elements s st \<noteq> PFault"
    using a o by (simp add: value_switch_def Let_def ParseNull_def ParseTrue_def ParseFalse_def leaves_return)
qed

lemma returns_all:
  "returns (Suc n div 2) (ParseValue n fl h) \<and> (\<forall>k. returns (n div 2) (object_loop n fl h k)) \<and>
    (\<forall>k. returns (n div 2) (array_loop n fl h k))"
proof (induction n)
  case 0
  then show ?case by (simp add: returns_def)
next
  case (Suc n)
  have m: "Suc n div 2 \<le> Suc (n div 2)" by simp
  have p: "parses h (ParseValue n fl h)" using parses_all by blast
  have "returns (Suc (n div 2)) (ParseValue (Suc n) fl h)" using Suc by (simp add: value_switch_returns)
  moreover have "returns (Suc n div 2) (object_loop (Suc n) fl h k)" for k
    using Suc object_member_returns [OF _ p _ m] by simp
  moreover have "returns (Suc n div 2) (array_loop (Suc n) fl h k)" for k
    using Suc array_element_returns [OF _ p _ m] by simp
  ultimately show ?case by simp
qed

lemma length_c_str: "length (c_str s) \<le> length s"
  by (simp add: c_str_def length_takeWhile_le)

lemma Parse_value:
  "ParseValue (2 * length str + 1) fl h (SkipWhitespace (0, c_str str)) st \<noteq> PFuel"
  "ParseValue (2 * length str + 1) fl h (SkipWhitespace (0, c_str str)) st \<noteq> PFault"
proof -
  have "returns (Suc (length str)) (ParseValue (2 * length str + 1) fl h)"
    using returns_all [of "2 * length str + 1" fl h] by simp
  moreover have "remaining (SkipWhitespace (0, c_str str)) < Suc (length str)"
    using SkipWhitespace_le [of "(0, c_str str)"] length_c_str [of str] by simp
  ultimately have "ParseValue (2 * length str + 1) fl h (SkipWhitespace (0, c_str str)) st \<noteq> PFuel \<and>
      ParseValue (2 * length str + 1) fl h (SkipWhitespace (0, c_str str)) st \<noteq> PFault"
    by (rule returnsD)
  then show "ParseValue (2 * length str + 1) fl h (SkipWhitespace (0, c_str str)) st \<noteq> PFuel"
    "ParseValue (2 * length str + 1) fl h (SkipWhitespace (0, c_str str)) st \<noteq> PFault" by simp_all
qed

subsection \<open>Properties\<close>


text \<open>C37: When \<open>Parse\<close> succeeds, the stream stands at the terminator, and the handler has been called, without refusing, with
  exactly the calls of one value: matching starts and ends, a key before every member, and the right counts at the ends.\<close>

theorem reader_calls_value:
  assumes "Reader_Parse fl h str st = PDone s' st'"
  shows "js_Peek s' = 0 \<and> (\<exists>v. feed h (calls v) st = Some st')"
proof -
  let ?s = "SkipWhitespace (0, c_str str)"
  obtain s1 st1 where v: "ParseValue (2 * length str + 1) fl h ?s st = PDone s1 st1"
    and r: "(if js_Peek (SkipWhitespace s1) \<noteq> 0 then PError kParseErrorDocumentRootNotSingular (fst (SkipWhitespace s1)) st1
      else PDone (SkipWhitespace s1) st1) = PDone s' st'"
    using assms by (auto simp: Reader_Parse_def Let_def split: if_splits elim!: pbind_PDoneE)
  have "parses h (ParseValue (2 * length str + 1) fl h)" using parses_all by blast
  then have "\<exists>v. feed h (calls v) st = Some st1" using v unfolding parses_def by blast
  then show ?thesis using r by (auto split: if_splits)
qed

text \<open>A handler that keeps the calls.\<close>

definition log_calls :: "('d, 'd reader_call list) json_handler" where "log_calls c st = (True, st @ [c])"

lemma feed_log [simp]: "feed log_calls cs st = Some (st @ cs)"
  by (induction cs arbitrary: st) (simp_all add: log_calls_def)

end
