(* ===== verification/Json_Rt.thy ===== *)
theory Json_Rt imports Json_Reader_Safe begin

text \<open>
  The reader of \<^verbatim>\<open>Json_Reader\<close> reads back what the writer of \<^verbatim>\<open>Json_Writer\<close> writes: escaped strings,
  integers at their widths, arrays and objects; and reading into a writer reproduces the text.
\<close>

subsection \<open>Strings\<close>

lemma Peek_Cons [simp]: "js_Peek (p, c # cs) = c" and Take_Cons [simp]: "js_Take (p, c # cs) = (p + 1, cs)"
  and Peek_Nil [simp]: "js_Peek (p, []) = 0"
  by (simp_all add: js_Peek_def js_Take_def)

lemma ParseHex4_digit:
  assumes "i < 16"
  shows "ParseHex4 (Suc n) cp off (p, hexDigits ! i # r) = ParseHex4 n (push_bit 4 cp + of_nat i) off (p + 1, r)"
proof -
  have "list_all (\<lambda>i. (let c = hexDigits ! i in
      (if 0x30 \<le> c \<and> c \<le> 0x39 then Some (ucast c - 0x30 :: u32)
       else if 0x41 \<le> c \<and> c \<le> 0x46 then Some (ucast c - (0x41 - 10))
       else if 0x61 \<le> c \<and> c \<le> 0x66 then Some (ucast c - (0x61 - 10)) else None) = Some (of_nat i))) [0..<16]"
    by code_simp
  then have "(let c = hexDigits ! i in
      (if 0x30 \<le> c \<and> c \<le> 0x39 then Some (ucast c - 0x30 :: u32)
       else if 0x41 \<le> c \<and> c \<le> 0x46 then Some (ucast c - (0x41 - 10))
       else if 0x61 \<le> c \<and> c \<le> 0x66 then Some (ucast c - (0x61 - 10)) else None) = Some (of_nat i))"
    using assms by (simp only: list_all_iff set_upt atLeastLessThan_iff) simp
  then show ?thesis by (auto simp: Let_def add_diff_eq [symmetric] split: if_splits)
qed

text \<open>The two escape tables, character by character.\<close>

definition escape_fits :: "byte \<times> byte \<Rightarrow> bool" where
  "escape_fits ce = (case ce of (c, e) \<Rightarrow>
     if c \<ge> 0x20 \<and> c \<noteq> 0x22 \<and> c \<noteq> 0x5C then e = 0
     else e \<noteq> 0 \<and> (if e = 0x75 then c < 0x20 else read_escape ! unat e = c \<and> c \<noteq> 0))"

lemma escape_at: "escape_fits (c, escape ! unat c)"
proof -
  let ?xs = "zip (map (of_nat :: nat \<Rightarrow> byte) [0..<256]) escape"
  have all: "list_all escape_fits ?xs" by code_simp
  have l: "length escape = 256" by (simp add: escape_def Z16_def)
  have u: "unat c < 256" using unsigned_less [of c] by simp
  have "?xs ! unat c = (c, escape ! unat c)" using l u by (simp only: nth_zip length_map length_upt nth_map nth_upt) simp
  moreover have "?xs ! unat c \<in> set ?xs" using l u by (intro nth_mem) simp
  ultimately show ?thesis using all unfolding list_all_iff by metis
qed

lemma nibbles_u32: "push_bit 4 (of_nat (unat (drop_bit 4 c))) + of_nat (unat (c AND 0xF)) = (ucast c :: u32)" for c :: byte
proof -
  have "list_all (\<lambda>c. push_bit 4 (of_nat (unat (drop_bit 4 c))) + of_nat (unat (c AND 0xF)) = (ucast c :: u32))
      (map (of_nat :: nat \<Rightarrow> byte) [0..<256])" by code_simp
  moreover have "unat c < 256" using unsigned_less [of c] by simp
  then have "c \<in> set (map of_nat [0..<256])" by (auto intro!: image_eqI [of c _ "unat c"])
  ultimately show ?thesis unfolding list_all_iff by blast
qed

lemma small_byte: "c < 0x20 \<Longrightarrow> ucast c \<le> (0x7F :: u32)" for c :: byte
  by (simp add: word_less_def word_le_def uint_byte_u32)

lemma encode_ascii: "c < 0x20 \<Longrightarrow> utf8_Encode (ucast c) = Some [c]" for c :: byte
proof -
  assume "c < 0x20"
  then have c: "ucast c \<le> (0x7F :: u32)" by (rule small_byte)
  have "ucast (ucast c AND mask 8 :: u32) = c" by (intro bit_word_eqI) (auto simp: bit_simps)
  moreover have "mask 8 = (0xFF :: u32)" by (simp add: mask_eq_exp_minus_1)
  ultimately have "ucast (ucast c AND 0xFF :: u32) = c" by (simp only:)
  then show ?thesis using c by (simp add: utf8_Encode_def)
qed

lemma not_surrogate: "c < 0x20 \<Longrightarrow> \<not> (ucast c \<ge> (0xD800 :: u32))" for c :: byte
  using small_byte [of c] by (simp add: word_le_def)

lemma read_hex:
  "ParseHex4 4 0 off (p, hexDigits ! 0 # hexDigits ! 0 # hexDigits ! unat (drop_bit 4 c) # hexDigits ! unat (c AND 0xF) # r) =
    SDone (ucast c) (p + 4, r)" for c :: byte
  using nibble_bounds [of c] nibbles_u32 [of c] by (simp add: eval_nat_numeral(2,3) ParseHex4_digit del: ParseHex4.simps(2))

lemma read_put_escaped:
  "ParseStringToStream out (p, put_escaped c @ r) = ParseStringToStream (out @ [c]) (p + length (put_escaped c), r)"
proof -
  let ?e = "escape ! unat c"
  note fits = escape_at [of c, unfolded escape_fits_def prod.case]
  consider (plain) "?e = 0" "\<not> c < 0x20" "c \<noteq> 0x22" "c \<noteq> 0x5C" | (hex) "?e = 0x75" "c < 0x20"
    | (letter) "?e \<noteq> 0" "?e \<noteq> 0x75" "read_escape ! unat ?e = c" "c \<noteq> 0"
    using fits by (auto split: if_splits)
  then show ?thesis
  proof cases
    case plain
    then show ?thesis by (subst ParseStringToStream.simps) (simp add: put_escaped_def Let_def)
  next
    case hex
    have z: "(0x30 :: byte) = hexDigits ! 0" by (simp add: hexDigits_def ascii_def)
    have pe: "put_escaped c = [0x5C, 0x75, hexDigits ! 0, hexDigits ! 0, hexDigits ! unat (drop_bit 4 c), hexDigits ! unat (c AND 0xF)]"
      unfolding put_escaped_def hex(1) z by simp
    have u: "ParseUnicode p (Suc (Suc p), hexDigits ! 0 # hexDigits ! 0 # hexDigits ! unat (drop_bit 4 c) # hexDigits ! unat (c AND 0xF) # r) =
        SDone (ucast c) (Suc (Suc p) + 4, r)"
      using not_surrogate [OF hex(2)] by (simp add: ParseUnicode_def read_hex)
    have s: "Suc (Suc p) + 4 = Suc (Suc (Suc (Suc (Suc (Suc p)))))" by simp
    have re: "read_escape ! 0x75 = 0" by (simp add: read_escape_def Z16_def)
    show ?thesis unfolding pe
      by (subst ParseStringToStream.simps) (simp add: Let_def re u [unfolded s] encode_ascii [OF hex(2)])
  next
    case letter
    then show ?thesis by (subst ParseStringToStream.simps) (simp add: put_escaped_def Let_def)
  qed
qed

lemma read_escaped:
  "ParseStringToStream out (p, concat (map put_escaped s) @ 0x22 # r) =
    SDone (out @ s) (p + length (concat (map put_escaped s)) + 1, r)"
proof (induction s arbitrary: out p)
  case Nil
  show ?case by (subst ParseStringToStream.simps) (simp add: Let_def)
next
  case (Cons c s)
  then show ?case by (simp add: read_put_escaped)
qed

lemma read_string: "ParseStringToStream [] (js_Take (p, json_string s @ r)) = SDone s (p + length (json_string s), r)"
  by (simp add: json_string_def read_escaped)

subsection \<open>Numbers\<close>

definition json_digit :: "nat \<Rightarrow> byte" where "json_digit d = 0x30 + of_nat d"

definition horner :: "nat \<Rightarrow> nat list \<Rightarrow> nat" where "horner = foldl (\<lambda>a d. 10 * a + d)"

lemma horner_simps [simp]: "horner a [] = a" "horner a (d # ds) = horner (10 * a + d) ds" "horner a (ds @ es) = horner (horner a ds) es"
  by (simp_all add: horner_def)

lemma horner_ge: "a \<le> horner a ds"
proof (induction ds arbitrary: a)
  case (Cons d ds)
  have "a \<le> 10 * a + d" by simp
  also have "\<dots> \<le> horner (10 * a + d) ds" by (rule Cons.IH)
  finally show ?case by simp
qed simp

abbreviation digits :: "nat list \<Rightarrow> bool" where "digits ds \<equiv> \<forall>d \<in> set ds. d < 10"

lemma decimal_digits:
  "\<exists>d ds. decimal n = map json_digit (d # ds) \<and> digits (d # ds) \<and> horner 0 (d # ds) = n \<and> (d = 0 \<longrightarrow> n = 0 \<and> ds = [])"
proof (induction n rule: decimal.induct)
  case (1 n)
  show ?case
  proof (cases "n < 10")
    case True
    then show ?thesis by (auto simp: decimal_one json_digit_def intro!: exI [of _ n] exI [of _ "[]"])
  next
    case False
    then obtain d ds where IH: "decimal (n div 10) = map json_digit (d # ds)" "digits (d # ds)" "horner 0 (d # ds) = n div 10"
      "d = 0 \<longrightarrow> n div 10 = 0 \<and> ds = []"
      using 1 by auto
    have "decimal n = map json_digit (d # (ds @ [n mod 10]))" using False IH(1) by (simp add: decimal_step json_digit_def)
    moreover have "horner 0 (d # (ds @ [n mod 10])) = n" using IH(3) by simp
    moreover have "digits (d # (ds @ [n mod 10]))" using IH(2) by auto
    moreover have "d \<noteq> 0" using IH(4) False by auto
    ultimately show ?thesis by blast
  qed
qed

lemma json_digit:
  assumes "d < 10"
  shows "unat (json_digit d) = 48 + d" "is_digit (json_digit d)" "digit_of (json_digit d) = (of_nat d :: 'a::len word)"
proof -
  show u: "unat (json_digit d) = 48 + d"
    using assms by (simp add: json_digit_def unat_add_small unat_of_nat take_bit_nat_eq_self)
  then show "is_digit (json_digit d)" using assms by (simp add: is_digit_def word_le_nat_alt)
  have "ucast (of_nat d :: byte) = (of_nat d :: 'a word)" using assms by (simp add: unsigned_of_nat take_bit_nat_eq_self)
  then show "digit_of (json_digit d) = (of_nat d :: 'a word)" by (simp add: digit_of_def json_digit_def)
qed

text \<open>A stream on which no number goes on.\<close>

definition stops :: "byte list \<Rightarrow> bool" where
  "stops r \<longleftrightarrow> (case r of [] \<Rightarrow> True | c # _ \<Rightarrow> \<not> is_digit c \<and> c \<noteq> 0x2E \<and> c \<noteq> 0x65 \<and> c \<noteq> 0x45)"

text \<open>The loop takes the digits of every number up to \<open>10 * lim + l\<close>, and of a greater one as many as fit.\<close>

lemma int_digits_reads:
  fixes lim i :: "'a::len word"
  assumes "digits ds" "l < 10" "unat lst = 48 + l" "m = 10 * unat lim + l" "m < 2 ^ LENGTH('a)" "unat i \<le> m" "\<not> is_digit (hd r) \<or> r = []"
  shows "if horner (unat i) ds \<le> m
    then int_digits lim lst i sig (p, map json_digit ds @ r) = (of_nat (horner (unat i) ds), False, sig + int (length ds), (p + length ds, r))
    else \<exists>es d fs. ds = es @ d # fs \<and> horner (unat i) es \<le> m \<and>
      int_digits lim lst i sig (p, map json_digit ds @ r) =
        (of_nat (horner (unat i) es), True, sig + int (length es), (p + length es, map json_digit (d # fs) @ r))"
  using assms(1,6)
proof (induction ds arbitrary: i sig p)
  case Nil
  then show ?case using assms(7) by (cases r) auto
next
  case (Cons d ds)
  have d: "d < 10" "digits ds" using Cons.prems by auto
  have wider: "i \<ge> lim \<and> (i \<noteq> lim \<or> json_digit d > lst) \<longleftrightarrow> m < 10 * unat i + d"
    using d(1) assms(2,3,4) json_digit(1) [OF d(1)] by (auto simp: word_le_nat_alt word_less_nat_alt word_unat_eq_iff)
  show ?case
  proof (cases "m < 10 * unat i + d")
    case True
    then have "\<not> horner (unat i) (d # ds) \<le> m" using horner_ge [of "10 * unat i + d" ds] by simp
    moreover have "int_digits lim lst i sig (p, map json_digit (d # ds) @ r) = (of_nat (horner (unat i) []), True, sig + int (length []), (p + length [], map json_digit (d # ds) @ r))"
      using True wider json_digit(2) [OF d(1)] by simp
    ultimately show ?thesis using Cons.prems(2) by (simp only: if_False) (rule exI [of _ "[]"], rule exI [of _ d], rule exI [of _ ds], simp)
  next
    case False
    have "i * 10 + of_nat d = of_nat (10 * unat i + d)" by (simp add: mult.commute)
    moreover have "10 * unat i + d < 2 ^ LENGTH('a)" using False assms(5) by simp
    ultimately have v: "unat (i * 10 + of_nat d) = 10 * unat i + d" by (simp only: unat_of_nat mod_less)
    have w: "\<not> (i \<ge> lim \<and> (i \<noteq> lim \<or> json_digit d > lst))" using False wider by blast
    have s: "int_digits lim lst i sig (p, map json_digit (d # ds) @ r) = int_digits lim lst (i * 10 + of_nat d) (sig + 1) (p + 1, map json_digit ds @ r)"
      unfolding list.map append_Cons int_digits.simps(2) by (simp only: w json_digit(2,3) [OF d(1)] if_True if_False)
    have le: "unat (i * 10 + of_nat d) \<le> m" using False v by simp
    show ?thesis
    proof (cases "horner (unat i) (d # ds) \<le> m")
      case True
      then show ?thesis using Cons.IH [OF d(2) le, of "sig + 1" "p + 1"] unfolding s v by simp
    next
      case over: False
      then obtain es e fs where e: "ds = es @ e # fs" "horner (10 * unat i + d) es \<le> m"
        "int_digits lim lst (i * 10 + of_nat d) (sig + 1) (p + 1, map json_digit ds @ r) =
          (of_nat (horner (10 * unat i + d) es), True, sig + 1 + int (length es), (p + 1 + length es, map json_digit (e # fs) @ r))"
        using Cons.IH [OF d(2) le, of "sig + 1" "p + 1"] unfolding v by auto
      then show ?thesis using over unfolding s
        by (simp only: if_False) (rule exI [of _ "d # es"], rule exI [of _ e], rule exI [of _ fs], simp)
    qed
  qed
qed

lemma stops_Consume: "stops r \<Longrightarrow> Consume 0x2E (p, r) = (False, (p, r))" "stops r \<Longrightarrow> js_Peek (p, r) \<noteq> 0x65 \<and> js_Peek (p, r) \<noteq> 0x45"
  by (auto simp: stops_def Consume_def js_Peek_def split: list.splits)

lemma stops_hd: "stops r \<Longrightarrow> \<not> is_digit (hd r) \<or> r = []"
  by (cases r) (auto simp: stops_def)

text \<open>The largest numbers of the two widths, positive and negative.\<close>

definition max32 :: "bool \<Rightarrow> nat" where "max32 negative = (if negative then 2147483648 else 4294967295)"
definition max64 :: "bool \<Rightarrow> nat" where "max64 negative = (if negative then 9223372036854775808 else 18446744073709551615)"

definition integer_number :: "bool \<Rightarrow> nat \<Rightarrow> 'd json_number" where
  "integer_number negative n =
     (if n \<le> max32 negative then if negative then NInt (- of_nat n) else NUint (of_nat n)
      else if negative then NInt64 (- of_nat n) else NUint64 (of_nat n))"

lemma int_digits32:
  assumes "digits ds" "unat i \<le> max32 negative" "stops r"
  shows "if horner (unat i) ds \<le> max32 negative
    then (if negative then int_digits 214748364 0x38 i sig (p, map json_digit ds @ r) else int_digits 429496729 0x35 i sig (p, map json_digit ds @ r))
      = (of_nat (horner (unat i) ds) :: u32, False, sig + int (length ds), (p + length ds, r))
    else \<exists>es d fs. ds = es @ d # fs \<and> horner (unat i) es \<le> max32 negative \<and>
      (if negative then int_digits 214748364 0x38 i sig (p, map json_digit ds @ r) else int_digits 429496729 0x35 i sig (p, map json_digit ds @ r))
      = (of_nat (horner (unat i) es), True, sig + int (length es), (p + length es, map json_digit (d # fs) @ r))"
proof (cases negative)
  case True
  have "unat i \<le> 2147483648" using True assms(2) by (simp add: max32_def)
  then show ?thesis unfolding max32_def if_P [OF True]
    by (intro int_digits_reads [OF assms(1), where l = 8] stops_hd [OF assms(3)]) simp_all
next
  case False
  have "unat i \<le> 4294967295" using False assms(2) by (simp add: max32_def)
  then show ?thesis unfolding max32_def if_not_P [OF False]
    by (intro int_digits_reads [OF assms(1), where l = 5] stops_hd [OF assms(3)]) simp_all
qed

lemma int_digits64:
  assumes "digits ds" "horner (unat i) ds \<le> max64 negative" "stops r"
  shows "number_int64 negative i True sig (p, map json_digit ds @ r)
      = (of_nat (horner (unat i) ds), False, sig + int (length ds), (p + length ds, r))"
proof (cases negative)
  case True
  have "unat i \<le> max64 negative" using horner_ge [of "unat i" ds] assms(2) by simp
  then show ?thesis using True int_digits_reads [OF assms(1), of 8 "0x38" 9223372036854775808 "0x0CCCCCCCCCCCCCCC :: u64" i r sig p] assms(2) stops_hd [OF assms(3)]
    by (simp add: max64_def number_int64_def)
next
  case False
  have "unat i \<le> max64 negative" using horner_ge [of "unat i" ds] assms(2) by simp
  then show ?thesis using False int_digits_reads [OF assms(1), of 5 "0x35" 18446744073709551615 "0x1999999999999999 :: u64" i r sig p] assms(2) stops_hd [OF assms(3)]
    by (simp add: max64_def number_int64_def)
qed

lemma number_int_reads:
  assumes "digits (d # ds)" "d = 0 \<longrightarrow> ds = []" "stops r"
  shows "if horner 0 (d # ds) \<le> max32 negative
    then \<exists>sig. number_int negative (p, map json_digit (d # ds) @ r) = SDone (of_nat (horner 0 (d # ds)), 0, False, sig) (p + length (d # ds), r)
    else \<exists>es fs sig i. ds = es @ fs \<and> horner 0 (d # es) \<le> max32 negative \<and>
      number_int negative (p, map json_digit (d # ds) @ r) =
        SDone (i, of_nat (horner 0 (d # es)), True, sig) (p + length (d # es), map json_digit fs @ r)"
proof (cases "d = 0")
  case True
  then show ?thesis using assms(2) by (simp add: number_int_def json_digit_def)
next
  case False
  have d: "d < 10" "digits ds" using assms(1) by auto
  have u: "unat (of_nat d :: u32) = d" using d(1) by (simp add: unat_of_nat take_bit_nat_eq_self)
  then have le: "unat (of_nat d :: u32) \<le> max32 negative" using d(1) by (simp add: max32_def)
  have h: "horner 0 (d # xs) = horner (unat (of_nat d :: u32)) xs" for xs by (simp add: u)
  have c: "\<not> json_digit d = 0x30" "0x31 \<le> json_digit d" "json_digit d \<le> 0x39"
    using False d(1) json_digit(1) [OF d(1)] by (auto simp: word_le_nat_alt)
  let ?loop = "if negative then int_digits 214748364 0x38 (of_nat d :: u32) 0 (p + 1, map json_digit ds @ r)
      else int_digits 429496729 0x35 (of_nat d) 0 (p + 1, map json_digit ds @ r)"
  have n: "number_int negative (p, map json_digit (d # ds) @ r) =
      (case ?loop of (i, b, sig, s) \<Rightarrow> SDone (i, if b then ucast i else 0, b, sig) s)"
    using c by (simp add: number_int_def json_digit(3) [OF d(1)])
  note loop = int_digits32 [OF d(2) le assms(3), of 0 "p + 1"]
  show ?thesis
  proof (cases "horner 0 (d # ds) \<le> max32 negative")
    case True
    then have "?loop = (of_nat (horner 0 (d # ds)), False, 0 + int (length ds), (p + 1 + length ds, r))"
      using loop by (simp only: h if_True)
    then show ?thesis using True unfolding n by simp
  next
    case False
    then obtain es e fs where e: "ds = es @ e # fs" "horner 0 (d # es) \<le> max32 negative"
      "?loop = (of_nat (horner 0 (d # es)), True, 0 + int (length es), (p + 1 + length es, map json_digit (e # fs) @ r))"
      using loop by (simp only: h if_False) blast
    have "ucast (of_nat (horner 0 (d # es)) :: u32) = (of_nat (horner 0 (d # es)) :: u64)"
      using e(2) by (simp add: unsigned_of_nat take_bit_nat_eq_self max32_def split: if_splits)
    then show ?thesis using False e unfolding n
      by (simp only: if_False) (rule exI [of _ es], rule exI [of _ "e # fs"], rule exI, rule exI, simp)
  qed
qed

text \<open>On a stream without fraction and exponent the value is the integer.\<close>

lemma number_finish:
  assumes "stops r" and "number_int negative s0 = SDone (i, i64, b, sig) s1"
    and "number_int64 negative i64 b sig s1 = (i64', False, sig', (p, r))" and "Consume 0x2D s = (negative, s0)"
  shows "ParseNumber fl s = SDone (if b then if negative then NInt64 (- i64') else NUint64 i64' else if negative then NInt (- i) else NUint i) (p, r)"
proof -
  have "number_frac fl i i64' b sig' (fl_zero fl) False (p, r) = SDone (fl_zero fl, False, 0) (p, r)"
    by (simp add: number_frac_def stops_Consume(1) [OF assms(1)])
  moreover have "number_exp fl (fst s) i i64' b (fl_zero fl) False 0 (p, r) = SDone (fl_zero fl, False, 0) (p, r)"
    using stops_Consume(2) [OF assms(1), of p] by (simp add: number_exp_def)
  ultimately show ?thesis
    by (simp add: ParseNumber_def assms(2,3,4) number_big_def number_value_def minus_eq_not_plus_1)
qed

lemma ParseNumber_integer:
  assumes "n \<le> max64 negative" and "stops r"
  shows "ParseNumber fl (p, (if negative then [0x2D] else []) @ decimal n @ r) =
    SDone (integer_number negative n) (p + length ((if negative then [0x2D] else []) @ decimal n), r)"
proof -
  obtain d ds where n: "decimal n = map json_digit (d # ds)" "digits (d # ds)" "horner 0 (d # ds) = n" "d = 0 \<longrightarrow> n = 0 \<and> ds = []"
    using decimal_digits [of n] by blast
  define q where "q = p + (if negative then 1 else 0)"
  have "json_digit d \<noteq> 0x2D" using json_digit(1) [of d] n(2) by auto
  then have c: "Consume 0x2D (p, (if negative then [0x2D] else []) @ decimal n @ r) = (negative, (q, map json_digit (d # ds) @ r))"
    by (simp add: n(1) q_def Consume_def)
  have z: "d = 0 \<longrightarrow> ds = []" using n(4) by blast
  have l: "p + length ((if negative then [0x2D :: byte] else []) @ decimal n) = q + length (d # ds)"
    by (simp add: n(1) q_def)
  show ?thesis unfolding l
  proof (cases "n \<le> max32 negative")
    case True
    then obtain sig where i: "number_int negative (q, map json_digit (d # ds) @ r) = SDone (of_nat n, 0, False, sig) (q + length (d # ds), r)"
      using number_int_reads [OF n(2) z assms(2), of negative q] unfolding n(3) by (simp only: if_True) blast
    have "number_int64 negative 0 False sig (q + length (d # ds), r) = (0, False, sig, (q + length (d # ds), r))"
      by (simp add: number_int64_def)
    from number_finish [OF assms(2) i this c, of fl]
    show "ParseNumber fl (p, (if negative then [0x2D] else []) @ decimal n @ r) = SDone (integer_number negative n) (q + length (d # ds), r)"
      unfolding integer_number_def if_P [OF True] by (simp only: if_False)
  next
    case False
    then obtain es fs sig i where e: "ds = es @ fs" "horner 0 (d # es) \<le> max32 negative"
      "number_int negative (q, map json_digit (d # ds) @ r) =
        SDone (i, of_nat (horner 0 (d # es)), True, sig) (q + length (d # es), map json_digit fs @ r)"
      using number_int_reads [OF n(2) z assms(2), of negative q] unfolding n(3) by (simp only: if_False) blast
    have u: "unat (of_nat (horner 0 (d # es)) :: u64) = horner 0 (d # es)"
      using e(2) by (simp add: unat_of_nat take_bit_nat_eq_self max32_def split: if_splits)
    have "horner (unat (of_nat (horner 0 (d # es)) :: u64)) fs = n" unfolding u using n(3) e(1) by simp
    moreover have "digits fs" using n(2) e(1) by auto
    ultimately have "number_int64 negative (of_nat (horner 0 (d # es))) True sig (q + length (d # es), map json_digit fs @ r) =
        (of_nat n, False, sig + int (length fs), (q + length (d # es) + length fs, r))"
      using int_digits64 [of fs "of_nat (horner 0 (d # es))" negative r sig "q + length (d # es)"] assms by simp
    moreover have "q + length (d # es) + length fs = q + length (d # ds)" using e(1) by simp
    ultimately show "ParseNumber fl (p, (if negative then [0x2D] else []) @ decimal n @ r) = SDone (integer_number negative n) (q + length (d # ds), r)"
      using number_finish [OF assms(2) e(3) _ c, of "of_nat n" "sig + int (length fs)" "q + length (d # es) + length fs" fl]
      unfolding integer_number_def if_not_P [OF False] by (simp only: if_True)
  qed
qed

lemma ParseNumber_decimal_int:
  assumes "nat \<bar>i\<bar> \<le> max64 (i < 0)" and "stops r"
  shows "ParseNumber fl (p, decimal_int i @ r) = SDone (integer_number (i < 0) (nat \<bar>i\<bar>)) (p + length (decimal_int i), r)"
proof -
  have "decimal_int i = (if i < 0 then [0x2D] else []) @ decimal (nat \<bar>i\<bar>)" by (simp add: decimal_int_def)
  then show ?thesis using ParseNumber_integer [OF assms, of fl p] by simp
qed

subsection \<open>Values\<close>

text \<open>What the reader makes of a value that was written: the type of an integer is the narrowest that its text fits into.\<close>

fun read_back :: "json \<Rightarrow> 'd json_value" where
  "read_back JNull = VNull"
| "read_back (JBool b) = VBool b"
| "read_back (JInt i) = VNumber (integer_number (sint i < 0) (nat \<bar>sint i\<bar>))"
| "read_back (JUint u) = VNumber (integer_number False (unat u))"
| "read_back (JInt64 i) = VNumber (integer_number (sint i < 0) (nat \<bar>sint i\<bar>))"
| "read_back (JUint64 u) = VNumber (integer_number False (unat u))"
| "read_back (JString s) = VString s"
| "read_back (JArray js) = VArray (map read_back js)"
| "read_back (JObject kvs) = VObject (map (\<lambda>(k, v). (k, read_back v)) kvs)"

text \<open>A part that reads up to \<open>s\<close> with the handler's state \<open>st\<close> then, if its fuel lasts.\<close>

definition goes :: "'h presult \<Rightarrow> json_stream \<Rightarrow> 'h \<Rightarrow> bool" where
  "goes r s st \<longleftrightarrow> r = PFuel \<or> r = PDone s st"

lemma goes_pbind: "goes r s1 st1 \<Longrightarrow> goes (f s1 st1) s st \<Longrightarrow> goes (pbind r f) s st"
  unfolding goes_def by (elim disjE) (simp_all del: pbind_PDone)

lemma goes_call: "h c st = (True, st') \<Longrightarrow> goes (call h c off s st) s st'"
  by (simp add: goes_def call_def)

lemma goes_PFuel [simp]: "goes PFuel s st"
  by (simp add: goes_def)

lemma feed_one: "feed h [c] st = Some st' \<longleftrightarrow> h c st = (True, st')"
  by (auto split: prod.splits)

definition reads :: "'d floats \<Rightarrow> ('d, 'h) json_handler \<Rightarrow> json \<Rightarrow> bool" where
  "reads fl h j \<longleftrightarrow> (\<forall>n p r st st'. stops r \<longrightarrow> feed h (calls (read_back j)) st = Some st' \<longrightarrow>
     goes (ParseValue n fl h (p, json_text j @ r) st) (p + length (json_text j), r) st')"

lemma readsD:
  "reads fl h j \<Longrightarrow> stops r \<Longrightarrow> feed h (calls (read_back j)) st = Some st' \<Longrightarrow>
     goes (ParseValue n fl h (p, json_text j @ r) st) (p + length (json_text j), r) st'"
  by (simp add: reads_def)

lemma readsI:
  assumes "\<And>n p r st st'. stops r \<Longrightarrow> feed h (calls (read_back j)) st = Some st' \<Longrightarrow>
     goes (value_switch fl h (object_loop n fl h) (array_loop n fl h) (p, json_text j @ r) st) (p + length (json_text j), r) st'"
  shows "reads fl h j"
  unfolding reads_def
proof (intro allI impI)
  fix n p r st st'
  assume "stops r" "feed h (calls (read_back j)) st = Some st'"
  then show "goes (ParseValue n fl h (p, json_text j @ r) st) (p + length (json_text j), r) st'"
    using assms by (cases n) simp_all
qed

text \<open>How texts begin.\<close>

definition starts :: "byte \<Rightarrow> bool" where
  "starts c \<longleftrightarrow> c \<notin> {0, 0x20, 0x0A, 0x0D, 0x09, 0x5D, 0x7D}"

lemma starts_skip: "starts c \<Longrightarrow> SkipWhitespace (p, c # cs) = (p, c # cs)"
  by (simp add: starts_def)

lemma decimal_head: "\<exists>c cs. decimal n = c # cs \<and> is_digit c"
  using decimal_digits [of n] json_digit(2) by (metis list.set_intros(1) list.simps(9))

lemma digit_starts: "is_digit c \<Longrightarrow> starts c \<and> c \<notin> {0x6E, 0x74, 0x66, 0x22, 0x7B, 0x5B}"
  by (auto simp: is_digit_def starts_def)

lemma decimal_int_head: "\<exists>c cs. decimal_int i = c # cs \<and> starts c \<and> c \<notin> {0x6E, 0x74, 0x66, 0x22, 0x7B, 0x5B}"
proof (cases "i < 0")
  case True
  then show ?thesis by (simp add: decimal_int_def starts_def)
next
  case False
  then show ?thesis using decimal_head [of "nat i"] digit_starts by (auto simp: decimal_int_def)
qed

lemma json_text_head: "\<exists>c cs. json_text j = c # cs \<and> starts c"
proof (cases j)
  case (JInt i)
  then show ?thesis using decimal_int_head [of "sint i"] by auto
next
  case (JInt64 i)
  then show ?thesis using decimal_int_head [of "sint i"] by auto
next
  case (JUint i)
  then show ?thesis using decimal_head [of "unat i"] digit_starts by fastforce
next
  case (JUint64 i)
  then show ?thesis using decimal_head [of "unat i"] digit_starts by fastforce
qed (auto simp: starts_def json_string_def ascii_def)

text \<open>Scalars.\<close>

lemma switch_number:
  assumes "t = c # cs" "c \<notin> {0x6E, 0x74, 0x66, 0x22, 0x7B, 0x5B}" "ParseNumber fl (p, t @ r) = SDone x s" "h (CNumber x) st = (True, st')"
  shows "goes (value_switch fl h members elements (p, t @ r) st) s st'"
proof -
  have "goes (ParseNumberValue fl h (p, t @ r) st) s st'" by (simp add: ParseNumberValue_def assms(3,4) goes_call)
  then show ?thesis using assms(1,2) by (simp add: value_switch_def)
qed

lemma reads_integer:
  fixes fl :: "'d floats"
  assumes "json_text j = decimal_int i" "(read_back j :: 'd json_value) = VNumber (integer_number (i < 0) (nat \<bar>i\<bar>))" "nat \<bar>i\<bar> \<le> max64 (i < 0)"
  shows "reads fl h j"
proof (rule readsI)
  fix n p r st st'
  assume a: "stops r" "feed h (calls (read_back j)) st = Some st'"
  obtain c cs where c: "decimal_int i = c # cs" "c \<notin> {0x6E, 0x74, 0x66, 0x22, 0x7B, 0x5B}" using decimal_int_head [of i] by blast
  have x: "h (CNumber (integer_number (i < 0) (nat \<bar>i\<bar>))) st = (True, st')"
    using a(2) unfolding assms(2) calls.simps feed_one .
  show "goes (value_switch fl h (object_loop n fl h) (array_loop n fl h) (p, json_text j @ r) st) (p + length (json_text j), r) st'"
    unfolding assms(1)
    by (rule switch_number [where c = c and cs = cs and x = "integer_number (i < 0) (nat \<bar>i\<bar>)", OF c])
      (rule ParseNumber_decimal_int [OF assms(3) a(1)], rule x)
qed

lemma decimal_as_int: "decimal n = decimal_int (int n)" by (simp add: decimal_int_def)

lemma int_range:
  fixes i :: u32 and k :: u64
  shows "nat \<bar>sint i\<bar> \<le> max64 (sint i < 0)" "nat \<bar>sint k\<bar> \<le> max64 (sint k < 0)" "unat i \<le> max64 False" "unat k \<le> max64 False"
proof -
  have "unat i < 2 ^ 32" "unat k < 2 ^ 64" using unsigned_less [of i] unsigned_less [of k] by simp_all
  then show "nat \<bar>sint i\<bar> \<le> max64 (sint i < 0)" "nat \<bar>sint k\<bar> \<le> max64 (sint k < 0)" "unat i \<le> max64 False" "unat k \<le> max64 False"
    using sint_ge [of i] sint_lt [of i] sint_ge [of k] sint_lt [of k] by (auto simp: max64_def)
qed

lemma literal_reads:
  assumes "js_Peek (p, c # cs @ r) \<noteq> 0" "h x st = (True, st')"
  shows "goes (ParseLiteral h cs x (p, c # cs @ r) st) (p + length (c # cs), r) st'"
proof -
  have "Consumes cs (q, cs @ r) = (True, (q + length cs, r))" for q
    by (induction cs arbitrary: q) (simp_all add: Consume_def)
  then show ?thesis using assms(2) by (simp add: ParseLiteral_def goes_call)
qed

lemma reads_null: "reads fl h JNull"
proof (rule readsI)
  fix n p r st st'
  assume "feed h (calls (read_back JNull)) st = Some st'"
  then have "h CNull st = (True, st')" unfolding read_back.simps calls.simps feed_one .
  from literal_reads [where h = h and x = CNull and st = st and p = p and c = "0x6E" and cs = "[0x75, 0x6C, 0x6C]" and r = r, OF _ this]
  show "goes (value_switch fl h (object_loop n fl h) (array_loop n fl h) (p, json_text JNull @ r) st) (p + length (json_text JNull), r) st'"
    by (simp add: value_switch_def ParseNull_def ascii_def)
qed

lemma reads_bool: "reads fl h (JBool b)"
proof (rule readsI)
  fix n p r st st'
  assume "feed h (calls (read_back (JBool b))) st = Some st'"
  then have x: "h (CBool b) st = (True, st')" unfolding read_back.simps calls.simps feed_one .
  show "goes (value_switch fl h (object_loop n fl h) (array_loop n fl h) (p, json_text (JBool b) @ r) st) (p + length (json_text (JBool b)), r) st'"
    using literal_reads [where h = h and x = "CBool b" and st = st and p = p and c = "0x74" and cs = "[0x72, 0x75, 0x65]" and r = r, OF _ x]
      literal_reads [where h = h and x = "CBool b" and st = st and p = p and c = "0x66" and cs = "[0x61, 0x6C, 0x73, 0x65]" and r = r, OF _ x]
    by (cases b) (simp_all add: value_switch_def ParseTrue_def ParseFalse_def ascii_def)
qed

lemma string_reads:
  assumes "h (if k then CKey s else CString s) st = (True, st')"
  shows "goes (ParseString h k (p, json_string s @ r) st) (p + length (json_string s), r) st'"
  using assms by (simp add: ParseString_def read_string goes_call)

lemma reads_text: "reads fl h (JString s)"
proof (rule readsI)
  fix n p r st st'
  assume "feed h (calls (read_back (JString s))) st = Some st'"
  then have "h (if False then CKey s else CString s) st = (True, st')" unfolding read_back.simps calls.simps feed_one by simp
  from string_reads [where h = h and k = False and s = s and st = st and p = p and r = r, OF this]
  show "goes (value_switch fl h (object_loop n fl h) (array_loop n fl h) (p, json_text (JString s) @ r) st) (p + length (json_text (JString s)), r) st'"
    by (simp add: value_switch_def json_string_def)
qed

lemma reads_numbers: "reads fl h (JInt i)" "reads fl h (JUint i)" "reads fl h (JInt64 k)" "reads fl h (JUint64 k)"
proof -
  show "reads fl h (JInt i)" by (rule reads_integer [of _ "sint i"]) (simp_all add: int_range)
  show "reads fl h (JUint i)" by (rule reads_integer [of _ "int (unat i)"]) (simp_all add: decimal_as_int int_range)
  show "reads fl h (JInt64 k)" by (rule reads_integer [of _ "sint k"]) (simp_all add: int_range)
  show "reads fl h (JUint64 k)" by (rule reads_integer [of _ "int (unat k)"]) (simp_all add: decimal_as_int int_range)
qed

subsection \<open>Arrays and objects\<close>

lemma stops_marks: "stops (0x2C # r)" "stops (0x5D # r)" "stops (0x7D # r)"
  by (simp_all add: stops_def is_digit_def)

lemma array_element_last:
  assumes "goes (val s st) (p, 0x5D # r) st1" "h (CEndArray (k + 1)) st1 = (True, st')"
  shows "goes (array_element h val loop k s st) (p + 1, r) st'"
  unfolding array_element_def by (rule goes_pbind [OF assms(1)]) (simp add: Consume_def goes_call assms(2))

lemma array_element_next:
  assumes "goes (val s st) (p, 0x2C # c # cs) st1" "starts c" "goes (loop (k + 1) (p + 1, c # cs) st1) s' st'"
  shows "goes (array_element h val loop k s st) s' st'"
  unfolding array_element_def
  by (rule goes_pbind [OF assms(1)]) (use assms(2,3) in \<open>simp add: Consume_def starts_def\<close>)

abbreviation element_calls :: "json list \<Rightarrow> 'd reader_call list" where
  "element_calls js \<equiv> concat (map (\<lambda>j. calls (read_back j)) js)"

abbreviation more_elements :: "json list \<Rightarrow> byte list" where
  "more_elements js \<equiv> concat (map (\<lambda>j. 0x2C # json_text j) js)"

lemma array_reads:
  assumes "\<forall>j \<in> set (j # js). reads fl h j"
    and "feed h (element_calls (j # js) @ [CEndArray (k + of_nat (length (j # js)))]) st = Some st'"
  shows "goes (array_loop n fl h k (p, json_text j @ more_elements js @ 0x5D # r) st)
    (p + length (json_text j @ more_elements js) + 1, r) st'"
  using assms
proof (induction js arbitrary: j k n p st)
  case Nil
  show ?case
  proof (cases n)
    case (Suc m)
    obtain st1 where v: "feed h (calls (read_back j)) st = Some st1" "h (CEndArray (k + 1)) st1 = (True, st')"
      using Nil.prems(2) by (auto simp: feed_append split: option.splits prod.splits if_splits)
    have "goes (ParseValue m fl h (p, json_text j @ 0x5D # r) st) (p + length (json_text j), 0x5D # r) st1"
      using Nil.prems(1) v(1) stops_marks by (intro readsD) simp_all
    from array_element_last [where h = h and k = k and val = "ParseValue m fl h", OF this v(2)] show ?thesis unfolding Suc array_loop.simps by simp
  qed simp
next
  case (Cons j2 js)
  show ?case
  proof (cases n)
    case (Suc m)
    let ?rest = "json_text j2 @ more_elements js @ 0x5D # r"
    obtain c cs where c: "?rest = c # cs" "starts c" using json_text_head [of j2] by auto
    obtain st1 where v: "feed h (calls (read_back j)) st = Some st1"
      "feed h (element_calls (j2 # js) @ [CEndArray (k + 1 + of_nat (length (j2 # js)))]) st1 = Some st'"
      using Cons.prems(2) by (auto simp: feed_append add.assoc split: option.splits)
    have g: "goes (ParseValue m fl h (p, json_text j @ 0x2C # ?rest) st) (p + length (json_text j), 0x2C # c # cs) st1"
      unfolding c(1) [symmetric] using Cons.prems(1) v(1) stops_marks by (intro readsD) simp_all
    have "goes (array_loop m fl h (k + 1) (p + length (json_text j) + 1, c # cs) st1)
       (p + length (json_text j) + 1 + length (json_text j2 @ more_elements js) + 1, r) st'"
      unfolding c(1) [symmetric] using Cons.prems(1) v(2) by (intro Cons.IH) simp_all
    from array_element_next [where val = "ParseValue m fl h" and loop = "array_loop m fl h", OF g c(2) this] show ?thesis unfolding Suc array_loop.simps by (simp add: add.assoc)
  qed simp
qed

lemma reads_array:
  assumes "\<forall>j \<in> set js. reads fl h j"
  shows "reads fl h (JArray js)"
proof (rule readsI)
  fix n p r st st'
  assume "stops r" and f: "feed h (calls (read_back (JArray js))) st = Some st'"
  obtain st1 where v: "h CStartArray st = (True, st1)"
    "feed h (element_calls js @ [CEndArray (of_nat (length js))]) st1 = Some st'"
    using f by (auto simp: comp_def split: prod.splits if_splits)
  let ?loop = "array_loop n fl h"
  have "goes (ParseArray h ?loop (p, json_text (JArray js) @ r) st) (p + length (json_text (JArray js)), r) st'"
  proof (cases js)
    case Nil
    then have "h (CEndArray 0) st1 = (True, st')" using v(2) by (auto split: prod.splits if_splits)
    then show ?thesis using Nil v(1) by (simp add: ParseArray_def call_def Consume_def goes_def)
  next
    case (Cons j js2)
    obtain c cs where c: "json_text j @ more_elements js2 @ 0x5D # r = c # cs" "starts c" using json_text_head [of j] by auto
    have "goes (?loop 0 (p + 1, json_text j @ more_elements js2 @ 0x5D # r) st1)
      (p + 1 + length (json_text j @ more_elements js2) + 1, r) st'"
      using assms v(2) unfolding Cons by (intro array_reads) simp_all
    then have "goes (?loop 0 (p + 1, c # cs) st1) (p + length (json_text (JArray js)), r) st'"
      unfolding c(1) by (simp add: Cons comp_def add.assoc)
    moreover have "json_text (JArray js) @ r = 0x5B # c # cs" unfolding c(1) [symmetric] by (simp add: Cons comp_def)
    ultimately show ?thesis using v(1) c(2) by (simp add: ParseArray_def call_def Consume_def starts_def)
  qed
  then show "goes (value_switch fl h (object_loop n fl h) ?loop (p, json_text (JArray js) @ r) st) (p + length (json_text (JArray js)), r) st'"
    by (simp add: value_switch_def)
qed

abbreviation member_text :: "byte list \<times> json \<Rightarrow> byte list" where
  "member_text kv \<equiv> json_string (fst kv) @ 0x3A # json_text (snd kv)"

abbreviation more_members :: "(byte list \<times> json) list \<Rightarrow> byte list" where
  "more_members kvs \<equiv> concat (map (\<lambda>kv. 0x2C # member_text kv) kvs)"

abbreviation member_calls :: "(byte list \<times> json) list \<Rightarrow> 'd reader_call list" where
  "member_calls kvs \<equiv> concat (map (\<lambda>kv. CKey (fst kv) # calls (read_back (snd kv))) kvs)"

text \<open>A key, its colon, its value, and what follows: the end of the object or the quote of the next key.\<close>

definition after_member :: "('d, 'h) json_handler \<Rightarrow> (u32 \<Rightarrow> 'h parse_fn) \<Rightarrow> u32 \<Rightarrow> 'h parse_fn" where
  "after_member h loop memberCount s st =
     (let s = SkipWhitespace s; memberCount = memberCount + 1 in
      if js_Peek s = 0x2C then loop memberCount (SkipWhitespace (js_Take s)) st
      else if js_Peek s = 0x7D then (let s = js_Take s in call h (CEndObject memberCount) (fst s) s st)
      else PError kParseErrorObjectMissCommaOrCurlyBracket (fst s) st)"

lemma object_member_goes:
  assumes "h (CKey key) st = (True, st0)" "starts c" "goes (val (p + length (json_string key) + 1, c # cs) st0) s1 st1"
    and "goes (after_member h loop k s1 st1) s' st'"
  shows "goes (object_member h val loop k (p, json_string key @ 0x3A # c # cs) st) s' st'"
proof -
  have q: "js_Peek (p, json_string key @ 0x3A # c # cs) = 0x22" by (simp add: json_string_def)
  have "goes (ParseString h True (p, json_string key @ 0x3A # c # cs) st) (p + length (json_string key), 0x3A # c # cs) st0"
    using assms(1) by (intro string_reads) simp
  moreover have "goes (pbind (val (p + length (json_string key) + 1, c # cs) st0) (after_member h loop k)) s' st'"
    by (rule goes_pbind [OF assms(3)]) (rule assms(4))
  ultimately show ?thesis unfolding object_member_def after_member_def [abs_def]
    using q assms(2) by (simp, elim goes_pbind) (simp add: Consume_def starts_def)
qed

lemma after_last:
  assumes "h (CEndObject (k + 1)) st = (True, st')"
  shows "goes (after_member h loop k (p, 0x7D # r) st) (p + 1, r) st'"
  using assms by (simp add: after_member_def goes_call)

lemma after_next:
  assumes "goes (loop (k + 1) (p + 1, 0x22 # cs) st) s' st'"
  shows "goes (after_member h loop k (p, 0x2C # 0x22 # cs) st) s' st'"
  using assms by (simp add: after_member_def)

lemma object_reads:
  assumes "\<forall>kv \<in> set (kv # kvs). reads fl h (snd kv)"
    and "feed h (member_calls (kv # kvs) @ [CEndObject (k + of_nat (length (kv # kvs)))]) st = Some st'"
  shows "goes (object_loop n fl h k (p, member_text kv @ more_members kvs @ 0x7D # r) st)
    (p + length (member_text kv @ more_members kvs) + 1, r) st'"
  using assms
proof (induction kvs arbitrary: kv k n p st)
  case Nil
  show ?case
  proof (cases n)
    case (Suc m)
    obtain c cs where c: "json_text (snd kv) @ 0x7D # r = c # cs" "starts c" using json_text_head [of "snd kv"] by auto
    obtain st0 st1 where v: "h (CKey (fst kv)) st = (True, st0)" "feed h (calls (read_back (snd kv))) st0 = Some st1"
      "h (CEndObject (k + 1)) st1 = (True, st')"
      using Nil.prems(2) by (auto simp: feed_append split: option.splits prod.splits if_splits)
    let ?q = "p + length (json_string (fst kv)) + 1"
    have "goes (ParseValue m fl h (?q, c # cs) st0) (?q + length (json_text (snd kv)), 0x7D # r) st1"
      unfolding c(1) [symmetric] using Nil.prems(1) v(2) stops_marks by (intro readsD) simp_all
    from object_member_goes [where h = h and k = k and val = "ParseValue m fl h" and loop = "object_loop m fl h", OF v(1) c(2) this after_last [where h = h and k = k, OF v(3)]]
    show ?thesis unfolding Suc object_loop.simps by (simp add: c(1) add.assoc)
  qed simp
next
  case (Cons kv2 kvs)
  show ?case
  proof (cases n)
    case (Suc m)
    let ?rest = "member_text kv2 @ more_members kvs @ 0x7D # r"
    obtain c cs where c: "json_text (snd kv) @ 0x2C # ?rest = c # cs" "starts c" using json_text_head [of "snd kv"] by auto
    obtain ds where d: "?rest = 0x22 # ds" by (simp add: json_string_def)
    obtain st0 st1 where v: "h (CKey (fst kv)) st = (True, st0)" "feed h (calls (read_back (snd kv))) st0 = Some st1"
      "feed h (member_calls (kv2 # kvs) @ [CEndObject (k + 1 + of_nat (length (kv2 # kvs)))]) st1 = Some st'"
      using Cons.prems(2) by (auto simp: feed_append add.assoc split: option.splits prod.splits if_splits)
    let ?q = "p + length (json_string (fst kv)) + 1"
    let ?q2 = "?q + length (json_text (snd kv))"
    have g: "goes (ParseValue m fl h (?q, c # cs) st0) (?q2, 0x2C # 0x22 # ds) st1"
      unfolding c(1) [symmetric] d [symmetric] using Cons.prems(1) v(2) stops_marks by (intro readsD) simp_all
    have "goes (object_loop m fl h (k + 1) (?q2 + 1, 0x22 # ds) st1) (?q2 + 1 + length (member_text kv2 @ more_members kvs) + 1, r) st'"
      unfolding d [symmetric] using Cons.prems(1) v(3) by (intro Cons.IH) simp_all
    from object_member_goes [where h = h and k = k and val = "ParseValue m fl h" and loop = "object_loop m fl h", OF v(1) c(2) g after_next [where h = h and k = k and loop = "object_loop m fl h", OF this]]
    show ?thesis unfolding Suc object_loop.simps c(1) [symmetric] by (simp add: add.assoc)
  qed simp
qed

lemma reads_object:
  assumes "\<forall>kv \<in> set kvs. reads fl h (snd kv)"
  shows "reads fl h (JObject kvs)"
proof (rule readsI)
  fix n p r st st'
  assume "stops r" and f: "feed h (calls (read_back (JObject kvs))) st = Some st'"
  obtain st1 where v: "h CStartObject st = (True, st1)"
    "feed h (member_calls kvs @ [CEndObject (of_nat (length kvs))]) st1 = Some st'"
    using f by (cases "h CStartObject st") (auto simp: comp_def case_prod_unfold split: if_splits)
  let ?loop = "object_loop n fl h"
  have "goes (ParseObject h ?loop (p, json_text (JObject kvs) @ r) st) (p + length (json_text (JObject kvs)), r) st'"
  proof (cases kvs)
    case Nil
    then have "h (CEndObject 0) st1 = (True, st')" using v(2) by (auto split: prod.splits if_splits)
    then show ?thesis using Nil v(1) by (simp add: ParseObject_def call_def Consume_def goes_def)
  next
    case (Cons kv kvs2)
    obtain ds where d: "member_text kv @ more_members kvs2 @ 0x7D # r = 0x22 # ds" by (simp add: json_string_def)
    have "goes (?loop 0 (p + 1, member_text kv @ more_members kvs2 @ 0x7D # r) st1)
      (p + 1 + length (member_text kv @ more_members kvs2) + 1, r) st'"
      using assms v(2) unfolding Cons by (intro object_reads) simp_all
    then have "goes (?loop 0 (p + 1, 0x22 # ds) st1) (p + length (json_text (JObject kvs)), r) st'"
      unfolding d by (simp add: Cons comp_def case_prod_unfold add.assoc)
    moreover have "json_text (JObject kvs) @ r = 0x7B # 0x22 # ds" unfolding d [symmetric] by (simp add: Cons comp_def case_prod_unfold)
    ultimately show ?thesis using v(1) by (simp add: ParseObject_def call_def Consume_def)
  qed
  then show "goes (value_switch fl h ?loop (array_loop n fl h) (p, json_text (JObject kvs) @ r) st) (p + length (json_text (JObject kvs)), r) st'"
    by (simp add: value_switch_def)
qed

lemma reads_all: "reads fl h j"
proof (induction j)
  case (JArray js)
  then show ?case by (simp add: reads_array)
next
  case (JObject kvs)
  then show ?case by (intro reads_object) (auto simp: snds.simps)
qed (simp_all add: reads_null reads_bool reads_text reads_numbers)

lemma Reader_reads:
  assumes "c_str str = json_text j" and "feed h (calls (read_back j)) st = Some st'"
  shows "Reader_Parse fl h str st = PDone (length (json_text j), []) st'"
proof -
  obtain c cs where c: "json_text j = c # cs" "starts c" using json_text_head by blast
  have w: "SkipWhitespace (0, c_str str) = (0, json_text j)" unfolding assms(1) unfolding c(1) by (rule starts_skip [OF c(2)])
  have "goes (ParseValue (2 * length str + 1) fl h (0, json_text j @ []) st) (0 + length (json_text j), []) st'"
    by (rule readsD [OF reads_all _ assms(2)]) (simp add: stops_def)
  then have "ParseValue (2 * length str + 1) fl h (0, json_text j) st = PDone (length (json_text j), []) st'"
    using Parse_value(1) [of str fl h st] unfolding w by (simp add: goes_def)
  moreover have "js_Peek (0, json_text j) \<noteq> 0" using c by (simp add: starts_def)
  ultimately show ?thesis by (simp add: Reader_Parse_def w)
qed

subsection \<open>The writer as the handler of the reader\<close>

text \<open>The handler's state is the writer, or \<open>None\<close> after a failed assertion. \<open>Writer::Double\<close> is a parameter. The other calls
  are those of \<open>json_event\<close>; the writer ignores the counts.\<close>

fun event_of :: "'d reader_call \<Rightarrow> json_event option" where
  "event_of CNull = Some ENull"
| "event_of (CBool b) = Some (EBool b)"
| "event_of (CNumber (NInt i)) = Some (EInt i)"
| "event_of (CNumber (NUint u)) = Some (EUint u)"
| "event_of (CNumber (NInt64 i)) = Some (EInt64 i)"
| "event_of (CNumber (NUint64 u)) = Some (EUint64 u)"
| "event_of (CNumber (NDouble d)) = None"
| "event_of (CString s) = Some (EString s)"
| "event_of (CKey s) = Some (EString s)"
| "event_of CStartObject = Some EStartObject"
| "event_of (CEndObject memberCount) = Some EEndObject"
| "event_of CStartArray = Some EStartArray"
| "event_of (CEndArray elementCount) = Some EEndArray"

definition writer_handler ::
    "('d reader_call \<Rightarrow> json_writer \<Rightarrow> (bool \<times> json_writer) option) \<Rightarrow> ('d, json_writer option) json_handler" where
  "writer_handler double c st =
     (case st of None \<Rightarrow> (False, None)
      | Some w \<Rightarrow> (case (case event_of c of Some e \<Rightarrow> handle e w | None \<Rightarrow> double c w) of
          None \<Rightarrow> (False, None) | Some (b, w) \<Rightarrow> (b, Some w)))"

text \<open>The value with its integers in the narrowest type.\<close>

definition narrow_integer :: "bool \<Rightarrow> nat \<Rightarrow> json" where
  "narrow_integer negative n =
     (if n \<le> max32 negative then if negative then JInt (- of_nat n) else JUint (of_nat n)
      else if negative then JInt64 (- of_nat n) else JUint64 (of_nat n))"

fun narrow :: "json \<Rightarrow> json" where
  "narrow (JInt i) = narrow_integer (sint i < 0) (nat \<bar>sint i\<bar>)"
| "narrow (JUint u) = narrow_integer False (unat u)"
| "narrow (JInt64 i) = narrow_integer (sint i < 0) (nat \<bar>sint i\<bar>)"
| "narrow (JUint64 u) = narrow_integer False (unat u)"
| "narrow (JArray js) = JArray (map narrow js)"
| "narrow (JObject kvs) = JObject (map (\<lambda>(k, v). (k, narrow v)) kvs)"
| "narrow j = j"

lemma narrow_integer_calls:
  "map event_of (calls (VNumber (integer_number negative n))) = map Some (events (narrow_integer negative n))"
  by (simp add: integer_number_def narrow_integer_def)

lemma narrow_calls: "map event_of (calls (read_back j)) = map Some (events (narrow j))"
proof (induction j)
  case (JArray js)
  then show ?case by (auto simp: map_concat comp_def intro!: arg_cong [of _ _ concat])
next
  case (JObject kvs)
  then show ?case by (auto simp: map_concat comp_def case_prod_unfold snds.simps intro!: arg_cong [of _ _ concat])
qed (simp_all add: narrow_integer_calls del: calls.simps(3))

lemma sint_u32: "0 < n \<Longrightarrow> n \<le> 2147483648 \<Longrightarrow> sint (- of_nat n :: u32) = - int n"
  and sint_u64: "0 < m \<Longrightarrow> m \<le> 9223372036854775808 \<Longrightarrow> sint (- of_nat m :: u64) = - int m"
proof -
  have "- of_nat n = (word_of_int (- int n) :: u32)" "- of_nat m = (word_of_int (- int m) :: u64)" by simp_all
  then show "0 < n \<Longrightarrow> n \<le> 2147483648 \<Longrightarrow> sint (- of_nat n :: u32) = - int n"
    "0 < m \<Longrightarrow> m \<le> 9223372036854775808 \<Longrightarrow> sint (- of_nat m :: u64) = - int m"
    by (simp_all only: sint_sbintrunc') (simp_all add: signed_take_bit_int_eq_self)
qed

lemma narrow_integer_text:
  assumes "n \<le> max64 negative" and "negative \<longrightarrow> 0 < n"
  shows "json_text (narrow_integer negative n) = decimal_int (if negative then - int n else int n)"
proof (cases negative)
  case True
  then show ?thesis using assms by (simp add: narrow_integer_def max32_def max64_def sint_u32 sint_u64)
next
  case False
  then show ?thesis using assms
    by (simp add: narrow_integer_def max32_def max64_def decimal_as_int unat_of_nat take_bit_nat_eq_self)
qed

lemma narrow_text: "json_text (narrow j) = json_text j"
proof (induction j)
  case (JArray js)
  then show ?case by (simp add: comp_def cong: map_cong)
next
  case (JObject kvs)
  then have "map (\<lambda>(k, v). json_string k @ 0x3A # json_text v) (map (\<lambda>(k, v). (k, narrow v)) kvs) =
      map (\<lambda>(k, v). json_string k @ 0x3A # json_text v) kvs" by (auto simp: snds.simps)
  then show ?case by (simp only: narrow.simps json_text.simps)
qed (simp_all add: narrow_integer_text int_range decimal_as_int)

lemma narrow_short: "list_all short_event (events j) \<Longrightarrow> list_all short_event (events (narrow j))"
proof (induction j)
  case (JArray js)
  then show ?case by (auto simp: list_all_iff)
next
  case (JObject kvs)
  then show ?case by (fastforce simp: list_all_iff snds.simps)
qed (simp_all add: narrow_integer_def)

lemma feed_writer:
  assumes "jw_wf w" "map event_of cs = map Some es" "list_all short_event es" "run_events es w = Some w'"
  shows "feed (writer_handler double) cs (Some w) = Some (Some w')"
  using assms
proof (induction cs arbitrary: es w)
  case (Cons c cs)
  then obtain e fs where e: "es = e # fs" "event_of c = Some e" "map event_of cs = map Some fs" by auto
  have "handle e w \<noteq> None" using Cons.prems(4) unfolding e(1) by (auto split: option.splits)
  then obtain w1 where w1: "handle e w = Some (True, w1)" "jw_wf w1"
    using handle_refines [OF Cons.prems(1), of e] Cons.prems(3) e(1) by (auto simp: implements_def split: option.splits)
  then have "feed (writer_handler double) cs (Some w1) = Some (Some w')"
    using Cons.IH [OF w1(2) e(3)] Cons.prems(3,4) e(1) by simp
  moreover have "writer_handler double c (Some w) = (True, Some w1)" using w1(1) e(2) by (simp add: writer_handler_def)
  ultimately show ?case by simp
qed simp

subsection \<open>Properties\<close>

text \<open>C35: Every JSON value that the writer writes is read back by \<open>Parse\<close> from the string of \<open>GetString()\<close>: all of the text is
  consumed, and the handler gets the calls of that value, with the same strings and keys (whatever escapes they needed) and the
  integers of 32 and 64 bits by value, in the narrowest type.\<close>

theorem writer_reader_roundtrip:
  assumes "list_all short_event (events j)"
  shows "\<exists>w mem os. run_events (events j) (Writer_new sb_new) = Some w \<and> sb_GetString (jw_os w) = Some (mem, os) \<and>
    Reader_Parse fl log_calls mem [] = PDone (length (json_text j), []) (calls (read_back j))"
proof -
  obtain w mem os where "run_events (events j) (Writer_new sb_new) = Some w" "sb_GetString (jw_os w) = Some (mem, os)"
    "c_str mem = json_text j"
    using events_written [OF assms] by blast
  then show ?thesis using Reader_reads [of mem j log_calls "[]" "calls (read_back j)" fl] by simp
qed

text \<open>C36: With the writer as its handler, \<open>Parse\<close> of the text of a JSON value writes the same text again.\<close>

theorem reader_into_writer:
  assumes "list_all short_event (events j)"
  shows "\<exists>w mem os. Reader_Parse fl (writer_handler double) (json_text j) (Some (Writer_new sb_new)) =
      PDone (length (json_text j), []) (Some w) \<and> IsComplete w \<and> sb_GetString (jw_os w) = Some (mem, os) \<and> c_str mem = json_text j"
proof -
  obtain w mem os where w: "run_events (events (narrow j)) (Writer_new sb_new) = Some w" "IsComplete w"
    "sb_GetString (jw_os w) = Some (mem, os)" "c_str mem = json_text j"
    using events_written [OF narrow_short [OF assms]] unfolding narrow_text by blast
  have "feed (writer_handler double) (calls (read_back j)) (Some (Writer_new sb_new)) = Some (Some w)"
    by (rule feed_writer [OF new_writer(1) narrow_calls narrow_short [OF assms] w(1)])
  moreover have "c_str (json_text j) = json_text j"
    unfolding c_str_def using json_text_no_zero [of j] by (intro takeWhile_eq_all_conv [THEN iffD2]) metis
  ultimately have "Reader_Parse fl (writer_handler double) (json_text j) (Some (Writer_new sb_new)) = PDone (length (json_text j), []) (Some w)"
    by (intro Reader_reads)
  then show ?thesis using w(2-4) by blast
qed

text \<open>Floating point on whole numbers, for the witnesses.\<close>

definition int_floats :: "int floats" where
  "int_floats = \<lparr>fl_of_u64 = uint, fl_digit = (\<lambda>d k. 10 * d + uint k), fl_positive = (\<lambda>d. 0 < d), fl_mult = (*), fl_div = (div),
     fl_pow10 = (\<lambda>n. 10 ^ n), fl_zero = 0, fl_too_big = (\<lambda>d. d > 2 ^ 1024), fl_neg = uminus\<rparr>"

theorem writer_reader_roundtrip_witness:
  "\<exists>w mem os. run_events (events (JObject [([105, 100, 0], JInt 0xFFFFFFFF), ([97], JArray [JNull, JUint64 5])])) (Writer_new sb_new) = Some w
     \<and> sb_GetString (jw_os w) = Some (mem, os) \<and> Reader_Parse int_floats log_calls mem [] =
       PDone (length (json_text (JObject [([105, 100, 0], JInt 0xFFFFFFFF), ([97], JArray [JNull, JUint64 5])])), [])
         (calls (read_back (JObject [([105, 100, 0], JInt 0xFFFFFFFF), ([97], JArray [JNull, JUint64 5])])))"
  by (rule writer_reader_roundtrip) (simp add: short_string_def)

theorem reader_into_writer_witness:
  "\<exists>w mem os. Reader_Parse int_floats (writer_handler (\<lambda>c w. None)) (json_text (JArray [JBool True, JInt64 (- 7)])) (Some (Writer_new sb_new)) =
      PDone (length (json_text (JArray [JBool True, JInt64 (- 7)])), []) (Some w) \<and> IsComplete w \<and>
    sb_GetString (jw_os w) = Some (mem, os) \<and> c_str mem = json_text (JArray [JBool True, JInt64 (- 7)])"
  by (rule reader_into_writer) simp

theorem reader_calls_value_witness:
  "js_Peek (length (json_text (JObject [([97], JArray [JUint 12, JNull])])), []) = 0 \<and>
    (\<exists>v. feed log_calls (calls v) [] =
       Some [CStartObject, CKey [97], CStartArray, CNumber (NUint 12 :: int json_number), CNull, CEndArray 2, CEndObject 1])"
proof (rule reader_calls_value)
  let ?j = "JObject [([97], JArray [JUint 12, JNull])]"
  have "c_str (json_text ?j) = json_text ?j"
    unfolding c_str_def using json_text_no_zero [of ?j] by (intro takeWhile_eq_all_conv [THEN iffD2]) metis
  then show "Reader_Parse int_floats log_calls (json_text ?j) [] =
      PDone (length (json_text ?j), []) [CStartObject, CKey [97], CStartArray, CNumber (NUint 12), CNull, CEndArray 2, CEndObject 1]"
    by (rule Reader_reads) (simp add: integer_number_def max32_def log_calls_def)
qed

end
